(* ===== verification/Prelude.thy ===== *)
theory Prelude
  imports Main "HOL-Library.Code_Target_Nat"
begin

section \<open>Rust text and results\<close>

text \<open>
  This theory holds what the components share: Rust strings and the operations of
  \<^verbatim>\<open>std::str\<close> the sources call, \<^verbatim>\<open>Result\<close> values, machine-size
  arithmetic, and generic list lemmas.

  A Rust \<^verbatim>\<open>char\<close> is a Unicode scalar value; it is modelled by its code point, a
  natural number, and a \<^verbatim>\<open>String\<close> by the list of its chars. Where the source counts
  bytes (\<^verbatim>\<open>s.len()\<close>) the model uses \<open>utf8_len\<close>; where it slices at a
  char boundary the model takes or drops chars.
\<close>

type_synonym rchar = nat
type_synonym rstring = "rchar list"
type_synonym ('e, 'a) result = "'e + 'a"

named_theorems text_simps \<open>equations that evaluate the text operations\<close>

definition str :: "string \<Rightarrow> rstring" where
  "str s = map of_char s"

abbreviation (input) LF :: rchar where "LF \<equiv> 10"
abbreviation (input) CR :: rchar where "CR \<equiv> 13"

definition squote :: "rstring \<Rightarrow> rstring" where
  "squote s = [39] @ s @ [39]"

subsection \<open>Whitespace and trimming\<close>

text \<open>\<^verbatim>\<open>char::is_whitespace\<close>: the Unicode property White\_Space.\<close>

definition is_whitespace :: "rchar \<Rightarrow> bool" where
  "is_whitespace c \<longleftrightarrow>
     (9 \<le> c \<and> c \<le> 13) \<or> c = 32 \<or> c = 133 \<or> c = 160 \<or> c = 5760 \<or>
     (8192 \<le> c \<and> c \<le> 8202) \<or> c = 8232 \<or> c = 8233 \<or> c = 8239 \<or> c = 8287 \<or> c = 12288"

definition trim_start :: "rstring \<Rightarrow> rstring" where
  "trim_start s = dropWhile is_whitespace s"

definition trim_end :: "rstring \<Rightarrow> rstring" where
  "trim_end s = rev (dropWhile is_whitespace (rev s))"

definition trim :: "rstring \<Rightarrow> rstring" where
  "trim s = trim_end (trim_start s)"

definition trim_end_matches :: "rchar \<Rightarrow> rstring \<Rightarrow> rstring" where
  "trim_end_matches c s = rev (dropWhile (\<lambda>x. x = c) (rev s))"

subsection \<open>Prefixes, suffixes and splitting\<close>

definition starts_with :: "'a list \<Rightarrow> 'a list \<Rightarrow> bool" where
  "starts_with p s \<longleftrightarrow> take (length p) s = p"

definition strip_prefix :: "'a list \<Rightarrow> 'a list \<Rightarrow> 'a list option" where
  "strip_prefix p s = (if starts_with p s then Some (drop (length p) s) else None)"

definition ends_with :: "'a list \<Rightarrow> 'a list \<Rightarrow> bool" where
  "ends_with p s \<longleftrightarrow> starts_with (rev p) (rev s)"

definition strip_suffix :: "'a list \<Rightarrow> 'a list \<Rightarrow> 'a list option" where
  "strip_suffix p s = (if ends_with p s then Some (take (length s - length p) s) else None)"

fun split_on :: "'a \<Rightarrow> 'a list \<Rightarrow> 'a list list" where
  "split_on d [] = [[]]"
| "split_on d (c # s) =
     (if c = d then [] # split_on d s
      else (case split_on d s of [] \<Rightarrow> [[c]] | x # xs \<Rightarrow> (c # x) # xs))"

fun join :: "'a list \<Rightarrow> 'a list list \<Rightarrow> 'a list" where
  "join sep [] = []"
| "join sep [x] = x"
| "join sep (x # y # xs) = x @ sep @ join sep (y # xs)"

definition split_once :: "'a \<Rightarrow> 'a list \<Rightarrow> ('a list \<times> 'a list) option" where
  "split_once d s =
     (if d \<in> set s
      then Some (takeWhile (\<lambda>c. c \<noteq> d) s, tl (dropWhile (\<lambda>c. c \<noteq> d) s))
      else None)"

definition rsplit_once :: "'a \<Rightarrow> 'a list \<Rightarrow> ('a list \<times> 'a list) option" where
  "rsplit_once d s =
     (case split_once d (rev s) of None \<Rightarrow> None | Some (a, b) \<Rightarrow> Some (rev b, rev a))"

definition strip_cr :: "rstring \<Rightarrow> rstring" where
  "strip_cr l = (if l \<noteq> [] \<and> last l = CR then butlast l else l)"

text \<open>
  \<^verbatim>\<open>str::lines\<close>: every line but an unterminated last one loses its newline and
  a carriage return before it; an empty unterminated last line is not a line.
\<close>

definition lines :: "rstring \<Rightarrow> rstring list" where
  "lines s =
     (let ps = split_on LF s
      in map strip_cr (butlast ps) @ (if last ps = [] then [] else [last ps]))"

fun find_sub :: "'a list \<Rightarrow> 'a list \<Rightarrow> nat option" where
  "find_sub n [] = (if n = [] then Some 0 else None)"
| "find_sub n (c # h) =
     (if starts_with n (c # h) then Some 0 else map_option Suc (find_sub n h))"

definition contains_sub :: "'a list \<Rightarrow> 'a list \<Rightarrow> bool" where
  "contains_sub n h \<longleftrightarrow> find_sub n h \<noteq> None"

subsection \<open>ASCII classes, decimal printing, UTF-8 length\<close>

definition is_ascii_digit :: "rchar \<Rightarrow> bool" where
  "is_ascii_digit c \<longleftrightarrow> 48 \<le> c \<and> c \<le> 57"

definition to_ascii_lower :: "rchar \<Rightarrow> rchar" where
  "to_ascii_lower c = (if 65 \<le> c \<and> c \<le> 90 then c + 32 else c)"

definition to_ascii_lowercase :: "rstring \<Rightarrow> rstring" where
  "to_ascii_lowercase s = map to_ascii_lower s"

fun dec :: "nat \<Rightarrow> rstring" where
  "dec n = (if n < 10 then [48 + n] else dec (n div 10) @ [48 + n mod 10])"

declare dec.simps [simp del]

definition char_len_utf8 :: "rchar \<Rightarrow> nat" where
  "char_len_utf8 c =
     (if c < 128 then 1 else if c < 2048 then 2 else if c < 65536 then 3 else 4)"

definition utf8_len :: "rstring \<Rightarrow> nat" where
  "utf8_len s = sum_list (map char_len_utf8 s)"

subsection \<open>Saturating arithmetic on usize, u64 and i64\<close>

definition usize_max :: nat where "usize_max = 2 ^ 64 - 1"

definition saturating_add :: "nat \<Rightarrow> nat \<Rightarrow> nat" where
  "saturating_add a b = min (a + b) usize_max"

definition saturating_mul :: "nat \<Rightarrow> nat \<Rightarrow> nat" where
  "saturating_mul a b = min (a * b) usize_max"

subsection \<open>Laws of the text operations\<close>

lemma str_simps [text_simps]: "str [] = []" "str (c # s) = of_char c # str s"
  by (simp_all add: str_def)

lemma str_append: "str (a @ b) = str a @ str b"
  by (simp add: str_def)

lemma trim_end_Nil [simp]: "trim_end [] = []"
  by (simp add: trim_end_def)

lemma trim_end_append_ws: "is_whitespace c \<Longrightarrow> trim_end (s @ [c]) = trim_end s"
  by (simp add: trim_end_def)

lemma trim_end_append_nonws: "\<not> is_whitespace c \<Longrightarrow> trim_end (s @ [c]) = s @ [c]"
  by (simp add: trim_end_def)

lemma trim_end_idem [simp]: "trim_end (trim_end s) = trim_end s"
proof (induction s rule: rev_induct)
  case (snoc c s)
  then show ?case
    by (cases "is_whitespace c") (simp_all add: trim_end_append_ws trim_end_append_nonws)
qed simp

lemma trim_end_Cons:
  "trim_end (c # s) =
     (if trim_end s = [] then (if is_whitespace c then [] else [c]) else c # trim_end s)"
proof (induction s rule: rev_induct)
  case (snoc d s)
  show ?case
  proof (cases "is_whitespace d")
    case True
    then have "trim_end (c # s @ [d]) = trim_end (c # s)"
      using trim_end_append_ws [of d "c # s"] by simp
    with True snoc show ?thesis by (simp add: trim_end_append_ws)
  next
    case False
    then have "trim_end (c # s @ [d]) = c # s @ [d]"
      using trim_end_append_nonws [of d "c # s"] by simp
    with False show ?thesis by (simp add: trim_end_append_nonws)
  qed
qed (simp add: trim_end_def)

lemma trim_trim_end [simp]: "trim (trim_end s) = trim s"
proof (induction s)
  case (Cons c s)
  then show ?case
    by (auto simp: trim_def trim_start_def trim_end_Cons)
qed (simp add: trim_def trim_start_def)

lemma trim_nonws_ends:
  assumes "s \<noteq> []" "\<not> is_whitespace (hd s)" "\<not> is_whitespace (last s)"
  shows "trim s = s"
proof -
  have "trim_start s = s" using assms by (cases s) (auto simp: trim_start_def)
  moreover have "s = butlast s @ [last s]" using assms by simp
  then have "trim_end s = s" using assms(3) trim_end_append_nonws by metis
  ultimately show ?thesis by (simp add: trim_def)
qed

lemma split_on_not_Nil [simp]: "split_on d s \<noteq> []"
  by (cases s) (auto split: list.splits)

lemma join_split_on [simp]: "join [d] (split_on d s) = s"
proof (induction s)
  case (Cons c s)
  obtain x xs where xs: "split_on d s = x # xs" by (meson neq_Nil_conv split_on_not_Nil)
  with Cons show ?case by (cases xs) auto
qed simp

lemma split_on_snoc: "split_on d (s @ [d]) = split_on d s @ [[]]"
  by (induction s) (auto split: list.splits)

lemma join_snoc_Nil: "xs \<noteq> [] \<Longrightarrow> join [d] (xs @ [[]]) = join [d] xs @ [d]"
  by (induction "[d]" xs rule: join.induct) auto

lemma join_Cons: "xs \<noteq> [] \<Longrightarrow> join sep (x # xs) = x @ sep @ join sep xs"
  by (cases xs) auto

lemma last_split_on: "last (split_on d s) = [] \<longleftrightarrow> s = [] \<or> last s = d"
proof (induction s)
  case (Cons c s)
  obtain x xs where xs: "split_on d s = x # xs" by (meson neq_Nil_conv split_on_not_Nil)
  show ?case
  proof (cases "s = []")
    case True
    then show ?thesis by auto
  next
    case False
    then have "x \<noteq> [] \<or> xs \<noteq> []" using xs by (cases s) (auto split: list.splits if_splits)
    with Cons xs False show ?thesis by (auto split: if_splits)
  qed
qed simp

lemma split_on_no_sep: "d \<notin> set s \<Longrightarrow> split_on d s = [s]"
  by (induction s) auto

lemma split_on_append_sep: "d \<notin> set s \<Longrightarrow> split_on d (s @ d # t) = s # split_on d t"
  by (induction s) auto

lemma split_on_join:
  "xs \<noteq> [] \<Longrightarrow> \<forall>x \<in> set xs. d \<notin> set x \<Longrightarrow> split_on d (join [d] xs) = xs"
  by (induction "[d]" xs rule: join.induct) (auto simp: split_on_no_sep split_on_append_sep)

subsection \<open>Search helpers\<close>

text \<open>\<^verbatim>\<open>for i in lo..=hi { if p(i) { return Some(i) } }\<close>\<close>

definition first_in :: "(nat \<Rightarrow> bool) \<Rightarrow> nat \<Rightarrow> nat \<Rightarrow> nat option" where
  "first_in p lo hi = List.find p [lo..<Suc hi]"

definition or_else :: "'a option \<Rightarrow> 'a option \<Rightarrow> 'a option" where
  "or_else a b = (case a of None \<Rightarrow> b | Some x \<Rightarrow> Some x)"

lemma or_else_simps [simp]: "or_else None b = b" "or_else (Some x) b = Some x"
  by (simp_all add: or_else_def)

lemma or_else_Some_iff: "or_else a b = Some x \<longleftrightarrow> a = Some x \<or> a = None \<and> b = Some x"
  by (cases a) auto

lemma or_else_None_iff: "or_else a b = None \<longleftrightarrow> a = None \<and> b = None"
  by (cases a) auto

lemma first_in_Some_iff:
  "first_in p lo hi = Some i \<longleftrightarrow> lo \<le> i \<and> i \<le> hi \<and> p i \<and> (\<forall>j. lo \<le> j \<and> j < i \<longrightarrow> \<not> p j)"
proof
  assume "first_in p lo hi = Some i"
  then obtain k where k: "k < Suc hi - lo" "p (lo + k)" "i = lo + k" "\<forall>j<k. \<not> p (lo + j)"
    by (auto simp: first_in_def find_Some_iff simp del: upt_Suc)
  have "\<not> p j" if "lo \<le> j" "j < i" for j
    using that k(3) k(4)[rule_format, of "j - lo"] by simp
  with k show "lo \<le> i \<and> i \<le> hi \<and> p i \<and> (\<forall>j. lo \<le> j \<and> j < i \<longrightarrow> \<not> p j)"
    by auto
next
  assume "lo \<le> i \<and> i \<le> hi \<and> p i \<and> (\<forall>j. lo \<le> j \<and> j < i \<longrightarrow> \<not> p j)"
  then show "first_in p lo hi = Some i"
    unfolding first_in_def find_Some_iff
    by (intro exI [of _ "i - lo"]) (auto simp del: upt_Suc)
qed

lemma first_in_None_iff: "first_in p lo hi = None \<longleftrightarrow> (\<forall>j. lo \<le> j \<and> j \<le> hi \<longrightarrow> \<not> p j)"
  by (auto simp: first_in_def find_None_iff)

end
