(* ===== verification/Patch_Types.thy ===== *)
theory Patch_Types
  imports Prelude
begin

section \<open>Patches: apply-patch/src/parser.rs and lib.rs, the data\<close>

text \<open>
  The hunks a patch is parsed into and the errors of the apply-patch crate. A
  \<^verbatim>\<open>PathBuf\<close> is the string it was made from. The constructor \<open>Panic\<close> of
  the error type is not an error of the crate: it is the outcome of the operations of
  \<^verbatim>\<open>Vec\<close> that panic, so that their absence can be stated.
\<close>

record update_file_chunk =
  change_context :: "rstring option"
  old_lines :: "rstring list"
  new_lines :: "rstring list"
  is_end_of_file :: bool

datatype hunk =
    AddFile rstring rstring
  | DeleteFile rstring
  | UpdateFile rstring "rstring option" "update_file_chunk list"

datatype parse_error =
    InvalidPatchError rstring
  | InvalidHunkError rstring nat

datatype io_error_kind = NotFound | InvalidInput | InvalidData | OtherIo

record io_error =
  io_kind :: io_error_kind
  io_message :: rstring

datatype apply_patch_error =
    ParseError parse_error
  | IoError rstring io_error
  | ComputeReplacements rstring
  | PathUriError rstring
  | ImplicitInvocation
  | Panic

record apply_patch_args =
  args_patch :: rstring
  args_hunks :: "hunk list"
  args_workdir :: "rstring option"
  args_environment_id :: "rstring option"

definition hunk_path :: "hunk \<Rightarrow> rstring" where
  "hunk_path h =
     (case h of
        AddFile p _ \<Rightarrow> p
      | DeleteFile p \<Rightarrow> p
      | UpdateFile _ (Some m) _ \<Rightarrow> m
      | UpdateFile p None _ \<Rightarrow> p)"

definition hunk_source_path :: "hunk \<Rightarrow> rstring" where
  "hunk_source_path h =
     (case h of
        UpdateFile p _ _ \<Rightarrow> p
      | AddFile _ _ \<Rightarrow> hunk_path h
      | DeleteFile _ \<Rightarrow> hunk_path h)"

end
