(* ===== verification/Patch_Parser.thy ===== *)
theory Patch_Parser
  imports Patch_Types
begin

section \<open>Parsing patches: apply-patch/src/streaming\_parser.rs and parser.rs\<close>

text \<open>
  The line-by-line state machine that parses a patch while it is streamed in, and
  \<^verbatim>\<open>parse_patch\<close>, which strips a heredoc wrapper and runs the machine on the whole
  text. \<^verbatim>\<open>StreamingPatchParser\<close> and its inner \<^verbatim>\<open>StreamingParserState\<close> are one
  record. An operation that takes \<^verbatim>\<open>&mut self\<close> returns the parser it leaves behind
  next to its result; where an error leaves the parser unchanged, only the error is returned.
\<close>

subsection \<open>Markers and messages\<close>

definition BEGIN_PATCH_MARKER :: rstring where "BEGIN_PATCH_MARKER = str ''*** Begin Patch''"
definition END_PATCH_MARKER :: rstring where "END_PATCH_MARKER = str ''*** End Patch''"
definition ADD_FILE_MARKER :: rstring where "ADD_FILE_MARKER = str ''*** Add File: ''"
definition DELETE_FILE_MARKER :: rstring where "DELETE_FILE_MARKER = str ''*** Delete File: ''"
definition UPDATE_FILE_MARKER :: rstring where "UPDATE_FILE_MARKER = str ''*** Update File: ''"
definition MOVE_TO_MARKER :: rstring where "MOVE_TO_MARKER = str ''*** Move to: ''"
definition EOF_MARKER :: rstring where "EOF_MARKER = str ''*** End of File''"
definition CHANGE_CONTEXT_MARKER :: rstring where "CHANGE_CONTEXT_MARKER = str ''@@ ''"
definition EMPTY_CHANGE_CONTEXT_MARKER :: rstring where "EMPTY_CHANGE_CONTEXT_MARKER = str ''@@''"
definition ENVIRONMENT_ID_MARKER :: rstring where "ENVIRONMENT_ID_MARKER = str ''*** Environment ID:''"

definition first_line_error :: parse_error where
  "first_line_error = InvalidPatchError
     (str ''The first line of the patch must be '' @ squote BEGIN_PATCH_MARKER)"

definition last_line_error :: parse_error where
  "last_line_error = InvalidPatchError
     (str ''The last line of the patch must be '' @ squote END_PATCH_MARKER)"

definition invalid_header_message :: "rstring \<Rightarrow> rstring" where
  "invalid_header_message trimmed =
     squote trimmed @ str '' is not a valid hunk header. Valid hunk headers: ''
     @ squote (ADD_FILE_MARKER @ str ''{path}'') @ str '', ''
     @ squote (DELETE_FILE_MARKER @ str ''{path}'') @ str '', ''
     @ squote (UPDATE_FILE_MARKER @ str ''{path}'')"

definition unexpected_line_message :: "rstring \<Rightarrow> rstring" where
  "unexpected_line_message line =
     str ''Unexpected line found in update hunk: '' @ squote line
     @ str ''. Every line should start with '' @ squote (str '' '')
     @ str '' (context line), '' @ squote (str ''+'') @ str '' (added line), or ''
     @ squote (str ''-'') @ str '' (removed line)''"

definition expected_context_message :: "rstring \<Rightarrow> rstring" where
  "expected_context_message line =
     str ''Expected update hunk to start with a @@ context marker, got: '' @ squote line"

definition empty_update_message :: "rstring \<Rightarrow> rstring" where
  "empty_update_message path =
     str ''Update file hunk for path '' @ squote path @ str '' is empty''"

definition no_lines_message :: rstring where
  "no_lines_message = str ''Update hunk does not contain any lines''"

subsection \<open>The streaming parser\<close>

datatype parser_mode =
    NotStarted
  | StartedPatch
  | ModeAddFile
  | ModeDeleteFile
  | ModeUpdateFile nat
  | EndedPatch

record streaming_patch_parser =
  line_buffer :: rstring
  mode :: parser_mode
  hunks :: "hunk list"
  environment_id :: "rstring option"
  line_number :: nat

definition default_parser :: streaming_patch_parser where
  "default_parser =
     \<lparr>line_buffer = [], mode = NotStarted, hunks = [], environment_id = None, line_number = 0\<rparr>"

definition last_opt :: "'a list \<Rightarrow> 'a option" where
  "last_opt xs = (if xs = [] then None else Some (last xs))"

definition set_last :: "'a list \<Rightarrow> 'a \<Rightarrow> 'a list" where
  "set_last xs x = butlast xs @ [x]"

definition empty_chunk :: "rstring option \<Rightarrow> update_file_chunk" where
  "empty_chunk ctx = \<lparr>change_context = ctx, old_lines = [], new_lines = [], is_end_of_file = False\<rparr>"

definition chunk_is_empty :: "update_file_chunk \<Rightarrow> bool" where
  "chunk_is_empty c \<longleftrightarrow> old_lines c = [] \<and> new_lines c = []"

definition last_chunk_is_empty :: "update_file_chunk list \<Rightarrow> bool" where
  "last_chunk_is_empty cs \<longleftrightarrow> cs \<noteq> [] \<and> chunk_is_empty (last cs)"

definition last_chunk_is_eof :: "update_file_chunk list \<Rightarrow> bool" where
  "last_chunk_is_eof cs \<longleftrightarrow> cs \<noteq> [] \<and> is_end_of_file (last cs)"

definition ensure_update_hunk_is_not_empty ::
  "streaming_patch_parser \<Rightarrow> rstring \<Rightarrow> (parse_error, unit) result" where
  "ensure_update_hunk_is_not_empty p line =
     (case last_opt (hunks p) of
        Some (UpdateFile path _ chunks) \<Rightarrow>
          (case (chunks, mode p) of
             ([], ModeUpdateFile n) \<Rightarrow> Inl (InvalidHunkError (empty_update_message path) n)
           | _ \<Rightarrow>
               if last_chunk_is_empty chunks then
                 (if line = END_PATCH_MARKER
                  then Inl (InvalidHunkError no_lines_message (line_number p))
                  else Inl (InvalidHunkError (unexpected_line_message line) (line_number p)))
               else Inr ())
      | _ \<Rightarrow> Inr ())"

definition start_hunk :: "streaming_patch_parser \<Rightarrow> rstring \<Rightarrow> hunk \<Rightarrow> parser_mode
    \<Rightarrow> (parse_error, bool \<times> streaming_patch_parser) result" where
  "start_hunk p trimmed h m =
     (case ensure_update_hunk_is_not_empty p trimmed of
        Inl e \<Rightarrow> Inl e
      | Inr _ \<Rightarrow> Inr (True, p\<lparr>hunks := hunks p @ [h], mode := m\<rparr>))"

definition handle_environment_id ::
  "streaming_patch_parser \<Rightarrow> rstring \<Rightarrow> (parse_error, bool \<times> streaming_patch_parser) result" where
  "handle_environment_id p rest =
     (if environment_id p \<noteq> None then
        Inl (InvalidPatchError (str ''apply_patch environment_id cannot be specified more than once''))
      else if trim rest = [] then
        Inl (InvalidPatchError (str ''apply_patch environment_id cannot be empty''))
      else Inr (True, p\<lparr>environment_id := Some (trim rest)\<rparr>))"

definition handle_hunk_headers_and_end_patch ::
  "streaming_patch_parser \<Rightarrow> rstring \<Rightarrow> (parse_error, bool \<times> streaming_patch_parser) result" where
  "handle_hunk_headers_and_end_patch p trimmed =
     (case (if mode p = StartedPatch then strip_prefix ENVIRONMENT_ID_MARKER trimmed else None) of
        Some rest \<Rightarrow> handle_environment_id p rest
      | None \<Rightarrow>
          if trimmed = END_PATCH_MARKER then
            (case ensure_update_hunk_is_not_empty p trimmed of
               Inl e \<Rightarrow> Inl e
             | Inr _ \<Rightarrow> Inr (True, p\<lparr>mode := EndedPatch\<rparr>))
          else (case strip_prefix ADD_FILE_MARKER trimmed of
            Some path \<Rightarrow> start_hunk p trimmed (AddFile path []) ModeAddFile
          | None \<Rightarrow> (case strip_prefix DELETE_FILE_MARKER trimmed of
              Some path \<Rightarrow> start_hunk p trimmed (DeleteFile path) ModeDeleteFile
            | None \<Rightarrow> (case strip_prefix UPDATE_FILE_MARKER trimmed of
                Some path \<Rightarrow>
                  start_hunk p trimmed (UpdateFile path None []) (ModeUpdateFile (line_number p))
              | None \<Rightarrow> Inr (False, p)))))"

text \<open>A diff line goes to the last chunk; the first one opens a chunk without context.\<close>

definition add_to_chunks :: "(update_file_chunk \<Rightarrow> update_file_chunk) \<Rightarrow> update_file_chunk list
    \<Rightarrow> update_file_chunk list" where
  "add_to_chunks f cs =
     (let cs' = (if cs = [] then [empty_chunk None] else cs) in set_last cs' (f (last cs')))"

definition push_old :: "rstring \<Rightarrow> update_file_chunk \<Rightarrow> update_file_chunk" where
  "push_old l c = c\<lparr>old_lines := old_lines c @ [l]\<rparr>"

definition push_new :: "rstring \<Rightarrow> update_file_chunk \<Rightarrow> update_file_chunk" where
  "push_new l c = c\<lparr>new_lines := new_lines c @ [l]\<rparr>"

definition is_context_line :: "rstring \<Rightarrow> bool" where
  "is_context_line u \<longleftrightarrow> u = EMPTY_CHANGE_CONTEXT_MARKER \<or> starts_with CHANGE_CONTEXT_MARKER u"

text \<open>The diff lines of an update hunk, once context and end-of-file markers are excluded.\<close>

definition diff_line :: "rstring \<Rightarrow> update_file_chunk list \<Rightarrow> update_file_chunk list option" where
  "diff_line line chunks =
     (if line = [] then Some (add_to_chunks (push_old [] \<circ> push_new []) chunks)
      else case line of
        c # l \<Rightarrow>
          if c = 32 then Some (add_to_chunks (push_old l \<circ> push_new l) chunks)
          else if c = 43 then Some (add_to_chunks (push_new l) chunks)
          else if c = 45 then Some (add_to_chunks (push_old l) chunks)
          else None
      | [] \<Rightarrow> None)"

definition process_update_body ::
  "nat \<Rightarrow> rstring \<Rightarrow> rstring option \<Rightarrow> update_file_chunk list
    \<Rightarrow> (parse_error, rstring option \<times> update_file_chunk list) result" where
  "process_update_body ln line mv chunks =
     (let u = trim_end line in
      if last_chunk_is_eof chunks \<and> u = [] then Inr (mv, chunks)
      else if last_chunk_is_eof chunks \<and> \<not> is_context_line u then
        Inl (InvalidHunkError (expected_context_message line) ln)
      else case (if chunks = [] \<and> mv = None then strip_prefix MOVE_TO_MARKER u else None) of
        Some dest \<Rightarrow> Inr (Some dest, chunks)
      | None \<Rightarrow>
          if is_context_line u \<and> last_chunk_is_empty chunks then
            Inl (InvalidHunkError (unexpected_line_message line) ln)
          else if u = EMPTY_CHANGE_CONTEXT_MARKER then Inr (mv, chunks @ [empty_chunk None])
          else (case strip_prefix CHANGE_CONTEXT_MARKER u of
            Some ctx \<Rightarrow> Inr (mv, chunks @ [empty_chunk (Some ctx)])
          | None \<Rightarrow>
              if u = EOF_MARKER then
                (if last_chunk_is_empty chunks then Inl (InvalidHunkError no_lines_message ln)
                 else if chunks = [] then Inr (mv, chunks)
                 else Inr (mv, set_last chunks ((last chunks)\<lparr>is_end_of_file := True\<rparr>)))
              else (case diff_line line chunks of
                Some chunks' \<Rightarrow> Inr (mv, chunks')
              | None \<Rightarrow>
                  if chunks \<noteq> [] \<and> \<not> chunk_is_empty (last chunks)
                  then Inl (InvalidHunkError (expected_context_message line) ln)
                  else Inl (InvalidHunkError (unexpected_line_message line) ln))))"

definition process_line ::
  "streaming_patch_parser \<Rightarrow> rstring \<Rightarrow> (parse_error, streaming_patch_parser) result" where
  "process_line p line =
     (case mode p of
        NotStarted \<Rightarrow>
          if trim line = BEGIN_PATCH_MARKER then Inr (p\<lparr>mode := StartedPatch\<rparr>)
          else Inl first_line_error
      | StartedPatch \<Rightarrow>
          (case handle_hunk_headers_and_end_patch p (trim line) of
             Inl e \<Rightarrow> Inl e
           | Inr (True, p') \<Rightarrow> Inr p'
           | Inr (False, _) \<Rightarrow>
               Inl (InvalidHunkError (invalid_header_message (trim line)) (line_number p)))
      | ModeAddFile \<Rightarrow>
          (case handle_hunk_headers_and_end_patch p (trim line) of
             Inl e \<Rightarrow> Inl e
           | Inr (True, p') \<Rightarrow> Inr p'
           | Inr (False, _) \<Rightarrow>
               (case (strip_prefix [43] line, last_opt (hunks p)) of
                  (Some l, Some (AddFile path contents)) \<Rightarrow>
                    Inr (p\<lparr>hunks := set_last (hunks p) (AddFile path (contents @ l @ [LF]))\<rparr>)
                | _ \<Rightarrow>
                    Inl (InvalidHunkError (invalid_header_message (trim line)) (line_number p))))
      | ModeDeleteFile \<Rightarrow>
          (case handle_hunk_headers_and_end_patch p (trim line) of
             Inl e \<Rightarrow> Inl e
           | Inr (True, p') \<Rightarrow> Inr p'
           | Inr (False, _) \<Rightarrow>
               Inl (InvalidHunkError (invalid_header_message (trim line)) (line_number p)))
      | ModeUpdateFile n \<Rightarrow>
          (case handle_hunk_headers_and_end_patch p (trim_end line) of
             Inl e \<Rightarrow> Inl e
           | Inr (True, p') \<Rightarrow> Inr p'
           | Inr (False, _) \<Rightarrow>
               (case last_opt (hunks p) of
                  Some (UpdateFile path mv chunks) \<Rightarrow>
                    (case process_update_body (line_number p) line mv chunks of
                       Inl e \<Rightarrow> Inl e
                     | Inr (mv', chunks') \<Rightarrow>
                         Inr (p\<lparr>hunks := set_last (hunks p) (UpdateFile path mv' chunks')\<rparr>))
                | _ \<Rightarrow> Inl (InvalidHunkError (unexpected_line_message line) (line_number p))))
      | EndedPatch \<Rightarrow> if trim line = [] then Inr p else Inl last_line_error)"

text \<open>One char of \<^verbatim>\<open>push_delta\<close>, and the loop over the delta.\<close>

definition push_char :: "streaming_patch_parser \<Rightarrow> rchar \<Rightarrow> streaming_patch_parser \<times> parse_error option" where
  "push_char p ch =
     (if ch = LF then
        (let p' = p\<lparr>line_buffer := [], line_number := line_number p + 1\<rparr>
         in case process_line p' (strip_cr (line_buffer p)) of
              Inl e \<Rightarrow> (p', Some e)
            | Inr p'' \<Rightarrow> (p'', None))
      else (p\<lparr>line_buffer := line_buffer p @ [ch]\<rparr>, None))"

fun push_delta :: "streaming_patch_parser \<Rightarrow> rstring
    \<Rightarrow> streaming_patch_parser \<times> (parse_error, hunk list) result" where
  "push_delta p [] = (p, Inr (hunks p))"
| "push_delta p (ch # delta) =
     (case push_char p ch of
        (p', Some e) \<Rightarrow> (p', Inl e)
      | (p', None) \<Rightarrow> push_delta p' delta)"

definition finish_line :: "streaming_patch_parser \<Rightarrow> streaming_patch_parser \<times> parse_error option" where
  "finish_line p =
     (if line_buffer p \<noteq> [] then
        (let line = line_buffer p; p' = p\<lparr>line_buffer := [], line_number := line_number p + 1\<rparr>
         in if trim line = END_PATCH_MARKER then
              (case ensure_update_hunk_is_not_empty p' (trim line) of
                 Inl e \<Rightarrow> (p', Some e)
               | Inr _ \<Rightarrow> (p'\<lparr>mode := EndedPatch\<rparr>, None))
            else (case process_line p' line of
                 Inl e \<Rightarrow> (p', Some e)
               | Inr p'' \<Rightarrow> (p'', None)))
      else (p, None))"

definition finish :: "streaming_patch_parser
    \<Rightarrow> streaming_patch_parser \<times> (parse_error, hunk list) result" where
  "finish p =
     (case finish_line p of
        (p', Some e) \<Rightarrow> (p', Inl e)
      | (p', None) \<Rightarrow>
          if mode p' \<noteq> EndedPatch then (p', Inl last_line_error) else (p', Inr (hunks p')))"

subsection \<open>parse\_patch\<close>

datatype parse_mode = Strict | Lenient

definition check_start_and_end_lines_strict ::
  "rstring option \<Rightarrow> rstring option \<Rightarrow> (parse_error, unit) result" where
  "check_start_and_end_lines_strict first_line last_line =
     (case (map_option trim first_line, map_option trim last_line) of
        (Some f, Some l) \<Rightarrow>
          if f = BEGIN_PATCH_MARKER \<and> l = END_PATCH_MARKER then Inr ()
          else if f \<noteq> BEGIN_PATCH_MARKER then Inl first_line_error
          else Inl last_line_error
      | (Some f, None) \<Rightarrow>
          if f \<noteq> BEGIN_PATCH_MARKER then Inl first_line_error else Inl last_line_error
      | (None, _) \<Rightarrow> Inl last_line_error)"

definition check_patch_boundaries_strict :: "rstring list \<Rightarrow> (parse_error, rstring list) result" where
  "check_patch_boundaries_strict ls =
     (case check_start_and_end_lines_strict
             (if ls = [] then None else Some (hd ls)) (if ls = [] then None else Some (last ls)) of
        Inl e \<Rightarrow> Inl e
      | Inr _ \<Rightarrow> Inr ls)"

definition is_heredoc_start :: "rstring \<Rightarrow> bool" where
  "is_heredoc_start l \<longleftrightarrow>
     l = str ''<<EOF'' \<or> l = str ''<<'' @ squote (str ''EOF'') \<or> l = str ''<<'' @ [34] @ str ''EOF'' @ [34]"

definition check_patch_boundaries_lenient :: "rstring list \<Rightarrow> (parse_error, rstring list) result" where
  "check_patch_boundaries_lenient ls =
     (case check_patch_boundaries_strict ls of
        Inr l \<Rightarrow> Inr l
      | Inl e \<Rightarrow>
          if length ls \<ge> 2 \<and> is_heredoc_start (hd ls) \<and> ends_with (str ''EOF'') (last ls) \<and> length ls \<ge> 4
          then check_patch_boundaries_strict (butlast (tl ls))
          else Inl e)"

definition parse_patch_text :: "rstring \<Rightarrow> parse_mode \<Rightarrow> (parse_error, apply_patch_args) result" where
  "parse_patch_text patch m =
     (let ls = lines (trim patch) in
      case (case m of Strict \<Rightarrow> check_patch_boundaries_strict ls
                    | Lenient \<Rightarrow> check_patch_boundaries_lenient ls) of
        Inl e \<Rightarrow> Inl e
      | Inr patch_lines \<Rightarrow>
          (let text = join [LF] patch_lines in
           case push_delta default_parser text of
             (_, Inl e) \<Rightarrow> Inl e
           | (p, Inr _) \<Rightarrow>
               (case finish p of
                  (_, Inl e) \<Rightarrow> Inl e
                | (p', Inr hs) \<Rightarrow>
                    Inr \<lparr>args_patch = text, args_hunks = hs, args_workdir = None,
                         args_environment_id = environment_id p'\<rparr>)))"

definition parse_patch :: "rstring \<Rightarrow> (parse_error, apply_patch_args) result" where
  "parse_patch patch = parse_patch_text patch Lenient"

end
