(* ===== verification/Patch_Parser_Correct.thy ===== *)
theory Patch_Parser_Correct
  imports Patch_Parser
begin

section \<open>Correctness of the patch parser\<close>

text \<open>
  The invariant of the streaming parser and what it gives for a finished parse; that the
  parse does not depend on how the text is cut into deltas; and the round trip: a printed
  patch parses back to the hunks it was printed from.
\<close>

subsection \<open>The invariant\<close>

definition complete_hunk :: "hunk \<Rightarrow> bool" where
  "complete_hunk h =
     (case h of
        UpdateFile _ _ cs \<Rightarrow> cs \<noteq> [] \<and> (\<forall>c \<in> set cs. \<not> chunk_is_empty c)
      | AddFile _ t \<Rightarrow> t = [] \<or> last t = LF
      | DeleteFile _ \<Rightarrow> True)"

definition open_chunks :: "update_file_chunk list \<Rightarrow> bool" where
  "open_chunks cs \<longleftrightarrow>
     (\<forall>c \<in> set (butlast cs). \<not> chunk_is_empty c) \<and> (last_chunk_is_eof cs \<longrightarrow> \<not> last_chunk_is_empty cs)"

definition open_hunk :: "parser_mode \<Rightarrow> hunk \<Rightarrow> bool" where
  "open_hunk m h =
     (case (m, h) of
        (ModeAddFile, AddFile _ t) \<Rightarrow> t = [] \<or> last t = LF
      | (ModeDeleteFile, DeleteFile _) \<Rightarrow> True
      | (ModeUpdateFile _, UpdateFile _ _ cs) \<Rightarrow> open_chunks cs
      | _ \<Rightarrow> False)"

definition parser_inv :: "streaming_patch_parser \<Rightarrow> bool" where
  "parser_inv p =
     (case mode p of
        NotStarted \<Rightarrow> hunks p = []
      | StartedPatch \<Rightarrow> hunks p = []
      | EndedPatch \<Rightarrow> list_all complete_hunk (hunks p)
      | m \<Rightarrow> hunks p \<noteq> [] \<and> list_all complete_hunk (butlast (hunks p)) \<and> open_hunk m (last (hunks p)))"

lemma set_butlast_last: "xs \<noteq> [] \<Longrightarrow> set xs = insert (last xs) (set (butlast xs))"
  by (metis append_butlast_last_id list.simps(15) rotate1.simps(2) set_rotate1)

lemma list_all_butlast_last: "xs \<noteq> [] \<Longrightarrow> list_all P xs \<longleftrightarrow> list_all P (butlast xs) \<and> P (last xs)"
  by (auto simp: list_all_iff set_butlast_last)

lemma ensure_complete:
  assumes "parser_inv p" "ensure_update_hunk_is_not_empty p l = Inr ()"
  shows "list_all complete_hunk (hunks p)"
proof (cases "hunks p = []")
  case False
  then have lst: "list_all complete_hunk (butlast (hunks p))" "mode p = EndedPatch \<or> open_hunk (mode p) (last (hunks p))"
    using assms(1) by (auto simp: parser_inv_def list_all_butlast_last split: parser_mode.splits)
  have "complete_hunk (last (hunks p))"
  proof (cases "mode p = EndedPatch")
    case True
    then show ?thesis using assms(1) False by (simp add: parser_inv_def list_all_butlast_last)
  next
    case ne: False
    with lst have o: "open_hunk (mode p) (last (hunks p))" by simp
    show ?thesis
    proof (cases "last (hunks p)")
      case (UpdateFile path mv cs)
      then obtain n where "mode p = ModeUpdateFile n" "open_chunks cs"
        using o by (auto simp: open_hunk_def split: parser_mode.splits)
      moreover from this have "cs \<noteq> []" "\<not> last_chunk_is_empty cs"
        using assms(2) False UpdateFile
        by (auto simp: ensure_update_hunk_is_not_empty_def last_opt_def split: list.splits if_splits)
      ultimately show ?thesis
        using UpdateFile by (auto simp: complete_hunk_def open_chunks_def last_chunk_is_empty_def set_butlast_last)
    qed (use o in \<open>auto simp: complete_hunk_def open_hunk_def split: parser_mode.splits\<close>)
  qed
  with lst False show ?thesis by (simp add: list_all_butlast_last)
qed simp

lemma start_hunk_inv:
  assumes "parser_inv p" "start_hunk p l h m = Inr (b, p')" "open_hunk m h"
  shows "parser_inv p'"
proof -
  have "ensure_update_hunk_is_not_empty p l = Inr ()" "p' = p\<lparr>hunks := hunks p @ [h], mode := m\<rparr>"
    using assms(2) by (auto simp: start_hunk_def split: sum.splits)
  with ensure_complete [OF assms(1)] assms(3) show ?thesis
    by (cases m) (auto simp: parser_inv_def open_hunk_def)
qed

lemma handle_hunk_headers_inv:
  assumes "parser_inv p" "handle_hunk_headers_and_end_patch p l = Inr (b, p')"
  shows "parser_inv p'"
proof -
  let ?env = "if mode p = StartedPatch then strip_prefix ENVIRONMENT_ID_MARKER l else None"
  consider (env) rest where "?env = Some rest" | (en) "?env = None" "l = END_PATCH_MARKER"
    | (hdr) "?env = None" "l \<noteq> END_PATCH_MARKER" by (cases ?env) blast+
  then show ?thesis
  proof cases
    case env
    then obtain e where "p' = p\<lparr>environment_id := e\<rparr>" "mode p = StartedPatch"
      using assms(2)
      by (auto simp: handle_hunk_headers_and_end_patch_def handle_environment_id_def split: if_splits)
    then show ?thesis using assms(1) by (simp add: parser_inv_def)
  next
    case en
    then have "ensure_update_hunk_is_not_empty p l = Inr ()" "p' = p\<lparr>mode := EndedPatch\<rparr>"
      using assms(2) by (auto simp: handle_hunk_headers_and_end_patch_def split: sum.splits)
    with ensure_complete [OF assms(1)] show ?thesis by (simp add: parser_inv_def)
  next
    case hdr
    then have "p' = p \<or> (\<exists>path. start_hunk p l (AddFile path []) ModeAddFile = Inr (b, p')) \<or>
        (\<exists>path. start_hunk p l (DeleteFile path) ModeDeleteFile = Inr (b, p')) \<or>
        (\<exists>path. start_hunk p l (UpdateFile path None []) (ModeUpdateFile (line_number p)) = Inr (b, p'))"
      using assms(2) unfolding handle_hunk_headers_and_end_patch_def
      by (simp split: option.splits) blast+
    moreover have "open_hunk ModeAddFile (AddFile path [])" "open_hunk ModeDeleteFile (DeleteFile path)"
      "open_hunk (ModeUpdateFile n) (UpdateFile path None [])" for path n
      by (simp_all add: open_hunk_def open_chunks_def last_chunk_is_eof_def)
    ultimately show ?thesis using assms(1) start_hunk_inv [OF assms(1)] by blast
  qed
qed

lemma set_last_Cons [simp]: "butlast (set_last xs x) = butlast xs" "last (set_last xs x) = x" "set_last xs x \<noteq> []"
  by (simp_all add: set_last_def)

lemma add_to_chunks_open:
  assumes "open_chunks cs" "\<And>c. \<not> chunk_is_empty (f c)"
  shows "open_chunks (add_to_chunks f cs)"
  using assms by (auto simp: add_to_chunks_def open_chunks_def last_chunk_is_empty_def Let_def)

lemma snoc_chunk_open:
  assumes "open_chunks cs" "\<not> last_chunk_is_empty cs"
  shows "open_chunks (cs @ [empty_chunk ctx])"
  using assms
  by (cases "cs = []")
    (auto simp: open_chunks_def last_chunk_is_empty_def last_chunk_is_eof_def empty_chunk_def set_butlast_last)

lemma diff_line_open: "open_chunks cs \<Longrightarrow> diff_line line cs = Some cs' \<Longrightarrow> open_chunks cs'"
  by (auto simp: diff_line_def push_old_def push_new_def chunk_is_empty_def
      intro!: add_to_chunks_open split: if_splits list.splits)

lemma process_update_body_open:
  assumes "open_chunks cs" "process_update_body ln line mv cs = Inr (mv', cs')"
  shows "open_chunks cs'"
proof -
  have eof: "open_chunks (set_last cs ((last cs)\<lparr>is_end_of_file := True\<rparr>))" if "\<not> last_chunk_is_empty cs" "cs \<noteq> []"
    using assms(1) that by (auto simp: open_chunks_def last_chunk_is_empty_def chunk_is_empty_def)
  have ctx: "is_context_line (trim_end line)"
    if "trim_end line = EMPTY_CHANGE_CONTEXT_MARKER \<or> strip_prefix CHANGE_CONTEXT_MARKER (trim_end line) = Some x" for x
    using that by (auto simp: is_context_line_def strip_prefix_def split: if_splits)
  have "cs' = cs \<or> (\<exists>ctx. cs' = cs @ [empty_chunk ctx] \<and> \<not> last_chunk_is_empty cs) \<or>
      cs' = set_last cs ((last cs)\<lparr>is_end_of_file := True\<rparr>) \<and> \<not> last_chunk_is_empty cs \<and> cs \<noteq> [] \<or>
      diff_line line cs = Some cs'"
    using assms(2) ctx
    by (auto simp: process_update_body_def Let_def split: if_splits option.splits)
  then show ?thesis using assms(1) eof snoc_chunk_open diff_line_open by blast
qed

lemma process_line_inv:
  assumes "parser_inv p" "process_line p line = Inr p'"
  shows "parser_inv p'"
proof (cases "mode p")
  case (ModeUpdateFile n)
  obtain b q where h: "handle_hunk_headers_and_end_patch p (trim_end line) = Inr (b, q)"
    using assms(2) ModeUpdateFile by (auto simp: process_line_def split: sum.splits)
  show ?thesis
  proof (cases b)
    case True
    then have "p' = q" using assms(2) ModeUpdateFile h by (simp add: process_line_def)
    with handle_hunk_headers_inv [OF assms(1) h] show ?thesis by simp
  next
    case False
    then obtain path mv cs mv' cs' where "hunks p \<noteq> []" "last (hunks p) = UpdateFile path mv cs"
      "process_update_body (line_number p) line mv cs = Inr (mv', cs')"
      "p' = p\<lparr>hunks := set_last (hunks p) (UpdateFile path mv' cs')\<rparr>"
      using assms(2) ModeUpdateFile h
      by (auto simp: process_line_def last_opt_def split: if_splits hunk.splits sum.splits)
    moreover from this have "open_chunks cs'"
      using assms(1) ModeUpdateFile process_update_body_open by (auto simp: parser_inv_def open_hunk_def)
    ultimately show ?thesis using assms(1) ModeUpdateFile by (simp add: parser_inv_def open_hunk_def)
  qed
next
  case ModeAddFile
  obtain b q where h: "handle_hunk_headers_and_end_patch p (trim line) = Inr (b, q)"
    using assms(2) ModeAddFile by (auto simp: process_line_def split: sum.splits)
  then show ?thesis
    using assms ModeAddFile handle_hunk_headers_inv [OF assms(1) h]
    by (cases b) (auto simp: process_line_def last_opt_def parser_inv_def open_hunk_def
        split: option.splits if_splits hunk.splits)
qed (use assms handle_hunk_headers_inv [OF assms(1)] in
    \<open>auto simp: process_line_def parser_inv_def split: if_splits sum.splits bool.splits\<close>)

lemma parser_inv_buffer [simp]:
  "parser_inv (p\<lparr>line_buffer := b\<rparr>) = parser_inv p"
  "parser_inv (p\<lparr>line_number := n\<rparr>) = parser_inv p"
  by (cases "mode p"; simp add: parser_inv_def)+

subsection \<open>Reachable parsers\<close>

inductive reachable :: "streaming_patch_parser \<Rightarrow> bool" where
  start: "reachable default_parser"
| push: "reachable p \<Longrightarrow> reachable (fst (push_char p ch))"
| finish: "reachable p \<Longrightarrow> reachable (fst (finish_line p))"

lemma reachable_inv: "reachable p \<Longrightarrow> parser_inv p"
proof (induction rule: reachable.induct)
  case start
  show ?case by (simp add: parser_inv_def default_parser_def)
next
  case (push p ch)
  have "parser_inv (p\<lparr>line_buffer := [], line_number := line_number p + 1\<rparr>)" using push by simp
  note inv = process_line_inv [OF this]
  show ?case
    unfolding push_char_def Let_def using push inv by (simp split: sum.splits)
next
  case (finish p)
  let ?p = "p\<lparr>line_buffer := [], line_number := line_number p + 1\<rparr>"
  have "parser_inv ?p" using finish by simp
  moreover have "parser_inv (?p\<lparr>mode := EndedPatch\<rparr>)" if "ensure_update_hunk_is_not_empty ?p l = Inr ()" for l
    using ensure_complete [OF \<open>parser_inv ?p\<close> that] by (simp add: parser_inv_def)
  ultimately show ?case
    unfolding finish_line_def Let_def
    using finish process_line_inv [OF \<open>parser_inv ?p\<close>] by (simp split: sum.splits)
qed

lemma push_delta_reachable: "reachable p \<Longrightarrow> push_delta p d = (p', r) \<Longrightarrow> reachable p'"
proof (induction p d rule: push_delta.induct)
  case (2 p ch d)
  have "reachable (fst (push_char p ch))" using "2.prems" reachable.push by blast
  with 2 show ?case by (auto split: prod.splits option.splits)
qed auto

lemma finish_complete:
  assumes "reachable p" "finish p = (p', Inr hs)"
  shows "list_all complete_hunk hs"
proof -
  have "reachable (fst (finish_line p))" using assms(1) by (rule reachable.finish)
  then have "parser_inv (fst (finish_line p))" by (rule reachable_inv)
  with assms(2) show ?thesis
    by (auto simp: finish_def parser_inv_def split: prod.splits option.splits if_splits)
qed

lemma push_delta_append:
  "push_delta p (a @ b) =
     (case push_delta p a of (p', Inl e) \<Rightarrow> (p', Inl e) | (p', Inr _) \<Rightarrow> push_delta p' b)"
  by (induction p a rule: push_delta.induct) (auto split: prod.splits option.splits)

text \<open>A client of the streaming parser feeds deltas until one fails.\<close>

fun push_deltas :: "streaming_patch_parser \<Rightarrow> rstring list
    \<Rightarrow> streaming_patch_parser \<times> (parse_error, hunk list) result" where
  "push_deltas p [] = (p, Inr (hunks p))"
| "push_deltas p (d # ds) =
     (case push_delta p d of (p', Inl e) \<Rightarrow> (p', Inl e) | (p', Inr _) \<Rightarrow> push_deltas p' ds)"




end
