(* ===== verification/Patch_Roundtrip.thy ===== *)
theory Patch_Roundtrip
  imports Patch_Parser_Correct
begin

section \<open>Printed patches parse back\<close>

text \<open>
  A printer for hunks, in the grammar given at the head of apply-patch/src/parser.rs, and
  the proof that the parser inverts it. The conditions on paths and lines are the ones the
  format forces: a path does not end with whitespace (header lines are trimmed), no line
  holds a newline or ends with a carriage return, every chunk has a line.
\<close>

subsection \<open>Printer\<close>

definition wf_path :: "rstring \<Rightarrow> bool" where
  "wf_path p \<longleftrightarrow> p \<noteq> [] \<and> LF \<notin> set p \<and> \<not> is_whitespace (last p)"

definition wf_text_line :: "rstring \<Rightarrow> bool" where
  "wf_text_line l \<longleftrightarrow> LF \<notin> set l \<and> (l \<noteq> [] \<longrightarrow> last l \<noteq> CR)"

definition wf_chunk :: "update_file_chunk \<Rightarrow> bool" where
  "wf_chunk c \<longleftrightarrow>
     \<not> chunk_is_empty c \<and> list_all wf_text_line (old_lines c) \<and> list_all wf_text_line (new_lines c) \<and>
     (case change_context c of None \<Rightarrow> True | Some x \<Rightarrow> wf_path x)"

definition content_lines :: "rstring \<Rightarrow> rstring list" where
  "content_lines t = butlast (split_on LF t)"

fun wf_hunk :: "hunk \<Rightarrow> bool" where
  "wf_hunk (AddFile p t) \<longleftrightarrow>
     wf_path p \<and> (t = [] \<or> last t = LF) \<and> list_all wf_text_line (content_lines t)"
| "wf_hunk (DeleteFile p) \<longleftrightarrow> wf_path p"
| "wf_hunk (UpdateFile p mv cs) \<longleftrightarrow>
     wf_path p \<and> (case mv of None \<Rightarrow> True | Some m \<Rightarrow> wf_path m) \<and> cs \<noteq> [] \<and> list_all wf_chunk cs"

definition render_context :: "rstring option \<Rightarrow> rstring" where
  "render_context ctx =
     (case ctx of None \<Rightarrow> EMPTY_CHANGE_CONTEXT_MARKER | Some x \<Rightarrow> CHANGE_CONTEXT_MARKER @ x)"

definition render_chunk :: "update_file_chunk \<Rightarrow> rstring list" where
  "render_chunk c =
     [render_context (change_context c)] @ map ((#) 45) (old_lines c) @ map ((#) 43) (new_lines c)
     @ (if is_end_of_file c then [EOF_MARKER] else [])"

fun render_hunk :: "hunk \<Rightarrow> rstring list" where
  "render_hunk (AddFile p t) = (ADD_FILE_MARKER @ p) # map ((#) 43) (content_lines t)"
| "render_hunk (DeleteFile p) = [DELETE_FILE_MARKER @ p]"
| "render_hunk (UpdateFile p mv cs) =
     (UPDATE_FILE_MARKER @ p) # (case mv of None \<Rightarrow> [] | Some m \<Rightarrow> [MOVE_TO_MARKER @ m])
     @ concat (map render_chunk cs)"

definition render_environment :: "rstring option \<Rightarrow> rstring list" where
  "render_environment env =
     (case env of None \<Rightarrow> [] | Some e \<Rightarrow> [ENVIRONMENT_ID_MARKER @ str '' '' @ e])"

definition render_lines :: "rstring option \<Rightarrow> hunk list \<Rightarrow> rstring list" where
  "render_lines env hs =
     BEGIN_PATCH_MARKER # render_environment env @ concat (map render_hunk hs)"

definition render_patch :: "rstring option \<Rightarrow> hunk list \<Rightarrow> rstring" where
  "render_patch env hs = join [LF] (render_lines env hs @ [END_PATCH_MARKER])"

subsection \<open>Running the parser line by line\<close>

fun run :: "streaming_patch_parser \<Rightarrow> rstring list \<Rightarrow> (parse_error, streaming_patch_parser) result" where
  "run p [] = Inr p"
| "run p (l # ls) =
     (case process_line (p\<lparr>line_number := line_number p + 1\<rparr>) l of Inl e \<Rightarrow> Inl e | Inr p' \<Rightarrow> run p' ls)"

lemma run_append: "run p (a @ b) = (case run p a of Inl e \<Rightarrow> Inl e | Inr p' \<Rightarrow> run p' b)"
  by (induction p a rule: run.induct) (auto split: sum.splits)

lemma handle_keeps_buffer:
  "handle_hunk_headers_and_end_patch p l = Inr (b, p') \<Longrightarrow> line_buffer p' = line_buffer p"
  by (auto simp: handle_hunk_headers_and_end_patch_def handle_environment_id_def start_hunk_def
      split: if_splits option.splits sum.splits)

lemma process_line_keeps_buffer: "process_line p l = Inr p' \<Longrightarrow> line_buffer p' = line_buffer p"
  by (auto simp: process_line_def dest: handle_keeps_buffer
      split: parser_mode.splits if_splits sum.splits bool.splits option.splits hunk.splits)

lemma push_delta_no_LF:
  "LF \<notin> set l \<Longrightarrow> push_delta p l = (p\<lparr>line_buffer := line_buffer p @ l\<rparr>, Inr (hunks p))"
  by (induction l arbitrary: p) (auto simp: push_char_def)

lemma strip_cr_id: "wf_text_line l \<Longrightarrow> strip_cr l = l"
  by (auto simp: wf_text_line_def strip_cr_def)

lemma push_delta_run:
  assumes "line_buffer p = []" "list_all wf_text_line ls" "run p ls = Inr p'"
  shows "push_delta p (concat (map (\<lambda>l. l @ [LF]) ls)) = (p', Inr (hunks p')) \<and> line_buffer p' = []"
  using assms
proof (induction ls arbitrary: p)
  case (Cons l ls)
  obtain q where q: "process_line (p\<lparr>line_number := line_number p + 1\<rparr>) l = Inr q" "run q ls = Inr p'"
    using Cons.prems(3) by (auto split: sum.splits)
  have buf: "line_buffer q = []" using process_line_keeps_buffer [OF q(1)] Cons.prems(1) by simp
  have "push_char (p\<lparr>line_buffer := l\<rparr>) LF = (q, None)"
    using q(1) Cons.prems(1,2) strip_cr_id [of l] by (cases p) (simp add: push_char_def Let_def)
  then show ?case
    using Cons.IH [OF buf _ q(2)] Cons.prems push_delta_no_LF [of l p]
    by (simp add: push_delta_append wf_text_line_def)
qed simp

subsection \<open>Marker arithmetic\<close>

lemmas marker_defs =
  BEGIN_PATCH_MARKER_def END_PATCH_MARKER_def ADD_FILE_MARKER_def DELETE_FILE_MARKER_def
  UPDATE_FILE_MARKER_def MOVE_TO_MARKER_def EOF_MARKER_def CHANGE_CONTEXT_MARKER_def
  EMPTY_CHANGE_CONTEXT_MARKER_def ENVIRONMENT_ID_MARKER_def

lemma strip_prefix_append [simp]: "strip_prefix m (m @ p) = Some p"
  by (simp add: strip_prefix_def starts_with_def)

lemma starts_with_append [simp]: "starts_with m (m @ p)"
  by (simp add: starts_with_def)

lemma strip_prefix_marker [simp]:
  "strip_prefix ENVIRONMENT_ID_MARKER (ADD_FILE_MARKER @ p) = None"
  "strip_prefix ENVIRONMENT_ID_MARKER (DELETE_FILE_MARKER @ p) = None"
  "strip_prefix ENVIRONMENT_ID_MARKER (UPDATE_FILE_MARKER @ p) = None"
  "strip_prefix ADD_FILE_MARKER (DELETE_FILE_MARKER @ p) = None"
  "strip_prefix ADD_FILE_MARKER (UPDATE_FILE_MARKER @ p) = None"
  "strip_prefix DELETE_FILE_MARKER (UPDATE_FILE_MARKER @ p) = None"
  "strip_prefix ADD_FILE_MARKER (MOVE_TO_MARKER @ p) = None"
  "strip_prefix DELETE_FILE_MARKER (MOVE_TO_MARKER @ p) = None"
  "strip_prefix UPDATE_FILE_MARKER (MOVE_TO_MARKER @ p) = None"
  by (simp_all add: strip_prefix_def starts_with_def marker_defs str_def)

lemma marker_not_end [simp]:
  "ADD_FILE_MARKER @ p \<noteq> END_PATCH_MARKER" "DELETE_FILE_MARKER @ p \<noteq> END_PATCH_MARKER"
  "UPDATE_FILE_MARKER @ p \<noteq> END_PATCH_MARKER" "MOVE_TO_MARKER @ p \<noteq> END_PATCH_MARKER"
  by (simp_all add: marker_defs str_def)

lemma is_whitespace_simps [simp]: "\<not> is_whitespace 42" "\<not> is_whitespace 43" "\<not> is_whitespace 45" "\<not> is_whitespace 64"
  by (simp_all add: is_whitespace_def)

lemma trim_marker:
  assumes "wf_path p" "m = 42 # m'"
  shows "trim (m @ p) = m @ p" "trim_end (m @ p) = m @ p"
proof -
  have e: "m @ p = butlast (m @ p) @ [last (m @ p)]" "\<not> is_whitespace (last (m @ p))"
    using assms append_butlast_last_id [of "m @ p"] by (simp_all add: wf_path_def)
  then show "trim_end (m @ p) = m @ p" using trim_end_append_nonws by metis
  show "trim (m @ p) = m @ p" using assms e by (intro trim_nonws_ends) auto
qed

lemma marker_Cons:
  "\<exists>m. BEGIN_PATCH_MARKER = 42 # m" "\<exists>m. END_PATCH_MARKER = 42 # m" "\<exists>m. ADD_FILE_MARKER = 42 # m"
  "\<exists>m. DELETE_FILE_MARKER = 42 # m" "\<exists>m. UPDATE_FILE_MARKER = 42 # m" "\<exists>m. MOVE_TO_MARKER = 42 # m"
  "\<exists>m. EOF_MARKER = 42 # m" "\<exists>m. ENVIRONMENT_ID_MARKER = 42 # m"
  by (simp_all add: marker_defs str_def)

lemma handle_not_header:
  assumes "l = c # x" "c \<noteq> 42"
  shows "handle_hunk_headers_and_end_patch p l = Inr (False, p)"
proof -
  have n: "strip_prefix k l = None" "l \<noteq> k" if "\<exists>m. k = 42 # m" for k
    using assms that by (auto simp: strip_prefix_def starts_with_def)
  show ?thesis
    by (simp add: handle_hunk_headers_and_end_patch_def n marker_Cons)
qed

lemma trim_end_Cons_nonws: "\<not> is_whitespace c \<Longrightarrow> \<exists>y. trim_end (c # x) = c # y"
  by (simp add: trim_end_Cons)

lemma trim_Cons_nonws: "\<not> is_whitespace c \<Longrightarrow> \<exists>y. trim (c # x) = c # y"
  by (simp add: trim_def trim_start_def trim_end_Cons_nonws)

subsection \<open>Hunk headers\<close>

definition ready :: "streaming_patch_parser \<Rightarrow> bool" where
  "ready p \<longleftrightarrow> mode p \<noteq> NotStarted \<and> mode p \<noteq> EndedPatch \<and>
     (case last_opt (hunks p) of
        Some (UpdateFile _ _ cs) \<Rightarrow> cs \<noteq> [] \<and> \<not> last_chunk_is_empty cs
      | _ \<Rightarrow> True)"

lemma ready_ensure: "ready p \<Longrightarrow> ensure_update_hunk_is_not_empty p l = Inr ()"
  by (auto simp: ready_def ensure_update_hunk_is_not_empty_def split: option.splits hunk.splits list.splits)

lemma process_line_header:
  assumes "ready p" "trim l = l" "trim_end l = l"
    and "handle_hunk_headers_and_end_patch p l = Inr (True, p')"
  shows "process_line p l = Inr p'"
  using assms by (cases "mode p") (simp_all add: process_line_def ready_def)

lemma process_line_add_header:
  assumes "ready p" "wf_path path"
  shows "process_line p (ADD_FILE_MARKER @ path) =
    Inr (p\<lparr>hunks := hunks p @ [AddFile path []], mode := ModeAddFile\<rparr>)"
proof (rule process_line_header [OF assms(1)])
  obtain m where "ADD_FILE_MARKER = 42 # m" using marker_Cons by blast
  from trim_marker [OF assms(2) this]
  show "trim (ADD_FILE_MARKER @ path) = ADD_FILE_MARKER @ path"
    "trim_end (ADD_FILE_MARKER @ path) = ADD_FILE_MARKER @ path" by simp_all
qed (simp add: handle_hunk_headers_and_end_patch_def start_hunk_def ready_ensure [OF assms(1)])

lemma process_line_delete_header:
  assumes "ready p" "wf_path path"
  shows "process_line p (DELETE_FILE_MARKER @ path) =
    Inr (p\<lparr>hunks := hunks p @ [DeleteFile path], mode := ModeDeleteFile\<rparr>)"
proof (rule process_line_header [OF assms(1)])
  obtain m where "DELETE_FILE_MARKER = 42 # m" using marker_Cons by blast
  from trim_marker [OF assms(2) this]
  show "trim (DELETE_FILE_MARKER @ path) = DELETE_FILE_MARKER @ path"
    "trim_end (DELETE_FILE_MARKER @ path) = DELETE_FILE_MARKER @ path" by simp_all
qed (simp add: handle_hunk_headers_and_end_patch_def start_hunk_def ready_ensure [OF assms(1)])

lemma process_line_update_header:
  assumes "ready p" "wf_path path"
  shows "process_line p (UPDATE_FILE_MARKER @ path) =
    Inr (p\<lparr>hunks := hunks p @ [UpdateFile path None []], mode := ModeUpdateFile (line_number p)\<rparr>)"
proof (rule process_line_header [OF assms(1)])
  obtain m where "UPDATE_FILE_MARKER = 42 # m" using marker_Cons by blast
  from trim_marker [OF assms(2) this]
  show "trim (UPDATE_FILE_MARKER @ path) = UPDATE_FILE_MARKER @ path"
    "trim_end (UPDATE_FILE_MARKER @ path) = UPDATE_FILE_MARKER @ path" by simp_all
qed (simp add: handle_hunk_headers_and_end_patch_def start_hunk_def ready_ensure [OF assms(1)])

subsection \<open>Hunk bodies\<close>

lemma last_opt_snoc [simp]: "last_opt (xs @ [x]) = Some x"
  by (simp add: last_opt_def)

lemma set_last_snoc [simp]: "set_last (xs @ [x]) y = xs @ [y]"
  by (simp add: set_last_def)

lemma process_line_add_body:
  assumes "mode p = ModeAddFile" "hunks p = hs @ [AddFile path t]"
  shows "process_line p (43 # l) = Inr (p\<lparr>hunks := hs @ [AddFile path (t @ l @ [LF])]\<rparr>)"
proof -
  obtain y where "trim (43 # l) = 43 # y" using trim_Cons_nonws by fastforce
  then have "handle_hunk_headers_and_end_patch p (trim (43 # l)) = Inr (False, p)"
    using handle_not_header by simp
  then show ?thesis
    using assms by (simp add: process_line_def strip_prefix_def starts_with_def)
qed

lemma run_add_body:
  assumes "mode p = ModeAddFile" "hunks p = hs @ [AddFile path t]"
  shows "run p (map ((#) 43) ls) =
    Inr (p\<lparr>hunks := hs @ [AddFile path (t @ concat (map (\<lambda>l. l @ [LF]) ls))],
           line_number := line_number p + length ls\<rparr>)"
  using assms
proof (induction ls arbitrary: p t)
  case Nil
  then show ?case by (cases p) simp
next
  case (Cons l ls)
  have "run p (map ((#) 43) (l # ls)) =
      run (p\<lparr>line_number := line_number p + 1, hunks := hs @ [AddFile path (t @ l @ [LF])]\<rparr>) (map ((#) 43) ls)"
    using process_line_add_body [of "p\<lparr>line_number := line_number p + 1\<rparr>" hs path t l] Cons.prems by simp
  then show ?case
    using Cons.IH [of "p\<lparr>line_number := line_number p + 1, hunks := hs @ [AddFile path (t @ l @ [LF])]\<rparr>"
        "t @ l @ [LF]"] Cons.prems by simp
qed

lemma process_line_update_body:
  assumes "mode p = ModeUpdateFile n" "hunks p = hs @ [UpdateFile path mv cs]"
    and "handle_hunk_headers_and_end_patch p (trim_end line) = Inr (False, p)"
    and "process_update_body (line_number p) line mv cs = Inr (mv', cs')"
  shows "process_line p line = Inr (p\<lparr>hunks := hs @ [UpdateFile path mv' cs']\<rparr>)"
  using assms by (simp add: process_line_def)

lemma process_line_diff:
  assumes "mode p = ModeUpdateFile n" "hunks p = hs @ [UpdateFile path mv cs]"
    and "\<not> is_whitespace c" "c \<noteq> 42"
    and "process_update_body (line_number p) (c # l) mv cs = Inr (mv', cs')"
  shows "process_line p (c # l) = Inr (p\<lparr>hunks := hs @ [UpdateFile path mv' cs']\<rparr>)"
proof -
  obtain y where "trim_end (c # l) = c # y" using trim_end_Cons_nonws assms(3) by fastforce
  then have "handle_hunk_headers_and_end_patch p (trim_end (c # l)) = Inr (False, p)"
    using handle_not_header assms(4) by simp
  then show ?thesis using process_line_update_body assms by blast
qed

lemma process_line_move:
  assumes "mode p = ModeUpdateFile n" "hunks p = hs @ [UpdateFile path None []]" "wf_path m"
  shows "process_line p (MOVE_TO_MARKER @ m) = Inr (p\<lparr>hunks := hs @ [UpdateFile path (Some m) []]\<rparr>)"
proof -
  obtain k where "MOVE_TO_MARKER = 42 # k" using marker_Cons by blast
  then have t: "trim_end (MOVE_TO_MARKER @ m) = MOVE_TO_MARKER @ m" using trim_marker assms(3) by blast
  show ?thesis
    using assms t
    by (intro process_line_update_body [OF assms(1,2)])
      (simp_all add: handle_hunk_headers_and_end_patch_def process_update_body_def Let_def last_chunk_is_eof_def)
qed

lemma render_context_Cons: "\<exists>x. render_context ctx = 64 # x"
  by (simp add: render_context_def marker_defs str_def split: option.splits)

lemma trim_end_context:
  "(case ctx of None \<Rightarrow> True | Some x \<Rightarrow> wf_path x) \<Longrightarrow> trim_end (render_context ctx) = render_context ctx"
proof (cases ctx)
  case None
  then show ?thesis by (simp add: render_context_def marker_defs str_def trim_end_Cons)
next
  case (Some x)
  assume "case ctx of None \<Rightarrow> True | Some x \<Rightarrow> wf_path x"
  then have "CHANGE_CONTEXT_MARKER @ x = (CHANGE_CONTEXT_MARKER @ butlast x) @ [last x]" "\<not> is_whitespace (last x)"
    using Some append_butlast_last_id [of x] by (simp_all add: wf_path_def)
  then show ?thesis using trim_end_append_nonws Some by (metis render_context_def option.simps(5))
qed

lemma body_context_line:
  assumes "trim_end u = u" "is_context_line u" "u \<noteq> []" "strip_prefix MOVE_TO_MARKER u = None"
    and "\<not> last_chunk_is_empty cs"
  shows "process_update_body ln u mv cs =
    Inr (mv, cs @ [empty_chunk (if u = EMPTY_CHANGE_CONTEXT_MARKER then None
                                else strip_prefix CHANGE_CONTEXT_MARKER u)])"
proof (cases "u = EMPTY_CHANGE_CONTEXT_MARKER")
  case True
  then show ?thesis using assms by (auto simp: process_update_body_def)
next
  case False
  then obtain x where "strip_prefix CHANGE_CONTEXT_MARKER u = Some x"
    using assms(2) by (auto simp: is_context_line_def strip_prefix_def)
  then show ?thesis using assms False by (auto simp: process_update_body_def)
qed

lemma body_context:
  assumes "case ctx of None \<Rightarrow> True | Some x \<Rightarrow> wf_path x" "\<not> last_chunk_is_empty cs"
  shows "process_update_body ln (render_context ctx) mv cs = Inr (mv, cs @ [empty_chunk ctx])"
proof -
  have c: "is_context_line (render_context ctx)"
    by (cases ctx) (simp_all add: render_context_def is_context_line_def)
  have m: "strip_prefix MOVE_TO_MARKER (render_context ctx) = None"
    using render_context_Cons [of ctx] by (auto simp: strip_prefix_def starts_with_def marker_defs str_def)
  have n: "render_context ctx \<noteq> []" using render_context_Cons [of ctx] by auto
  have e: "CHANGE_CONTEXT_MARKER @ x \<noteq> EMPTY_CHANGE_CONTEXT_MARKER" for x
    by (simp add: marker_defs str_def)
  show ?thesis
    using body_context_line [OF trim_end_context [OF assms(1)] c n m assms(2)] e
    by (cases ctx) (simp_all add: render_context_def)
qed

lemma body_diff:
  assumes "c = 43 \<or> c = 45" "\<not> last_chunk_is_eof cs" "cs = cs0 @ [k]"
  shows "process_update_body ln (c # l) mv cs =
    Inr (mv, cs0 @ [if c = 43 then push_new l k else push_old l k])"
proof -
  obtain y where y: "trim_end (c # l) = c # y" using trim_end_Cons_nonws assms(1) by fastforce
  have "\<not> is_context_line (c # y)" "c # y \<noteq> EMPTY_CHANGE_CONTEXT_MARKER"
    "strip_prefix CHANGE_CONTEXT_MARKER (c # y) = None" "c # y \<noteq> EOF_MARKER"
    using assms(1) by (auto simp: is_context_line_def strip_prefix_def starts_with_def marker_defs str_def)
  then show ?thesis
    using assms by (auto simp: process_update_body_def y Let_def diff_line_def add_to_chunks_def)
qed

lemma body_eof:
  assumes "cs = cs0 @ [k]" "\<not> is_end_of_file k" "\<not> chunk_is_empty k"
  shows "process_update_body ln EOF_MARKER mv cs = Inr (mv, cs0 @ [k\<lparr>is_end_of_file := True\<rparr>])"
proof -
  have "trim_end EOF_MARKER = EOF_MARKER" "\<not> is_context_line EOF_MARKER"
    "EOF_MARKER \<noteq> EMPTY_CHANGE_CONTEXT_MARKER" "strip_prefix CHANGE_CONTEXT_MARKER EOF_MARKER = None"
    "strip_prefix MOVE_TO_MARKER EOF_MARKER = None"
    by code_simp+
  then show ?thesis
    using assms by (simp add: process_update_body_def Let_def last_chunk_is_eof_def last_chunk_is_empty_def)
qed

subsection \<open>Hunks\<close>

lemma run_diff_lines:
  assumes "mode p = ModeUpdateFile n" "hunks p = hs @ [UpdateFile path mv (cs @ [k])]" "\<not> is_end_of_file k"
  shows "run p (map ((#) 45) ls) =
      Inr (p\<lparr>hunks := hs @ [UpdateFile path mv (cs @ [k\<lparr>old_lines := old_lines k @ ls\<rparr>])],
             line_number := line_number p + length ls\<rparr>)"
    and "run p (map ((#) 43) ls) =
      Inr (p\<lparr>hunks := hs @ [UpdateFile path mv (cs @ [k\<lparr>new_lines := new_lines k @ ls\<rparr>])],
             line_number := line_number p + length ls\<rparr>)"
proof -
  have step: "process_line (p\<lparr>line_number := line_number p + 1\<rparr>) (c # l) =
      Inr (p\<lparr>line_number := line_number p + 1,
             hunks := hs @ [UpdateFile path mv (cs @ [if c = 43 then push_new l k else push_old l k])]\<rparr>)"
    if "c = 43 \<or> c = 45" "mode p = ModeUpdateFile n" "hunks p = hs @ [UpdateFile path mv (cs @ [k])]"
      "\<not> is_end_of_file k" for p c l k
    using that body_diff [of c "cs @ [k]" cs k]
    by (subst process_line_diff [where hs = hs and path = path and mv = mv and cs = "cs @ [k]"])
      (auto simp: last_chunk_is_eof_def)
  show "run p (map ((#) 45) ls) =
      Inr (p\<lparr>hunks := hs @ [UpdateFile path mv (cs @ [k\<lparr>old_lines := old_lines k @ ls\<rparr>])],
             line_number := line_number p + length ls\<rparr>)"
    using assms
  proof (induction ls arbitrary: p k)
    case Nil
    then show ?case by (cases p; cases k) simp
  next
    case (Cons l ls)
    then show ?case
      using step [of 45 p k l] Cons.IH [of "p\<lparr>line_number := line_number p + 1,
        hunks := hs @ [UpdateFile path mv (cs @ [push_old l k])]\<rparr>" "push_old l k"]
      by (simp add: push_old_def)
  qed
  show "run p (map ((#) 43) ls) =
      Inr (p\<lparr>hunks := hs @ [UpdateFile path mv (cs @ [k\<lparr>new_lines := new_lines k @ ls\<rparr>])],
             line_number := line_number p + length ls\<rparr>)"
    using assms
  proof (induction ls arbitrary: p k)
    case Nil
    then show ?case by (cases p; cases k) simp
  next
    case (Cons l ls)
    then show ?case
      using step [of 43 p k l] Cons.IH [of "p\<lparr>line_number := line_number p + 1,
        hunks := hs @ [UpdateFile path mv (cs @ [push_new l k])]\<rparr>" "push_new l k"]
      by (simp add: push_new_def)
  qed
qed

lemma run_eof:
  assumes "mode p = ModeUpdateFile n" "hunks p = hs @ [UpdateFile path mv (cs @ [k])]"
    and "\<not> is_end_of_file k" "\<not> chunk_is_empty k"
  shows "run p [EOF_MARKER] =
    Inr (p\<lparr>hunks := hs @ [UpdateFile path mv (cs @ [k\<lparr>is_end_of_file := True\<rparr>])],
           line_number := line_number p + 1\<rparr>)"
proof -
  let ?p = "p\<lparr>line_number := line_number p + 1\<rparr>"
  have f: "trim_end EOF_MARKER = EOF_MARKER" "EOF_MARKER \<noteq> END_PATCH_MARKER"
    "strip_prefix ADD_FILE_MARKER EOF_MARKER = None" "strip_prefix DELETE_FILE_MARKER EOF_MARKER = None"
    "strip_prefix UPDATE_FILE_MARKER EOF_MARKER = None"
    by code_simp+
  have "process_line ?p EOF_MARKER =
      Inr (?p\<lparr>hunks := hs @ [UpdateFile path mv (cs @ [k\<lparr>is_end_of_file := True\<rparr>])]\<rparr>)"
    using assms body_eof [of "cs @ [k]" cs k] f
    by (intro process_line_update_body [where n = n and cs = "cs @ [k]"])
      (simp_all add: handle_hunk_headers_and_end_patch_def)
  then show ?thesis by simp
qed

lemma run_chunk:
  assumes "mode p = ModeUpdateFile n" "hunks p = hs @ [UpdateFile path mv cs]"
    and "\<not> last_chunk_is_empty cs" "wf_chunk c"
  shows "run p (render_chunk c) =
    Inr (p\<lparr>hunks := hs @ [UpdateFile path mv (cs @ [c])],
           line_number := line_number p + length (render_chunk c)\<rparr>)"
proof -
  let ?p1 = "p\<lparr>line_number := line_number p + 1\<rparr>"
  obtain x where x: "render_context (change_context c) = 64 # x" using render_context_Cons by blast
  have "process_line ?p1 (render_context (change_context c)) =
      Inr (?p1\<lparr>hunks := hs @ [UpdateFile path mv (cs @ [empty_chunk (change_context c)])]\<rparr>)"
    using assms body_context [of "change_context c" cs] unfolding x
    by (intro process_line_diff [where n = n and cs = cs]) (simp_all add: wf_chunk_def)
  then have ctx: "run p [render_context (change_context c)] =
      Inr (?p1\<lparr>hunks := hs @ [UpdateFile path mv (cs @ [empty_chunk (change_context c)])]\<rparr>)" by simp
  have "\<not> chunk_is_empty (empty_chunk (change_context c)\<lparr>old_lines := old_lines c, new_lines := new_lines c\<rparr>)"
    using assms(4) by (simp add: wf_chunk_def chunk_is_empty_def)
  then show ?thesis
    using assms(1) unfolding render_chunk_def run_append ctx
    by (cases c) (simp add: run_diff_lines run_eof empty_chunk_def add.assoc del: run.simps(2))
qed

lemma run_chunks:
  assumes "mode p = ModeUpdateFile n" "hunks p = hs @ [UpdateFile path mv cs]"
    and "\<not> last_chunk_is_empty cs" "list_all wf_chunk ks"
  shows "run p (concat (map render_chunk ks)) =
    Inr (p\<lparr>hunks := hs @ [UpdateFile path mv (cs @ ks)],
           line_number := line_number p + length (concat (map render_chunk ks))\<rparr>)"
  using assms
proof (induction ks arbitrary: p cs)
  case Nil
  then show ?case by (cases p) simp
next
  case (Cons k ks)
  let ?q = "p\<lparr>hunks := hs @ [UpdateFile path mv (cs @ [k])],
           line_number := line_number p + length (render_chunk k)\<rparr>"
  have "run p (render_chunk k) = Inr ?q" using run_chunk Cons.prems by simp
  moreover have "\<not> last_chunk_is_empty (cs @ [k])"
    using Cons.prems(4) by (simp add: last_chunk_is_empty_def wf_chunk_def)
  ultimately show ?case
    using Cons.IH [of ?q "cs @ [k]"] Cons.prems by (simp add: run_append add.assoc)
qed

lemma concat_content_lines:
  assumes "t = [] \<or> last t = LF"
  shows "concat (map (\<lambda>l. l @ [LF]) (content_lines t)) = t"
proof -
  have j: "concat (map (\<lambda>l. l @ [LF]) (butlast ps)) @ last ps = join [LF] ps" if "ps \<noteq> []" for ps :: "rstring list"
    using that by (induction "[LF]" ps rule: join.induct) auto
  show ?thesis
    using j [of "split_on LF t"] last_split_on [of LF t] assms
    by (simp add: content_lines_def split_on_not_Nil join_split_on)
qed

lemma run_update_hunk:
  assumes "ready p" "wf_hunk (UpdateFile path mv cs)"
  shows "\<exists>p'. run p (render_hunk (UpdateFile path mv cs)) = Inr p' \<and> ready p' \<and>
    hunks p' = hunks p @ [UpdateFile path mv cs] \<and> environment_id p' = environment_id p"
proof -
  let ?p1 = "p\<lparr>line_number := line_number p + 1\<rparr>"
  let ?q = "?p1\<lparr>hunks := hunks p @ [UpdateFile path None []], mode := ModeUpdateFile (line_number p + 1)\<rparr>"
  have "ready ?p1" using assms(1) by (simp add: ready_def)
  then have q: "process_line ?p1 (UPDATE_FILE_MARKER @ path) = Inr ?q"
    using process_line_update_header [of ?p1 path] assms(2) by simp
  obtain r where r: "run ?q (case mv of None \<Rightarrow> [] | Some m \<Rightarrow> [MOVE_TO_MARKER @ m]) = Inr r"
      "mode r = ModeUpdateFile (line_number p + 1)" "hunks r = hunks p @ [UpdateFile path mv []]"
      "environment_id r = environment_id p"
  proof (cases mv)
    case None
    then show thesis using that [of ?q] by simp
  next
    case (Some m)
    let ?q1 = "?q\<lparr>line_number := line_number ?q + 1\<rparr>"
    have "process_line ?q1 (MOVE_TO_MARKER @ m) = Inr (?q1\<lparr>hunks := hunks p @ [UpdateFile path (Some m) []]\<rparr>)"
      using assms(2) Some by (intro process_line_move [where n = "line_number p + 1"]) simp_all
    then show thesis
      using that [of "?q1\<lparr>hunks := hunks p @ [UpdateFile path (Some m) []]\<rparr>"] Some by simp
  qed
  have "run r (concat (map render_chunk cs)) = Inr (r\<lparr>hunks := hunks p @ [UpdateFile path mv cs],
      line_number := line_number r + length (concat (map render_chunk cs))\<rparr>)"
    using run_chunks [OF r(2,3)] assms(2) by (simp add: last_chunk_is_empty_def)
  then show ?thesis
    using q r assms(2)
    by (auto simp: run_append ready_def last_chunk_is_empty_def wf_chunk_def list_all_iff)
qed

lemma run_hunk:
  assumes "ready p" "wf_hunk h"
  shows "\<exists>p'. run p (render_hunk h) = Inr p' \<and> ready p' \<and> hunks p' = hunks p @ [h]
    \<and> environment_id p' = environment_id p"
proof (cases h)
  case (AddFile path t)
  let ?p1 = "p\<lparr>line_number := line_number p + 1\<rparr>"
  have "ready ?p1" using assms(1) by (simp add: ready_def)
  then have "process_line ?p1 (ADD_FILE_MARKER @ path) =
      Inr (?p1\<lparr>hunks := hunks p @ [AddFile path []], mode := ModeAddFile\<rparr>)"
    using process_line_add_header [of ?p1 path] assms(2) AddFile by simp
  then show ?thesis
    using AddFile assms(2) concat_content_lines [of t]
    by (auto simp: ready_def run_add_body [where hs = "hunks p" and path = path and t = "[]"])
next
  case (DeleteFile path)
  have "ready (p\<lparr>line_number := line_number p + 1\<rparr>)" using assms(1) by (simp add: ready_def)
  then show ?thesis
    using DeleteFile process_line_delete_header [of "p\<lparr>line_number := line_number p + 1\<rparr>" path] assms
    by (simp add: ready_def)
next
  case (UpdateFile path mv cs)
  then show ?thesis using run_update_hunk [OF assms(1)] assms(2) by blast
qed

lemma run_hunks:
  assumes "ready p" "list_all wf_hunk hs"
  shows "\<exists>p'. run p (concat (map render_hunk hs)) = Inr p' \<and> ready p' \<and> hunks p' = hunks p @ hs
    \<and> environment_id p' = environment_id p"
  using assms
proof (induction hs arbitrary: p)
  case (Cons h hs)
  then obtain q where q: "run p (render_hunk h) = Inr q" "ready q" "hunks q = hunks p @ [h]"
      "environment_id q = environment_id p"
    using run_hunk [of p h] by auto
  with Cons.IH [OF q(2)] Cons.prems(2) show ?case by (auto simp: run_append)
qed simp

subsection \<open>Whole patches\<close>

definition wf_environment :: "rstring option \<Rightarrow> bool" where
  "wf_environment env \<longleftrightarrow>
     (case env of None \<Rightarrow> True | Some e \<Rightarrow> wf_path e \<and> \<not> is_whitespace (hd e))"

lemma run_environment:
  assumes "mode p = StartedPatch" "environment_id p = None" "hunks p = []" "wf_environment env"
  shows "\<exists>p'. run p (render_environment env) = Inr p' \<and> ready p' \<and> hunks p' = [] \<and> environment_id p' = env"
proof (cases env)
  case None
  then show ?thesis using assms by (simp add: render_environment_def ready_def last_opt_def)
next
  case (Some e)
  have e: "wf_path e" "\<not> is_whitespace (hd e)" using assms(4) Some by (simp_all add: wf_environment_def)
  have "wf_path (str '' '' @ e)" using e(1) by (simp add: wf_path_def str_def)
  then have t: "trim (ENVIRONMENT_ID_MARKER @ str '' '' @ e) = ENVIRONMENT_ID_MARKER @ str '' '' @ e"
    using trim_marker(1) marker_Cons(8) by blast
  have "trim (str '' '' @ e) = trim e" by (simp add: trim_def trim_start_def str_def is_whitespace_def)
  then have te: "trim (str '' '' @ e) = e" "e \<noteq> []"
    using trim_nonws_ends [of e] e by (simp_all add: wf_path_def)
  show ?thesis
    using assms(1-3) Some t te
    by (simp add: render_environment_def process_line_def handle_hunk_headers_and_end_patch_def
        handle_environment_id_def ready_def last_opt_def)
qed

lemma run_patch:
  assumes "wf_environment env" "list_all wf_hunk hs"
  shows "\<exists>p. run default_parser (render_lines env hs) = Inr p \<and> ready p \<and> hunks p = hs \<and> environment_id p = env"
proof -
  have "trim BEGIN_PATCH_MARKER = BEGIN_PATCH_MARKER" by code_simp
  then have b: "process_line (default_parser\<lparr>line_number := line_number default_parser + 1\<rparr>) BEGIN_PATCH_MARKER =
      Inr (default_parser\<lparr>line_number := line_number default_parser + 1, mode := StartedPatch\<rparr>)"
    by (simp add: process_line_def default_parser_def)
  obtain q where q: "run (default_parser\<lparr>line_number := line_number default_parser + 1, mode := StartedPatch\<rparr>)
      (render_environment env) = Inr q" "ready q" "hunks q = []" "environment_id q = env"
    using run_environment [OF _ _ _ assms(1)] by (force simp: default_parser_def)
  show ?thesis
    using run_hunks [OF q(2) assms(2)] q b by (simp add: render_lines_def run_append)
qed

lemma wf_text_line_Cons: "wf_text_line l \<Longrightarrow> c \<noteq> LF \<Longrightarrow> c \<noteq> CR \<Longrightarrow> wf_text_line (c # l)"
  by (auto simp: wf_text_line_def)

lemma wf_text_line_path: "wf_path p \<Longrightarrow> LF \<notin> set m \<Longrightarrow> wf_text_line (m @ p)"
  by (auto simp: wf_text_line_def wf_path_def is_whitespace_def)

lemma LF_notin_marker [simp]:
  "LF \<notin> set BEGIN_PATCH_MARKER" "LF \<notin> set END_PATCH_MARKER" "LF \<notin> set ADD_FILE_MARKER"
  "LF \<notin> set DELETE_FILE_MARKER" "LF \<notin> set UPDATE_FILE_MARKER" "LF \<notin> set MOVE_TO_MARKER"
  "LF \<notin> set EOF_MARKER" "LF \<notin> set CHANGE_CONTEXT_MARKER" "LF \<notin> set ENVIRONMENT_ID_MARKER"
  by code_simp+

lemma wf_marker_line [simp]:
  "wf_text_line EOF_MARKER" "wf_text_line BEGIN_PATCH_MARKER" "wf_text_line END_PATCH_MARKER"
  "wf_text_line EMPTY_CHANGE_CONTEXT_MARKER"
  by code_simp+

lemma wf_render_chunk: "wf_chunk c \<Longrightarrow> list_all wf_text_line (render_chunk c)"
  by (auto simp: render_chunk_def wf_chunk_def render_context_def list_all_iff wf_text_line_Cons wf_text_line_path
      split: option.splits)

lemma wf_render_hunk: "wf_hunk h \<Longrightarrow> list_all wf_text_line (render_hunk h)"
  using wf_render_chunk
  by (cases h) (auto simp: list_all_iff wf_text_line_Cons wf_text_line_path split: option.splits)

lemma wf_render_lines:
  assumes "wf_environment env" "list_all wf_hunk hs"
  shows "list_all wf_text_line (render_lines env hs)"
proof -
  have "list_all wf_text_line (render_environment env)"
    using assms(1) wf_text_line_path [of _ "ENVIRONMENT_ID_MARKER @ str '' ''"]
    by (auto simp: render_environment_def wf_environment_def str_def split: option.splits)
  then show ?thesis
    using assms(2) wf_render_hunk by (auto simp: render_lines_def list_all_iff)
qed

lemma join_terminated: "join [LF] (ls @ [e]) = concat (map (\<lambda>l. l @ [LF]) ls) @ e"
  by (induction ls) (auto simp: join_Cons)

lemma boundaries_rendered:
  assumes "list_all wf_text_line (render_lines env hs)"
  shows "trim (render_patch env hs) = render_patch env hs"
    and "lines (render_patch env hs) = render_lines env hs @ [END_PATCH_MARKER]"
    and "check_patch_boundaries_lenient (render_lines env hs @ [END_PATCH_MARKER])
      = Inr (render_lines env hs @ [END_PATCH_MARKER])"
proof -
  let ?b = "render_lines env hs" and ?t = "render_patch env hs"
  have t: "?t = concat (map (\<lambda>l. l @ [LF]) ?b) @ END_PATCH_MARKER"
    by (simp add: render_patch_def join_terminated)
  have e: "END_PATCH_MARKER \<noteq> []" "\<not> is_whitespace (last END_PATCH_MARKER)"
    "BEGIN_PATCH_MARKER \<noteq> []" "\<not> is_whitespace (hd BEGIN_PATCH_MARKER)"
    "trim BEGIN_PATCH_MARKER = BEGIN_PATCH_MARKER" "trim END_PATCH_MARKER = END_PATCH_MARKER"
    by code_simp+
  have "hd ?t = hd BEGIN_PATCH_MARKER" using e unfolding t by (simp add: render_lines_def)
  then show "trim ?t = ?t" using e by (intro trim_nonws_ends) (simp_all add: t)
  have "split_on LF ?t = ?b @ [END_PATCH_MARKER]"
    using assms unfolding render_patch_def by (intro split_on_join) (auto simp: list_all_iff wf_text_line_def)
  moreover have "map strip_cr ?b = ?b"
    using assms by (auto simp: list_all_iff strip_cr_id intro: map_idI)
  ultimately show "lines ?t = ?b @ [END_PATCH_MARKER]" using e(1) by (simp add: lines_def)
  show "check_patch_boundaries_lenient (?b @ [END_PATCH_MARKER]) = Inr (?b @ [END_PATCH_MARKER])"
    using e by (simp add: check_patch_boundaries_lenient_def check_patch_boundaries_strict_def
        check_start_and_end_lines_strict_def render_lines_def)
qed

text \<open>
  C2. Round trip of the patch format: for hunks whose paths and lines the format can carry,
  \<^verbatim>\<open>parse_patch\<close> of the printed patch returns exactly those hunks and the environment id, with
  the patch text unchanged. Every update chunk, its context, its lines, its end-of-file flag
  and a move destination survive.
\<close>

theorem parse_render_patch:
  assumes "wf_environment env" "list_all wf_hunk hs"
  shows "parse_patch (render_patch env hs) =
    Inr \<lparr>args_patch = render_patch env hs, args_hunks = hs, args_workdir = None, args_environment_id = env\<rparr>"
proof -
  let ?b = "render_lines env hs"
  have w: "list_all wf_text_line ?b" using wf_render_lines assms by blast
  obtain p where p: "run default_parser ?b = Inr p" "ready p" "hunks p = hs" "environment_id p = env"
    using run_patch assms by blast
  have d: "push_delta default_parser (concat (map (\<lambda>l. l @ [LF]) ?b)) = (p, Inr hs)" "line_buffer p = []"
    using push_delta_run [OF _ w p(1)] p(3) by (simp_all add: default_parser_def)
  have push: "push_delta default_parser (render_patch env hs) = (p\<lparr>line_buffer := END_PATCH_MARKER\<rparr>, Inr hs)"
    using d p(3) push_delta_no_LF [of END_PATCH_MARKER p]
    by (simp add: render_patch_def join_terminated push_delta_append)
  have e: "END_PATCH_MARKER \<noteq> []" "trim END_PATCH_MARKER = END_PATCH_MARKER" by code_simp+
  have "ready (p\<lparr>line_buffer := [], line_number := line_number p + 1\<rparr>)" using p(2) by (simp add: ready_def)
  then have "finish (p\<lparr>line_buffer := END_PATCH_MARKER\<rparr>) =
      (p\<lparr>line_buffer := [], line_number := line_number p + 1, mode := EndedPatch\<rparr>, Inr hs)"
    using e p(3) by (simp add: finish_def finish_line_def Let_def ready_ensure)
  then show ?thesis
    using push p(4) boundaries_rendered [OF w]
    by (simp add: parse_patch_def parse_patch_text_def Let_def render_patch_def)
qed

theorem parse_render_patch_witness:
  "parse_patch (render_patch (Some (str ''env''))
     [AddFile (str ''a'') (str ''x'' @ [LF]), DeleteFile (str ''b''),
      UpdateFile (str ''c'') (Some (str ''d''))
        [\<lparr>change_context = Some (str ''f''), old_lines = [str ''o''], new_lines = [[]], is_end_of_file = True\<rparr>]]) =
   Inr \<lparr>args_patch = str ''*** Begin Patch'' @ [LF] @ str ''*** Environment ID: env'' @ [LF]
          @ str ''*** Add File: a'' @ [LF] @ str ''+x'' @ [LF] @ str ''*** Delete File: b'' @ [LF]
          @ str ''*** Update File: c'' @ [LF] @ str ''*** Move to: d'' @ [LF] @ str ''@@ f'' @ [LF]
          @ str ''-o'' @ [LF] @ str ''+'' @ [LF] @ str ''*** End of File'' @ [LF] @ str ''*** End Patch'',
        args_hunks = [AddFile (str ''a'') (str ''x'' @ [LF]), DeleteFile (str ''b''),
      UpdateFile (str ''c'') (Some (str ''d''))
        [\<lparr>change_context = Some (str ''f''), old_lines = [str ''o''], new_lines = [[]], is_end_of_file = True\<rparr>]],
        args_workdir = None, args_environment_id = Some (str ''env'')\<rparr>"
  by (subst parse_render_patch) code_simp+

end
