(* ===== verification/Seek_Sequence.thy ===== *)
theory Seek_Sequence
  imports Prelude
begin

section \<open>Locating a block of lines: apply-patch/src/seek\_sequence.rs\<close>

text \<open>
  The search that places a patch chunk in a file: four passes of decreasing strictness
  over the candidate positions. The theory models the function with its early returns and
  proves what a returned position means and which position is chosen.
\<close>

subsection \<open>Model\<close>

definition normalise_char :: "rchar \<Rightarrow> rchar" where
  "normalise_char c =
     (if c \<in> {8208, 8209, 8210, 8211, 8212, 8213, 8722} then 45
      else if c \<in> {8216, 8217, 8218, 8219} then 39
      else if c \<in> {8220, 8221, 8222, 8223} then 34
      else if c \<in> {160, 8194, 8195, 8196, 8197, 8198, 8199, 8200, 8201, 8202, 8239, 8287, 12288}
        then 32
      else c)"

definition normalise :: "rstring \<Rightarrow> rstring" where
  "normalise s = map normalise_char (trim s)"

text \<open>\<open>lines[i + p_idx]\<close> against \<open>pattern[p_idx]\<close> for every index of the pattern.\<close>

definition match_at :: "(rstring \<Rightarrow> rstring \<Rightarrow> bool) \<Rightarrow> rstring list \<Rightarrow> rstring list \<Rightarrow> nat \<Rightarrow> bool" where
  "match_at eq lns pat i \<longleftrightarrow> list_all2 eq (take (length pat) (drop i lns)) pat"

definition search_start :: "rstring list \<Rightarrow> rstring list \<Rightarrow> nat \<Rightarrow> bool \<Rightarrow> nat" where
  "search_start lns pat start eof =
     (if eof \<and> length lns \<ge> length pat then length lns - length pat else start)"

definition seek_sequence :: "rstring list \<Rightarrow> rstring list \<Rightarrow> nat \<Rightarrow> bool \<Rightarrow> nat option" where
  "seek_sequence lns pat start eof =
     (if pat = [] then Some start
      else if length pat > length lns then None
      else
        let lo = search_start lns pat start eof; hi = length lns - length pat
        in or_else (first_in (match_at (=) lns pat) lo hi)
          (or_else (first_in (match_at (\<lambda>a b. trim_end a = trim_end b) lns pat) lo hi)
          (or_else (first_in (match_at (\<lambda>a b. trim a = trim b) lns pat) lo hi)
                   (first_in (match_at (\<lambda>a b. normalise a = normalise b) lns pat) lo hi))))"

subsection \<open>Laws\<close>

lemma match_at_iff:
  assumes "i + length pat \<le> length lns"
  shows "match_at eq lns pat i \<longleftrightarrow> (\<forall>k < length pat. eq (lns ! (i + k)) (pat ! k))"
  using assms by (auto simp: match_at_def list_all2_conv_all_nth)

text \<open>The four comparisons, strictest first.\<close>

definition line_eq :: "nat \<Rightarrow> rstring \<Rightarrow> rstring \<Rightarrow> bool" where
  "line_eq l a b \<longleftrightarrow>
     (if l = 0 then a = b
      else if l = 1 then trim_end a = trim_end b
      else if l = 2 then trim a = trim b
      else normalise a = normalise b)"

lemma line_eq_mono: "line_eq l a b \<Longrightarrow> l \<le> m \<Longrightarrow> line_eq m a b"
proof -
  assume eq: "line_eq l a b" and "l \<le> m"
  have te: "trim a = trim b" if "trim_end a = trim_end b"
    using that trim_trim_end [of a] trim_trim_end [of b] by simp
  show "line_eq m a b"
    using eq \<open>l \<le> m\<close> te by (auto simp: line_eq_def normalise_def split: if_splits)
qed

definition hits :: "nat \<Rightarrow> rstring list \<Rightarrow> rstring list \<Rightarrow> nat \<Rightarrow> nat set" where
  "hits l lns pat lo =
     {i. lo \<le> i \<and> i + length pat \<le> length lns \<and> (\<forall>k < length pat. line_eq l (lns ! (i + k)) (pat ! k))}"

lemma hits_mono: "l \<le> m \<Longrightarrow> hits l lns pat lo \<subseteq> hits m lns pat lo"
  by (auto simp: hits_def intro: line_eq_mono)

definition pass :: "nat \<Rightarrow> rstring list \<Rightarrow> rstring list \<Rightarrow> nat \<Rightarrow> nat option" where
  "pass l lns pat lo = first_in (match_at (line_eq l) lns pat) lo (length lns - length pat)"

lemma pass_Some_iff:
  assumes "length pat \<le> length lns"
  shows "pass l lns pat lo = Some i \<longleftrightarrow> i \<in> hits l lns pat lo \<and> (\<forall>j \<in> hits l lns pat lo. i \<le> j)"
proof -
  have m: "match_at (line_eq l) lns pat j \<longleftrightarrow> (\<forall>k < length pat. line_eq l (lns ! (j + k)) (pat ! k))"
    if "j \<le> length lns - length pat" for j
    using that assms by (intro match_at_iff) simp
  show ?thesis
    unfolding pass_def first_in_Some_iff hits_def
    using assms m by (auto simp: le_diff_conv2 not_less)
qed

lemma pass_None_iff:
  assumes "length pat \<le> length lns"
  shows "pass l lns pat lo = None \<longleftrightarrow> hits l lns pat lo = {}"
proof -
  have m: "match_at (line_eq l) lns pat j \<longleftrightarrow> (\<forall>k < length pat. line_eq l (lns ! (j + k)) (pat ! k))"
    if "j \<le> length lns - length pat" for j
    using that assms by (intro match_at_iff) simp
  show ?thesis
    unfolding pass_def first_in_None_iff hits_def
    using assms m by (auto simp: le_diff_conv2)
qed

lemma seek_sequence_passes:
  assumes "pat \<noteq> []" "length pat \<le> length lns" "lo = search_start lns pat start eof"
  shows "seek_sequence lns pat start eof =
     or_else (pass 0 lns pat lo) (or_else (pass 1 lns pat lo) (or_else (pass 2 lns pat lo) (pass 3 lns pat lo)))"
proof -
  have "line_eq 0 = (=)" "line_eq 1 = (\<lambda>a b. trim_end a = trim_end b)"
    "line_eq 2 = (\<lambda>a b. trim a = trim b)" "line_eq 3 = (\<lambda>a b. normalise a = normalise b)"
    by (auto simp: line_eq_def fun_eq_iff)
  with assms show ?thesis
    by (simp add: seek_sequence_def pass_def Let_def)
qed

lemma seek_sequence_Some_iff:
  assumes "pat \<noteq> []"
  shows "seek_sequence lns pat start eof = Some i \<longleftrightarrow>
     (\<exists>l < 4. i \<in> hits l lns pat (search_start lns pat start eof) \<and>
        (\<forall>j \<in> hits l lns pat (search_start lns pat start eof). i \<le> j) \<and>
        (\<forall>l' < l. hits l' lns pat (search_start lns pat start eof) = {}))"
proof (cases "length pat \<le> length lns")
  case False
  then have "hits l lns pat lo = {}" for l lo by (auto simp: hits_def)
  with False assms show ?thesis by (simp add: seek_sequence_def)
next
  case True
  let ?lo = "search_start lns pat start eof"
  have four: "(\<exists>l<4. P l) \<longleftrightarrow> P 0 \<or> P 1 \<or> P 2 \<or> P (3::nat)" for P
    by (auto simp: numeral_eq_Suc less_Suc_eq)
  have lt: "(\<forall>l<2. P l) \<longleftrightarrow> P 0 \<and> P (1::nat)" "(\<forall>l<3. P l) \<longleftrightarrow> P 0 \<and> P 1 \<and> P (2::nat)"
    "(\<forall>l<1. P l) \<longleftrightarrow> P (0::nat)" for P
    by (auto simp: numeral_eq_Suc less_Suc_eq)
  show ?thesis
    unfolding seek_sequence_passes [OF assms True refl] four lt or_else_Some_iff
      pass_None_iff [OF True] pass_Some_iff [OF True]
    by auto
qed

lemma seek_sequence_hit:
  assumes "seek_sequence lns pat start eof = Some i" "pat \<noteq> []"
  shows "i \<in> hits 3 lns pat (search_start lns pat start eof)"
proof -
  obtain l where "l < 4" "i \<in> hits l lns pat (search_start lns pat start eof)"
    using assms by (auto simp: seek_sequence_Some_iff)
  then show ?thesis using hits_mono [of l 3] by auto
qed

lemma seek_sequence_bounds:
  assumes "seek_sequence lns pat start eof = Some i" "start \<le> length lns"
  shows "i + length pat \<le> length lns"
  using assms seek_sequence_hit [OF assms(1)]
  by (cases "pat = []") (auto simp: seek_sequence_def hits_def)

lemma seek_sequence_ge_start:
  assumes "seek_sequence lns pat start False = Some i"
  shows "start \<le> i"
  using assms seek_sequence_hit [OF assms]
  by (cases "pat = []") (auto simp: seek_sequence_def hits_def search_start_def)

subsection \<open>Properties\<close>

text \<open>
  A position returned for a non-empty pattern lies inside the file, is not before the
  start of the search, and every line of the pattern equals the file's line at that place
  up to surrounding whitespace and typographic punctuation.
\<close>

lemma seek_sequence_sound:
  assumes "seek_sequence lns pat start eof = Some i" and "pat \<noteq> []"
  shows "search_start lns pat start eof \<le> i \<and> i + length pat \<le> length lns \<and>
    (\<forall>k < length pat. normalise (lns ! (i + k)) = normalise (pat ! k))"
  using seek_sequence_hit [OF assms] by (auto simp: hits_def line_eq_def)




text \<open>
  With the end-of-file flag the only position ever returned for a non-empty pattern is
  the one where the pattern ends the file: there is no fall-back to a search from
  \<open>start\<close>, although the function's comment announces one.
\<close>

lemma seek_sequence_eof_only_end:
  assumes "pat \<noteq> []"
  shows "seek_sequence lns pat start True = Some i \<Longrightarrow> i + length pat = length lns"
proof -
  assume "seek_sequence lns pat start True = Some i"
  from seek_sequence_hit [OF this assms]
  show "i + length pat = length lns" by (auto simp: hits_def search_start_def split: if_splits)
qed


end
