(* ===== verification/Replacements.thy ===== *)
theory Replacements
  imports Patch_Types Seek_Sequence "HOL-Library.Multiset"
begin

section \<open>From chunks to new file contents: apply-patch/src/lib.rs\<close>

text \<open>
  \<^verbatim>\<open>compute_replacements\<close> places every chunk in the original lines,
  \<^verbatim>\<open>apply_replacements\<close> edits the lines from the last replacement to the first,
  and \<^verbatim>\<open>derive_new_contents_from_chunks\<close> wraps both between splitting and joining
  the text. The reference is \<open>splice\<close>, one forward pass over the original lines.
\<close>

type_synonym replacement = "nat \<times> nat \<times> rstring list"

subsection \<open>Model\<close>

definition last_is_empty :: "rstring list \<Rightarrow> bool" where
  "last_is_empty xs \<longleftrightarrow> xs \<noteq> [] \<and> last xs = []"

definition insertion_idx :: "rstring list \<Rightarrow> nat" where
  "insertion_idx lns = (if last_is_empty lns then length lns - 1 else length lns)"

definition locate_context :: "rstring list \<Rightarrow> rstring \<Rightarrow> update_file_chunk \<Rightarrow> nat \<Rightarrow> (apply_patch_error, nat) result" where
  "locate_context lns path c line_index =
     (case change_context c of
        None \<Rightarrow> Inr line_index
      | Some ctx \<Rightarrow>
          (case seek_sequence lns [ctx] line_index False of
             Some idx \<Rightarrow> Inr (idx + 1)
           | None \<Rightarrow> Inl (ComputeReplacements
               (str ''Failed to find context '' @ squote ctx @ str '' in '' @ path))))"

definition locate_old_lines :: "rstring list \<Rightarrow> update_file_chunk \<Rightarrow> nat \<Rightarrow> replacement option" where
  "locate_old_lines lns c line_index =
     (case seek_sequence lns (old_lines c) line_index (is_end_of_file c) of
        Some i \<Rightarrow> Some (i, length (old_lines c), new_lines c)
      | None \<Rightarrow>
          if last_is_empty (old_lines c) then
            let pat = butlast (old_lines c);
                new = (if last_is_empty (new_lines c) then butlast (new_lines c) else new_lines c)
            in map_option (\<lambda>i. (i, length pat, new)) (seek_sequence lns pat line_index (is_end_of_file c))
          else None)"

fun compute_loop :: "rstring list \<Rightarrow> rstring \<Rightarrow> update_file_chunk list \<Rightarrow> nat \<Rightarrow> replacement list
    \<Rightarrow> (apply_patch_error, replacement list) result" where
  "compute_loop lns path [] line_index acc = Inr acc"
| "compute_loop lns path (c # cs) line_index acc =
     (case locate_context lns path c line_index of
        Inl e \<Rightarrow> Inl e
      | Inr li \<Rightarrow>
          if old_lines c = [] then
            compute_loop lns path cs li (acc @ [(insertion_idx lns, 0, new_lines c)])
          else
            (case locate_old_lines lns c li of
               Some (i, n, new) \<Rightarrow> compute_loop lns path cs (i + n) (acc @ [(i, n, new)])
             | None \<Rightarrow> Inl (ComputeReplacements
                 (str ''Failed to find expected lines in '' @ path @ str '':'' @ [LF]
                  @ join [LF] (old_lines c)))))"

definition compute_replacements :: "rstring list \<Rightarrow> rstring \<Rightarrow> update_file_chunk list
    \<Rightarrow> (apply_patch_error, replacement list) result" where
  "compute_replacements lns path chunks =
     (case compute_loop lns path chunks 0 [] of
        Inl e \<Rightarrow> Inl e
      | Inr reps \<Rightarrow> Inr (sort_key fst reps))"

text \<open>\<^verbatim>\<open>Vec::remove\<close> under its guard, and \<^verbatim>\<open>Vec::insert\<close>, which panics past the end.\<close>

fun remove_lines :: "nat \<Rightarrow> nat \<Rightarrow> 'a list \<Rightarrow> 'a list" where
  "remove_lines i 0 ls = ls"
| "remove_lines i (Suc n) ls =
     remove_lines i n (if i < length ls then take i ls @ drop (Suc i) ls else ls)"

fun insert_lines :: "nat \<Rightarrow> 'a list \<Rightarrow> 'a list \<Rightarrow> 'a list option" where
  "insert_lines i [] ls = Some ls"
| "insert_lines i (x # xs) ls =
     (if i \<le> length ls then insert_lines (Suc i) xs (take i ls @ x # drop i ls) else None)"

fun apply_rev :: "'a list \<Rightarrow> (nat \<times> nat \<times> 'a list) list \<Rightarrow> 'a list option" where
  "apply_rev ls [] = Some ls"
| "apply_rev ls ((i, n, new) # reps) =
     (case insert_lines i new (remove_lines i n ls) of
        None \<Rightarrow> None
      | Some ls' \<Rightarrow> apply_rev ls' reps)"

definition apply_replacements :: "'a list \<Rightarrow> (nat \<times> nat \<times> 'a list) list \<Rightarrow> 'a list option" where
  "apply_replacements ls reps = apply_rev ls (rev reps)"

definition split_original :: "rstring \<Rightarrow> rstring list" where
  "split_original contents =
     (let ls = split_on LF contents in if last_is_empty ls then butlast ls else ls)"

definition join_new :: "rstring list \<Rightarrow> rstring" where
  "join_new ls = join [LF] (if last_is_empty ls then ls else ls @ [[]])"

record applied_patch =
  original_contents :: rstring
  new_contents :: rstring

text \<open>
  The file is read through \<open>read\<close>, the result of \<^verbatim>\<open>fs.read_file_text\<close> at the
  path; \<open>path_text\<close> is the path as printed.
\<close>

definition derive_new_contents_from_chunks ::
  "(io_error, rstring) result \<Rightarrow> rstring \<Rightarrow> update_file_chunk list
    \<Rightarrow> (apply_patch_error, applied_patch) result" where
  "derive_new_contents_from_chunks read path_text chunks =
     (case read of
        Inl e \<Rightarrow> Inl (IoError (str ''Failed to read file to update '' @ path_text) e)
      | Inr contents \<Rightarrow>
          (let lns = split_original contents
           in case compute_replacements lns path_text chunks of
                Inl e \<Rightarrow> Inl e
              | Inr reps \<Rightarrow>
                  (case apply_replacements lns reps of
                     None \<Rightarrow> Inl Panic
                   | Some new \<Rightarrow>
                       Inr \<lparr>original_contents = contents, new_contents = join_new new\<rparr>)))"

subsection \<open>Editing lines\<close>

lemma remove_lines_eq: "remove_lines i n ls = take i ls @ drop (i + n) ls"
proof (induction i n ls rule: remove_lines.induct)
  case (2 i n ls)
  then show ?case by (cases "i < length ls") (auto simp: min_def add.commute)
qed simp

lemma insert_lines_eq:
  "i \<le> length ls \<Longrightarrow> insert_lines i xs ls = Some (take i ls @ xs @ drop i ls)"
  by (induction i xs ls rule: insert_lines.induct) (auto simp: min_def)

lemma apply_rev_Cons:
  assumes "i \<le> length ls"
  shows "apply_rev ls ((i, n, new) # reps) = apply_rev (take i ls @ new @ drop (i + n) ls) reps"
proof -
  have "i \<le> length (take i ls @ drop (i + n) ls)" using assms by simp
  from insert_lines_eq [OF this, of new] show ?thesis
    using assms by (simp add: remove_lines_eq)
qed

lemma apply_rev_append:
  "apply_rev ls (a @ b) = (case apply_rev ls a of None \<Rightarrow> None | Some ls' \<Rightarrow> apply_rev ls' b)"
  by (induction ls a rule: apply_rev.induct) (auto split: option.splits)

text \<open>
  Replacements at indices of at least \<open>m\<close> leave the first \<open>m\<close> lines alone, so going
  down through sorted indices never reaches past the end.
\<close>

lemma apply_rev_sorted:
  assumes "sorted (rev (map fst reps))" "\<forall>r \<in> set reps. m \<le> fst r \<and> fst r \<le> length ls" "m \<le> length ls"
  shows "\<exists>ls'. apply_rev ls reps = Some ls' \<and> take m ls' = take m ls \<and> m \<le> length ls'"
  using assms
proof (induction reps arbitrary: ls)
  case (Cons r reps)
  obtain i n new where r: "r = (i, n, new)" by (cases r)
  let ?ls = "take i ls @ new @ drop (i + n) ls"
  have i: "m \<le> i" "i \<le> length ls" using Cons.prems(2) r by auto
  have "fst q \<le> i" if "q \<in> set reps" for q
    using Cons.prems(1) that r by (auto simp: sorted_append)
  then have "\<forall>q \<in> set reps. m \<le> fst q \<and> fst q \<le> length ?ls"
    using Cons.prems(2) i by (fastforce intro: trans_le_add1)
  moreover have "sorted (rev (map fst reps))" using Cons.prems(1) by (simp add: sorted_append)
  moreover have "m \<le> length ?ls" using i by simp
  ultimately obtain ls' where "apply_rev ?ls reps = Some ls'" "take m ls' = take m ?ls" "m \<le> length ls'"
    using Cons.IH by blast
  moreover have "take m ?ls = take m ls" using i by (simp add: min_def)
  ultimately show ?case using apply_rev_Cons [OF i(2)] r by simp
qed simp

lemma apply_replacements_total:
  assumes "sorted (map fst reps)" "\<forall>r \<in> set reps. fst r \<le> length ls"
  shows "\<exists>ls'. apply_replacements ls reps = Some ls'"
  using apply_rev_sorted [of "rev reps" 0 ls] assms
  by (auto simp: apply_replacements_def rev_map)

subsection \<open>The forward reference\<close>

fun splice :: "nat \<Rightarrow> 'a list \<Rightarrow> (nat \<times> nat \<times> 'a list) list \<Rightarrow> 'a list" where
  "splice pos ls [] = drop pos ls"
| "splice pos ls ((i, n, new) # reps) =
     take (i - pos) (drop pos ls) @ new @ splice (i + n) ls reps"

fun disjoint_from :: "nat \<Rightarrow> nat \<Rightarrow> (nat \<times> nat \<times> 'a list) list \<Rightarrow> bool" where
  "disjoint_from pos len [] = (pos \<le> len)"
| "disjoint_from pos len ((i, n, new) # reps) = (pos \<le> i \<and> disjoint_from (i + n) len reps)"

lemma disjoint_from_le: "disjoint_from pos len reps \<Longrightarrow> pos \<le> len"
  by (induction pos len reps rule: disjoint_from.induct) auto

lemma apply_replacements_prefix:
  assumes "disjoint_from pos (length ls) reps"
  shows "apply_replacements ls reps = Some (take pos ls @ splice pos ls reps)"
  using assms
proof (induction pos ls reps rule: splice.induct)
  case (1 pos ls)
  then show ?case by (simp add: apply_replacements_def)
next
  case (2 pos ls i n new reps)
  from "2.prems" have d: "pos \<le> i" "disjoint_from (i + n) (length ls) reps" by auto
  let ?ls = "take (i + n) ls @ splice (i + n) ls reps"
  have il: "i + n \<le> length ls" using disjoint_from_le [OF d(2)] .
  have "apply_rev ls (rev reps) = Some ?ls"
    using "2.IH" [OF d(2)] by (simp add: apply_replacements_def)
  moreover have "i \<le> length ?ls" using il by simp
  moreover have "take i ?ls @ new @ drop (i + n) ?ls = take pos ls @ splice pos ls ((i, n, new) # reps)"
    using il d(1) by (simp add: min_def flip: take_add)
  ultimately show ?case
    by (simp add: apply_replacements_def apply_rev_append apply_rev_Cons del: apply_rev.simps(2))
qed

subsection \<open>Placing the chunks\<close>

text \<open>What the replacement of a chunk is: where it lies and which lines it covers.\<close>

definition chunk_placed :: "rstring list \<Rightarrow> update_file_chunk \<Rightarrow> replacement \<Rightarrow> bool" where
  "chunk_placed lns c = (\<lambda>(i, n, new).
     if old_lines c = [] then i = insertion_idx lns \<and> n = 0 \<and> new = new_lines c
     else \<exists>pat.
       (pat = old_lines c \<and> new = new_lines c \<or>
        old_lines c = pat @ [[]] \<and>
          (new_lines c = new @ [[]] \<or> new = new_lines c \<and> \<not> last_is_empty new)) \<and>
       n = length pat \<and> i + n \<le> length lns \<and>
       (\<forall>k < n. normalise (lns ! (i + k)) = normalise (pat ! k)))"

lemma insertion_idx_le: "insertion_idx lns \<le> length lns"
  by (simp add: insertion_idx_def)

lemma last_is_empty_snoc: "last_is_empty xs \<Longrightarrow> xs = butlast xs @ [[]]"
  by (metis append_butlast_last_id last_is_empty_def)

lemma locate_context_le:
  assumes "locate_context lns path c li = Inr li'" "li \<le> length lns"
  shows "li \<le> li' \<and> li' \<le> length lns"
proof (cases "change_context c")
  case None
  then show ?thesis using assms by (simp add: locate_context_def)
next
  case (Some ctx)
  then obtain idx where idx: "seek_sequence lns [ctx] li False = Some idx" "li' = idx + 1"
    using assms(1) by (auto simp: locate_context_def split: option.splits)
  show ?thesis
    using seek_sequence_bounds [OF idx(1) assms(2)] seek_sequence_ge_start [OF idx(1)] idx(2) by simp
qed

lemma seek_sequence_matches:
  assumes "seek_sequence lns pat li eof = Some i" "li \<le> length lns"
  shows "i + length pat \<le> length lns \<and> (\<forall>k < length pat. normalise (lns ! (i + k)) = normalise (pat ! k))"
  using seek_sequence_bounds [OF assms] seek_sequence_hit [OF assms(1)]
  by (cases "pat = []") (auto simp: hits_def line_eq_def)

lemma locate_old_lines_placed:
  assumes "locate_old_lines lns c li = Some r" "li \<le> length lns" "old_lines c \<noteq> []"
  shows "chunk_placed lns c r \<and> fst r + fst (snd r) \<le> length lns \<and> (\<not> is_end_of_file c \<longrightarrow> li \<le> fst r)"
proof (cases "seek_sequence lns (old_lines c) li (is_end_of_file c)")
  case (Some i)
  then have "r = (i, length (old_lines c), new_lines c)"
    using assms(1) by (simp add: locate_old_lines_def)
  with seek_sequence_matches [OF Some assms(2)] Some assms(3) show ?thesis
    by (auto simp: chunk_placed_def dest: seek_sequence_ge_start)
next
  case None
  let ?pat = "butlast (old_lines c)"
  obtain i where i: "seek_sequence lns ?pat li (is_end_of_file c) = Some i"
    "r = (i, length ?pat, if last_is_empty (new_lines c) then butlast (new_lines c) else new_lines c)"
    "last_is_empty (old_lines c)"
    using assms(1) None by (auto simp: locate_old_lines_def Let_def split: if_splits)
  have o: "old_lines c = ?pat @ [[]]" using last_is_empty_snoc [OF i(3)] .
  have n: "new_lines c = butlast (new_lines c) @ [[]]" if "last_is_empty (new_lines c)"
    using last_is_empty_snoc [OF that] .
  show ?thesis
    unfolding chunk_placed_def i(2)
    using seek_sequence_matches [OF i(1) assms(2)] seek_sequence_ge_start [of lns ?pat li i] i(1) o n assms(3)
    by (auto intro!: exI [of _ ?pat])
qed

lemma compute_loop_placed:
  assumes "compute_loop lns path cs li acc = Inr reps" "li \<le> length lns"
  shows "\<exists>us. reps = acc @ us \<and> list_all2 (chunk_placed lns) cs us \<and>
    (\<forall>r \<in> set us. fst r + fst (snd r) \<le> length lns)"
  using assms
proof (induction cs arbitrary: li acc)
  case (Cons c cs)
  then obtain li' where li': "locate_context lns path c li = Inr li'"
    by (auto split: sum.splits)
  have le: "li' \<le> length lns" using locate_context_le [OF li' Cons.prems(2)] by simp
  show ?case
  proof (cases "old_lines c = []")
    case True
    let ?r = "(insertion_idx lns, 0, new_lines c)"
    from Cons.prems(1) li' True have "compute_loop lns path cs li' (acc @ [?r]) = Inr reps" by simp
    from Cons.IH [OF this le] obtain us where "reps = acc @ ?r # us" "list_all2 (chunk_placed lns) cs us"
      "\<forall>r \<in> set us. fst r + fst (snd r) \<le> length lns" by auto
    moreover have "chunk_placed lns c ?r" using True by (simp add: chunk_placed_def)
    ultimately show ?thesis using insertion_idx_le by fastforce
  next
    case False
    then obtain i n new where r: "locate_old_lines lns c li' = Some (i, n, new)"
      "compute_loop lns path cs (i + n) (acc @ [(i, n, new)]) = Inr reps"
      using Cons.prems(1) li' by (auto split: option.splits)
    have p: "chunk_placed lns c (i, n, new)" "i + n \<le> length lns"
      using locate_old_lines_placed [OF r(1) le False] by auto
    from Cons.IH [OF r(2) p(2)] p show ?thesis by fastforce
  qed
qed simp

subsection \<open>Order of the replacements\<close>

text \<open>
  \<open>before\<close> is the order the loop gives the replacements in: each ends before the next
  begins, except that an insertion at the end of the file may be followed by anything.
\<close>

abbreviation rep_ends_before :: "nat \<times> nat \<times> 'a list \<Rightarrow> nat \<times> nat \<times> 'a list \<Rightarrow> bool" where
  "rep_ends_before r q \<equiv> fst r + fst (snd r) \<le> fst q"

lemma insort_key_disjoint:
  assumes "sorted_wrt rep_ends_before qs"
    and "\<forall>q \<in> set qs. rep_ends_before r q \<or> fst r = len"
    and "\<forall>q \<in> set (r # qs). fst q + fst (snd q) \<le> len"
  shows "sorted_wrt rep_ends_before (insort_key fst r qs)"
  using assms
proof (induction qs)
  case (Cons q qs)
  show ?case
  proof (cases "fst r \<le> fst q")
    case True
    have "rep_ends_before r p" if "p \<in> set (q # qs)" for p
    proof -
      have "fst q \<le> fst p" using Cons.prems(1) that by (auto intro: add_leD1)
      with True Cons.prems(2,3) that show ?thesis by force
    qed
    with True Cons.prems(1) show ?thesis by simp
  next
    case False
    then have "fst r = len" using Cons.prems(2) by auto
    then have "rep_ends_before q p" if "p \<in> set (insort_key fst r qs)" for p
      using that Cons.prems(1,3) by (auto simp: set_insort_key)
    with False Cons show ?thesis by simp
  qed
qed simp

lemma sort_key_disjoint:
  assumes "sorted_wrt (\<lambda>r q. rep_ends_before r q \<or> fst r = len) us"
    and "\<forall>q \<in> set us. fst q + fst (snd q) \<le> len"
  shows "sorted_wrt rep_ends_before (sort_key fst us)"
  using assms
proof (induction us)
  case (Cons u us)
  then show ?case by (auto simp: insort_key_disjoint [where len = len])
qed simp

lemma disjoint_from_sorted_wrt:
  assumes "sorted_wrt rep_ends_before us" "\<forall>q \<in> set us. fst q + fst (snd q) \<le> len"
    "pos \<le> len" "\<forall>q \<in> set us. pos \<le> fst q"
  shows "disjoint_from pos len us"
  using assms by (induction pos len us rule: disjoint_from.induct) auto

definition orderly :: "rstring list \<Rightarrow> update_file_chunk list \<Rightarrow> bool" where
  "orderly lns chunks \<longleftrightarrow>
     (\<forall>c \<in> set chunks. \<not> is_end_of_file c) \<and>
     (last_is_empty lns \<longrightarrow> (\<forall>c \<in> set chunks. old_lines c \<noteq> []))"

lemma compute_loop_ordered:
  assumes "compute_loop lns path cs li acc = Inr (acc @ us)" "li \<le> length lns" "orderly lns cs"
  shows "sorted_wrt (\<lambda>r q. rep_ends_before r q \<or> fst r = length lns) us \<and> (\<forall>u \<in> set us. li \<le> fst u)"
  using assms
proof (induction cs arbitrary: li acc us)
  case (Cons c cs)
  then obtain li' where li': "locate_context lns path c li = Inr li'"
    by (auto split: sum.splits)
  have le: "li \<le> li'" "li' \<le> length lns" using locate_context_le [OF li' Cons.prems(2)] by simp_all
  have oc: "orderly lns cs" "\<not> is_end_of_file c" using Cons.prems(3) by (auto simp: orderly_def)
  show ?case
  proof (cases "old_lines c = []")
    case True
    then have idx: "insertion_idx lns = length lns"
      using Cons.prems(3) by (auto simp: insertion_idx_def orderly_def)
    let ?r = "(insertion_idx lns, 0::nat, new_lines c)"
    from Cons.prems(1) li' True have e: "compute_loop lns path cs li' (acc @ [?r]) = Inr (acc @ us)" by simp
    then obtain us' where us: "us = ?r # us'" using compute_loop_placed [OF e le(2)] by auto
    with e have "compute_loop lns path cs li' (acc @ [?r]) = Inr ((acc @ [?r]) @ us')" by simp
    from Cons.IH [OF this le(2) oc(1)] us idx le show ?thesis by auto
  next
    case False
    then obtain i n new where r: "locate_old_lines lns c li' = Some (i, n, new)"
      "compute_loop lns path cs (i + n) (acc @ [(i, n, new)]) = Inr (acc @ us)"
      using Cons.prems(1) li' by (auto split: option.splits)
    have p: "i + n \<le> length lns" "li' \<le> i"
      using locate_old_lines_placed [OF r(1) le(2) False] oc(2) by auto
    obtain us' where us: "us = (i, n, new) # us'" using compute_loop_placed [OF r(2) p(1)] by auto
    with r(2) have "compute_loop lns path cs (i + n) (acc @ [(i, n, new)]) = Inr ((acc @ [(i, n, new)]) @ us')"
      by simp
    from Cons.IH [OF this p(1) oc(1)] us p le show ?thesis by force
  qed
qed simp

lemma compute_replacements_disjoint:
  assumes "compute_replacements lns path chunks = Inr reps" "orderly lns chunks"
  shows "disjoint_from 0 (length lns) reps"
proof -
  obtain us where us: "compute_loop lns path chunks 0 [] = Inr us" "reps = sort_key fst us"
    using assms(1) by (auto simp: compute_replacements_def split: sum.splits)
  have "\<forall>r \<in> set us. fst r + fst (snd r) \<le> length lns"
    using compute_loop_placed [OF us(1)] by auto
  moreover have "sorted_wrt (\<lambda>r q. rep_ends_before r q \<or> fst r = length lns) us"
    using compute_loop_ordered [of lns path chunks 0 "[]" us] us(1) assms(2) by simp
  ultimately show ?thesis
    using us(2) by (intro disjoint_from_sorted_wrt) (auto intro!: sort_key_disjoint)
qed

subsection \<open>Joining the lines\<close>

definition canonical_end :: "rstring \<Rightarrow> rstring" where
  "canonical_end contents =
     (if contents = [LF] \<or> ends_with [LF, LF] contents then butlast contents
      else if contents = [] \<or> ends_with [LF] contents then contents
      else contents @ [LF])"

lemma ends_with_LF: "ends_with [d] s \<longleftrightarrow> s \<noteq> [] \<and> last s = d"
  by (cases s rule: rev_cases) (auto simp: ends_with_def starts_with_def)

lemma ends_with_LF_LF: "ends_with [d, d] s \<longleftrightarrow> (\<exists>t. s = t @ [d, d])"
proof (cases s rule: rev_cases)
  case (snoc t c)
  then show ?thesis
    by (cases t rule: rev_cases) (auto simp: ends_with_def starts_with_def)
qed (simp add: ends_with_def starts_with_def)

lemma split_original_snoc: "split_original (s @ [LF]) = split_on LF s"
  by (simp add: split_original_def split_on_snoc last_is_empty_def)

lemma join_new_split_original: "join_new (split_original contents) = canonical_end contents"
proof (cases contents rule: rev_cases)
  case Nil
  then show ?thesis
    by (simp add: split_original_def last_is_empty_def join_new_def canonical_end_def)
next
  case (snoc s c)
  show ?thesis
  proof (cases "c = LF")
    case True
    have "join_new (split_on LF s) = (if s = [] \<or> last s = LF then s else s @ [LF])"
      using last_split_on [of LF s] by (simp add: join_new_def last_is_empty_def join_snoc_Nil)
    moreover have "(s = [] \<or> last s = LF) \<longleftrightarrow> contents = [LF] \<or> ends_with [LF, LF] contents"
      using snoc True by (cases s rule: rev_cases) (auto simp: ends_with_LF_LF)
    ultimately show ?thesis
      using snoc True split_original_snoc [of s] by (auto simp: canonical_end_def ends_with_LF)
  next
    case False
    then have "split_original contents = split_on LF contents"
      using snoc last_split_on [of LF contents] by (simp add: split_original_def last_is_empty_def)
    moreover have "join_new (split_on LF contents) = contents @ [LF]"
      using snoc False last_split_on [of LF contents] by (simp add: join_new_def last_is_empty_def join_snoc_Nil)
    ultimately show ?thesis using snoc False by (auto simp: canonical_end_def ends_with_LF ends_with_LF_LF)
  qed
qed

lemma join_new_end: "join_new ls = [] \<or> last (join_new ls) = LF"
proof -
  have "\<exists>xs. join_new ls = join [LF] (xs @ [[]])"
    using last_is_empty_snoc [of ls] by (metis join_new_def)
  then obtain xs where "join_new ls = join [LF] (xs @ [[]])" by blast
  then show ?thesis by (cases "xs = []") (simp_all add: join_snoc_Nil)
qed

lemma compute_replacements_sorted:
  assumes "compute_replacements lns path chunks = Inr reps"
  shows "sorted (map fst reps) \<and> (\<forall>r \<in> set reps. fst r + fst (snd r) \<le> length lns)"
  using assms compute_loop_placed [of lns path chunks 0 "[]"]
  by (auto simp: compute_replacements_def split: sum.splits)

subsection \<open>Properties\<close>

text \<open>
  C11. Deriving the new contents of a file never panics: whatever the file and the chunks,
  the indices handed to \<^verbatim>\<open>Vec::insert\<close> are in range, also when replacements
  overlap.
\<close>

theorem derive_new_contents_no_panic:
  "derive_new_contents_from_chunks read path_text chunks \<noteq> Inl Panic"
proof (cases read)
  case (Inr contents)
  let ?lns = "split_original contents"
  have "compute_loop lns path cs li acc \<noteq> Inl Panic" for lns path cs li acc
    by (induction cs arbitrary: li acc)
      (auto simp: locate_context_def split: sum.splits option.splits)
  then have "compute_replacements ?lns path_text chunks \<noteq> Inl Panic"
    by (auto simp: compute_replacements_def split: sum.splits)
  moreover have "apply_replacements ?lns reps \<noteq> None"
    if "compute_replacements ?lns path_text chunks = Inr reps" for reps
    using compute_replacements_sorted [OF that] apply_replacements_total [of reps ?lns]
    by (fastforce intro: add_leD1)
  ultimately show ?thesis
    using Inr by (auto simp: derive_new_contents_from_chunks_def Let_def split: sum.splits option.splits)
qed (simp add: derive_new_contents_from_chunks_def)

text \<open>
  When the computation succeeds, the replacements are, up to order, one per chunk:
  a chunk with old lines covers a block of the file that equals its old lines up to
  whitespace and punctuation (or, if only that can be found, its old lines without a final
  empty one), a chunk without old lines inserts at the end of the file, and they are
  returned by ascending start.
\<close>

lemma compute_replacements_places_chunks:
  assumes "compute_replacements lns path chunks = Inr reps"
  shows "sorted (map fst reps) \<and>
    (\<exists>us. mset us = mset reps \<and> list_all2 (chunk_placed lns) chunks us)"
proof -
  obtain us where "compute_loop lns path chunks 0 [] = Inr us" "mset us = mset reps"
    using assms by (auto simp: compute_replacements_def split: sum.splits)
  with compute_loop_placed [of lns path chunks 0 "[]" us] compute_replacements_sorted [OF assms]
  show ?thesis by auto
qed


text \<open>
  C8. For chunks without the end-of-file flag (and, when the file ends with an empty line,
  without pure insertions) the edited file is the forward splice of disjoint
  replacements, one per chunk: every line outside the replaced blocks survives, in order,
  and every block is replaced by exactly the new lines.
\<close>

theorem derive_new_contents_splices:
  assumes "derive_new_contents_from_chunks (Inr contents) path_text chunks = Inr ap"
    and "orderly (split_original contents) chunks"
  shows "\<exists>reps us. mset us = mset reps \<and> list_all2 (chunk_placed (split_original contents)) chunks us \<and>
    disjoint_from 0 (length (split_original contents)) reps \<and>
    original_contents ap = contents \<and>
    new_contents ap = join_new (splice 0 (split_original contents) reps)"
proof -
  let ?lns = "split_original contents"
  obtain reps new where r: "compute_replacements ?lns path_text chunks = Inr reps"
    "apply_replacements ?lns reps = Some new"
    "ap = \<lparr>original_contents = contents, new_contents = join_new new\<rparr>"
    using assms(1)
    by (auto simp: derive_new_contents_from_chunks_def Let_def split: sum.splits option.splits)
  have d: "disjoint_from 0 (length ?lns) reps" by (rule compute_replacements_disjoint [OF r(1) assms(2)])
  obtain us where "compute_loop ?lns path_text chunks 0 [] = Inr us" "mset us = mset reps"
    using r(1) by (auto simp: compute_replacements_def split: sum.splits)
  with compute_loop_placed [of ?lns path_text chunks 0 "[]" us] apply_replacements_prefix [OF d] r d
  show ?thesis by auto
qed

definition ex_chunk :: "string \<Rightarrow> string \<Rightarrow> bool \<Rightarrow> update_file_chunk" where
  "ex_chunk old new eof =
     \<lparr>change_context = None, old_lines = (if old = [] then [] else [str old]),
      new_lines = [str new], is_end_of_file = eof\<rparr>"

theorem derive_new_contents_splices_witness:
  "\<exists>ap. derive_new_contents_from_chunks (Inr (str ''a'' @ [LF] @ str ''b'' @ [LF])) [] [ex_chunk ''b'' ''c'' False] = Inr ap \<and>
     original_contents ap = str ''a'' @ [LF] @ str ''b'' @ [LF] \<and> new_contents ap = str ''a'' @ [LF] @ str ''c'' @ [LF]"
proof -
  let ?ap = "\<lparr>original_contents = str ''a'' @ [LF] @ str ''b'' @ [LF], new_contents = str ''a'' @ [LF] @ str ''c'' @ [LF]\<rparr>"
  have d: "derive_new_contents_from_chunks (Inr (str ''a'' @ [LF] @ str ''b'' @ [LF])) [] [ex_chunk ''b'' ''c'' False] = Inr ?ap"
    by code_simp
  have "orderly (split_original (str ''a'' @ [LF] @ str ''b'' @ [LF])) [ex_chunk ''b'' ''c'' False]"
    by (simp add: orderly_def ex_chunk_def)
  from derive_new_contents_splices [OF d this] d show ?thesis by auto
qed

text \<open>
  What an update leaves at the end of a file: the new contents are empty or end with a
  newline; with no chunks the file keeps its text, a missing final newline is added, and a
  file that ends with an empty line loses that line.
\<close>

lemma derive_new_contents_file_end:
  "(derive_new_contents_from_chunks read path_text chunks = Inr ap \<longrightarrow>
     new_contents ap = [] \<or> last (new_contents ap) = LF)
   \<and> derive_new_contents_from_chunks (Inr contents) path_text [] =
       Inr \<lparr>original_contents = contents, new_contents = canonical_end contents\<rparr>"
proof (intro conjI impI)
  assume "derive_new_contents_from_chunks read path_text chunks = Inr ap"
  then obtain ls where "new_contents ap = join_new ls"
    by (auto simp: derive_new_contents_from_chunks_def Let_def split: sum.splits option.splits)
  then show "new_contents ap = [] \<or> last (new_contents ap) = LF" using join_new_end by simp
qed (simp add: derive_new_contents_from_chunks_def compute_replacements_def apply_replacements_def
      Let_def join_new_split_original)


subsection \<open>Replacements that overlap\<close>

text \<open>
  An end-of-file chunk is looked for at the end of the file only, whatever the chunks
  before it already replaced; its new lines are then removed again with the block of the
  earlier chunk. A pure insertion before a final empty line that an earlier chunk
  replaces loses its first line the same way, and a file that ends with an empty line
  loses it in every update.
\<close>

lemma overlapping_eof_chunk_is_lost:
  "derive_new_contents_from_chunks (Inr (str ''a'' @ [LF] @ str ''b'' @ [LF])) []
     [\<lparr>change_context = None, old_lines = [str ''a'', str ''b''], new_lines = [str ''x''], is_end_of_file = False\<rparr>,
      ex_chunk ''b'' ''y'' True]
   = Inr \<lparr>original_contents = str ''a'' @ [LF] @ str ''b'' @ [LF], new_contents = str ''x'' @ [LF]\<rparr>"
  by code_simp

lemma insertion_before_replaced_blank_is_lost:
  "derive_new_contents_from_chunks (Inr (str ''a'' @ [LF, LF])) []
     [\<lparr>change_context = None, old_lines = [str ''a'', []], new_lines = [str ''x''], is_end_of_file = False\<rparr>,
      ex_chunk [] ''y'' False]
   = Inr \<lparr>original_contents = str ''a'' @ [LF, LF], new_contents = str ''x'' @ [LF]\<rparr>"
  by code_simp

lemma trailing_blank_line_is_dropped:
  "derive_new_contents_from_chunks (Inr (str ''x'' @ [LF, LF])) [] [ex_chunk ''x'' ''y'' False]
   = Inr \<lparr>original_contents = str ''x'' @ [LF, LF], new_contents = str ''y'' @ [LF]\<rparr>"
  by code_simp

end
