(* ===== verification/File_System.thy ===== *)
theory File_System
  imports Patch_Types
begin

section \<open>The executor file system\<close>

text \<open>
  The operations of the trait \<^verbatim>\<open>ExecutorFileSystem\<close> (file-system/src/lib.rs) that the
  apply-patch crate calls, as a record of functions on a file system state, and the part
  of \<^verbatim>\<open>PathUri\<close> it uses. A mutating operation returns the new state also when it fails.
  The locale states what clients rely on, over a view of the state: which paths hold a
  regular UTF-8 text, which hold none, and which hold something a text cannot describe.
\<close>

record file_metadata =
  is_directory :: bool
  is_file :: bool
  is_symlink :: bool

record ('s, 'p) executor_fs =
  read_file_text :: "'s \<Rightarrow> 'p \<Rightarrow> (io_error, rstring) result"
  write_file :: "'s \<Rightarrow> 'p \<Rightarrow> rstring \<Rightarrow> 's \<times> io_error option"
  create_directory_all :: "'s \<Rightarrow> 'p \<Rightarrow> 's \<times> io_error option"
  get_metadata :: "'s \<Rightarrow> 'p \<Rightarrow> (io_error, file_metadata) result"
  remove_entry :: "'s \<Rightarrow> 'p \<Rightarrow> 's \<times> io_error option"

record 'p path_ops =
  join_path :: "'p \<Rightarrow> rstring \<Rightarrow> (rstring, 'p) result"
  parent_path :: "'p \<Rightarrow> 'p option"
  native_path_string :: "'p \<Rightarrow> rstring"

datatype file_view = NoFile | Text rstring | Opaque

definition view_of_text :: "rstring option \<Rightarrow> file_view" where
  "view_of_text t = (case t of None \<Rightarrow> NoFile | Some s \<Rightarrow> Text s)"

lemma view_of_text_simps [simp]: "view_of_text None = NoFile" "view_of_text (Some t) = Text t"
  by (simp_all add: view_of_text_def)

locale file_system =
  fixes fs :: "('s, 'p) executor_fs"
    and ok :: "'s \<Rightarrow> bool"
    and view :: "'s \<Rightarrow> 'p \<Rightarrow> file_view"
  assumes read_text: "ok s \<Longrightarrow> read_file_text fs s p = Inr t \<Longrightarrow> view s p = Text t"
    and read_not_found: "ok s \<Longrightarrow> read_file_text fs s p = Inl e \<Longrightarrow> io_kind e = NotFound \<Longrightarrow> view s p = NoFile"
    and write_ok: "ok s \<Longrightarrow> write_file fs s p t = (s', None) \<Longrightarrow> view s' = (view s)(p := Text t)"
    and write_not_found:
      "ok s \<Longrightarrow> write_file fs s p t = (s', Some e) \<Longrightarrow> io_kind e = NotFound \<Longrightarrow> view s' = view s"
    and write_frame: "ok s \<Longrightarrow> write_file fs s p t = (s', r) \<Longrightarrow> q \<noteq> p \<Longrightarrow> view s' q = view s q"
    and create_view: "ok s \<Longrightarrow> create_directory_all fs s p = (s', r) \<Longrightarrow> view s' = view s"
    and remove_ok: "ok s \<Longrightarrow> remove_entry fs s p = (s', None) \<Longrightarrow> view s' = (view s)(p := NoFile)"
    and remove_frame: "ok s \<Longrightarrow> remove_entry fs s p = (s', r) \<Longrightarrow> q \<noteq> p \<Longrightarrow> view s' q = view s q"
    and ok_write: "ok s \<Longrightarrow> ok (fst (write_file fs s p t))"
    and ok_create: "ok s \<Longrightarrow> ok (fst (create_directory_all fs s p))"
    and ok_remove: "ok s \<Longrightarrow> ok (fst (remove_entry fs s p))"

end
