(* ===== verification/Apply_Patch.thy ===== *)
theory Apply_Patch
  imports Replacements Patch_Parser File_System
begin

section \<open>Applying a patch to a file system\<close>

text \<open>
  apply-patch/src/lib.rs from \<^verbatim>\<open>ApplyPatchError\<close> to \<^verbatim>\<open>write_file_with_missing_parent_retry\<close>:
  every hunk reads and writes through the file system interface, and the changes made are
  recorded in a delta that says whether it is an exact account of them. The \<^verbatim>\<open>&mut delta\<close>
  argument is returned next to the file system state, also on the error paths.
\<close>

subsection \<open>Errors\<close>

definition display_parse_error :: "parse_error \<Rightarrow> rstring" where
  "display_parse_error e =
     (case e of
        InvalidPatchError m \<Rightarrow> str ''invalid patch: '' @ m
      | InvalidHunkError m n \<Rightarrow> str ''invalid hunk at line '' @ dec n @ str '', '' @ m)"

definition display_patch_error :: "apply_patch_error \<Rightarrow> rstring" where
  "display_patch_error e =
     (case e of
        ParseError pe \<Rightarrow> display_parse_error pe
      | IoError ctx io \<Rightarrow> ctx @ str '': '' @ io_message io
      | ComputeReplacements m \<Rightarrow> m
      | PathUriError m \<Rightarrow> m
      | ImplicitInvocation \<Rightarrow>
          str ''patch detected without explicit call to apply_patch. Rerun as ['' @ [34] @ str ''apply_patch''
          @ [34] @ str '', '' @ [34] @ str ''<patch>'' @ [34] @ str '']''
      | Panic \<Rightarrow> [])"

text \<open>An \<^verbatim>\<open>anyhow::Error\<close>: an I/O error under an optional context, a patch error, a path
  error or a message.\<close>

datatype anyhow_error =
    AnyhowIo "rstring option" io_error
  | AnyhowPatch apply_patch_error
  | AnyhowUri rstring
  | AnyhowMsg rstring

definition anyhow_to_string :: "anyhow_error \<Rightarrow> rstring" where
  "anyhow_to_string e =
     (case e of
        AnyhowIo (Some ctx) _ \<Rightarrow> ctx
      | AnyhowIo None io \<Rightarrow> io_message io
      | AnyhowPatch pe \<Rightarrow> display_patch_error pe
      | AnyhowUri m \<Rightarrow> m
      | AnyhowMsg m \<Rightarrow> m)"

subsection \<open>Deltas\<close>

datatype 'p applied_file_change =
    AppliedAdd rstring "rstring option"
  | AppliedDelete rstring
  | AppliedUpdate "'p option" rstring "rstring option" rstring

record 'p applied_patch_change =
  change_path :: 'p
  file_change :: "'p applied_file_change"

record 'p applied_patch_delta =
  changes :: "'p applied_patch_change list"
  exact :: bool

definition delta_empty :: "'p applied_patch_delta" where
  "delta_empty = \<lparr>changes = [], exact = True\<rparr>"

definition delta_append :: "'p applied_patch_delta \<Rightarrow> 'p applied_patch_delta \<Rightarrow> 'p applied_patch_delta" where
  "delta_append d d' = \<lparr>changes = changes d @ changes d', exact = (exact d \<and> exact d')\<rparr>"

definition push_change :: "'p \<Rightarrow> 'p applied_file_change \<Rightarrow> 'p applied_patch_delta \<Rightarrow> 'p applied_patch_delta" where
  "push_change p c d = d\<lparr>changes := changes d @ [\<lparr>change_path = p, file_change = c\<rparr>]\<rparr>"

definition inexact :: "'p applied_patch_delta \<Rightarrow> 'p applied_patch_delta" where
  "inexact d = d\<lparr>exact := False\<rparr>"

record affected_paths =
  added :: "rstring list"
  modified :: "rstring list"
  deleted :: "rstring list"

subsection \<open>File system helpers\<close>

definition ensure_not_directory :: "('s, 'p) executor_fs \<Rightarrow> 's \<Rightarrow> 'p \<Rightarrow> io_error option" where
  "ensure_not_directory fs s p =
     (case get_metadata fs s p of
        Inl e \<Rightarrow> Some e
      | Inr m \<Rightarrow>
          if is_directory m then Some \<lparr>io_kind = InvalidInput, io_message = str ''path is a directory''\<rparr>
          else None)"

definition remove_failure_was_side_effect_free ::
  "('s, 'p) executor_fs \<Rightarrow> 's \<Rightarrow> 'p \<Rightarrow> rstring option \<Rightarrow> bool" where
  "remove_failure_was_side_effect_free fs s p expected =
     (case expected of
        Some t \<Rightarrow> (case read_file_text fs s p of Inr content \<Rightarrow> content = t | Inl _ \<Rightarrow> False)
      | None \<Rightarrow> False)"

definition note_existing_path_delta_support ::
  "('s, 'p) executor_fs \<Rightarrow> 's \<Rightarrow> 'p \<Rightarrow> 'p applied_patch_delta \<Rightarrow> 'p applied_patch_delta" where
  "note_existing_path_delta_support fs s p d =
     (case get_metadata fs s p of
        Inr m \<Rightarrow> if is_file m \<and> \<not> is_symlink m then d else inexact d
      | Inl e \<Rightarrow> if io_kind e = NotFound then d else inexact d)"

definition read_optional_file_text_for_delta ::
  "('s, 'p) executor_fs \<Rightarrow> 's \<Rightarrow> 'p \<Rightarrow> 'p applied_patch_delta \<Rightarrow> rstring option \<times> 'p applied_patch_delta" where
  "read_optional_file_text_for_delta fs s p d =
     (let d' = note_existing_path_delta_support fs s p d in
      case read_file_text fs s p of
        Inr content \<Rightarrow> (Some content, d')
      | Inl e \<Rightarrow> if io_kind e = NotFound then (None, d') else (None, inexact d'))"

definition write_file_with_missing_parent_retry ::
  "('s, 'p) executor_fs \<Rightarrow> 'p path_ops \<Rightarrow> 's \<Rightarrow> 'p \<Rightarrow> rstring \<Rightarrow> 's \<times> anyhow_error option" where
  "write_file_with_missing_parent_retry fs po s p contents =
     (let failed_write = AnyhowIo (Some (str ''Failed to write file '' @ native_path_string po p)) in
      case write_file fs s p contents of
        (s1, None) \<Rightarrow> (s1, None)
      | (s1, Some e) \<Rightarrow>
          if io_kind e = NotFound then
            (case (case parent_path po p of
                     Some parent \<Rightarrow> create_directory_all fs s1 parent
                   | None \<Rightarrow> (s1, None)) of
               (s2, Some e2) \<Rightarrow>
                 (s2, Some (AnyhowIo (Some (str ''Failed to create parent directories for ''
                                             @ native_path_string po p)) e2))
             | (s2, None) \<Rightarrow>
                 (case write_file fs s2 p contents of
                    (s3, None) \<Rightarrow> (s3, None)
                  | (s3, Some e3) \<Rightarrow> (s3, Some (failed_write e3))))
          else (s1, Some (failed_write e)))"

subsection \<open>apply\_hunks\_to\_files\<close>

text \<open>The arms of the match in \<^verbatim>\<open>apply_hunks_to_files\<close>; each returns the file system, the delta
  and an error, or none when the hunk was applied.\<close>

definition apply_add ::
  "('s, 'p) executor_fs \<Rightarrow> 'p path_ops \<Rightarrow> 's \<Rightarrow> 'p applied_patch_delta \<Rightarrow> 'p \<Rightarrow> rstring
    \<Rightarrow> 's \<times> 'p applied_patch_delta \<times> anyhow_error option" where
  "apply_add fs po s d p contents =
     (let (overwritten, d1) = read_optional_file_text_for_delta fs s p d in
      case write_file_with_missing_parent_retry fs po s p contents of
        (s', Some e) \<Rightarrow> (s', inexact d1, Some e)
      | (s', None) \<Rightarrow> (s', push_change p (AppliedAdd contents overwritten) d1, None))"

definition remove_checked ::
  "('s, 'p) executor_fs \<Rightarrow> 's \<Rightarrow> 'p applied_patch_delta \<Rightarrow> 'p \<Rightarrow> rstring option \<Rightarrow> rstring
    \<Rightarrow> 's \<times> 'p applied_patch_delta \<times> anyhow_error option" where
  "remove_checked fs s d p expected ctx =
     (case ensure_not_directory fs s p of
        Some e \<Rightarrow> (s, d, Some (AnyhowIo (Some ctx) e))
      | None \<Rightarrow>
          (case remove_entry fs s p of
             (s', Some e) \<Rightarrow>
               (s', d\<lparr>exact := exact d \<and> remove_failure_was_side_effect_free fs s' p expected\<rparr>,
                Some (AnyhowIo (Some ctx) e))
           | (s', None) \<Rightarrow> (s', d, None)))"

definition apply_delete ::
  "('s, 'p) executor_fs \<Rightarrow> 'p path_ops \<Rightarrow> 's \<Rightarrow> 'p applied_patch_delta \<Rightarrow> 'p
    \<Rightarrow> 's \<times> 'p applied_patch_delta \<times> anyhow_error option" where
  "apply_delete fs po s d p =
     (let d1 = note_existing_path_delta_support fs s p d;
          deleted_content = (case read_file_text fs s p of Inr t \<Rightarrow> Some t | Inl _ \<Rightarrow> None);
          d2 = (if deleted_content = None then inexact d1 else d1)
      in case remove_checked fs s d2 p deleted_content
                (str ''Failed to delete file '' @ native_path_string po p) of
           (s', d3, Some e) \<Rightarrow> (s', d3, Some e)
         | (s', d3, None) \<Rightarrow>
             (s', (case deleted_content of
                     Some t \<Rightarrow> push_change p (AppliedDelete t) d3
                   | None \<Rightarrow> d3), None))"

definition apply_move ::
  "('s, 'p) executor_fs \<Rightarrow> 'p path_ops \<Rightarrow> 's \<Rightarrow> 'p applied_patch_delta \<Rightarrow> 'p \<Rightarrow> 'p \<Rightarrow> applied_patch
    \<Rightarrow> 's \<times> 'p applied_patch_delta \<times> anyhow_error option" where
  "apply_move fs po s d p dest ap =
     (let (overwritten, d1) = read_optional_file_text_for_delta fs s dest d in
      case write_file_with_missing_parent_retry fs po s dest (new_contents ap) of
        (s1, Some e) \<Rightarrow> (s1, inexact d1, Some e)
      | (s1, None) \<Rightarrow>
          (let index = length (changes d1);
               d2 = push_change dest (AppliedAdd (new_contents ap) overwritten) d1
           in case remove_checked fs s1 d2 p (Some (original_contents ap))
                     (str ''Failed to remove original '' @ native_path_string po p) of
                (s2, d3, Some e) \<Rightarrow> (s2, d3, Some e)
              | (s2, d3, None) \<Rightarrow>
                  (s2, d3\<lparr>changes := (changes d3)[index :=
                     \<lparr>change_path = p, file_change =
                        AppliedUpdate (Some dest) (original_contents ap) overwritten (new_contents ap)\<rparr>]\<rparr>, None)))"

definition apply_update_in_place ::
  "('s, 'p) executor_fs \<Rightarrow> 'p path_ops \<Rightarrow> 's \<Rightarrow> 'p applied_patch_delta \<Rightarrow> 'p \<Rightarrow> applied_patch
    \<Rightarrow> 's \<times> 'p applied_patch_delta \<times> anyhow_error option" where
  "apply_update_in_place fs po s d p ap =
     (case write_file fs s p (new_contents ap) of
        (s', Some e) \<Rightarrow>
          (s', inexact d, Some (AnyhowIo (Some (str ''Failed to write file '' @ native_path_string po p)) e))
      | (s', None) \<Rightarrow>
          (s', push_change p (AppliedUpdate None (original_contents ap) None (new_contents ap)) d, None))"

definition apply_update ::
  "('s, 'p) executor_fs \<Rightarrow> 'p path_ops \<Rightarrow> 'p \<Rightarrow> 's \<Rightarrow> 'p applied_patch_delta \<Rightarrow> 'p \<Rightarrow> rstring option
    \<Rightarrow> update_file_chunk list \<Rightarrow> 's \<times> 'p applied_patch_delta \<times> anyhow_error option" where
  "apply_update fs po cwd s d p move_path chunks =
     (let d1 = note_existing_path_delta_support fs s p d in
      case derive_new_contents_from_chunks (read_file_text fs s p) (native_path_string po p) chunks of
        Inl e \<Rightarrow> (s, d1, Some (AnyhowPatch e))
      | Inr ap \<Rightarrow>
          (case move_path of
             Some dest \<Rightarrow>
               (case join_path po cwd dest of
                  Inl e \<Rightarrow> (s, d1, Some (AnyhowUri e))
                | Inr dest_uri \<Rightarrow> apply_move fs po s d1 p dest_uri ap)
           | None \<Rightarrow> apply_update_in_place fs po s d1 p ap))"

definition resolve_path :: "'p path_ops \<Rightarrow> hunk \<Rightarrow> 'p \<Rightarrow> (rstring, 'p) result" where
  "resolve_path po h cwd = join_path po cwd (hunk_source_path h)"

definition apply_hunk ::
  "('s, 'p) executor_fs \<Rightarrow> 'p path_ops \<Rightarrow> 'p \<Rightarrow> hunk \<Rightarrow> 's \<Rightarrow> 'p applied_patch_delta
    \<Rightarrow> 's \<times> 'p applied_patch_delta \<times> anyhow_error option" where
  "apply_hunk fs po cwd h s d =
     (case resolve_path po h cwd of
        Inl e \<Rightarrow> (s, d, Some (AnyhowUri e))
      | Inr p \<Rightarrow>
          (case h of
             AddFile _ contents \<Rightarrow> apply_add fs po s d p contents
           | DeleteFile _ \<Rightarrow> apply_delete fs po s d p
           | UpdateFile _ mv chunks \<Rightarrow> apply_update fs po cwd s d p mv chunks))"

definition note_affected :: "hunk \<Rightarrow> affected_paths \<Rightarrow> affected_paths" where
  "note_affected h a =
     (case h of
        AddFile _ _ \<Rightarrow> a\<lparr>added := added a @ [hunk_path h]\<rparr>
      | DeleteFile _ \<Rightarrow> a\<lparr>deleted := deleted a @ [hunk_path h]\<rparr>
      | UpdateFile _ _ _ \<Rightarrow> a\<lparr>modified := modified a @ [hunk_path h]\<rparr>)"

fun apply_hunks_loop ::
  "('s, 'p) executor_fs \<Rightarrow> 'p path_ops \<Rightarrow> 'p \<Rightarrow> hunk list \<Rightarrow> affected_paths \<Rightarrow> 's \<Rightarrow> 'p applied_patch_delta
    \<Rightarrow> 's \<times> 'p applied_patch_delta \<times> (anyhow_error, affected_paths) result" where
  "apply_hunks_loop fs po cwd [] a s d = (s, d, Inr a)"
| "apply_hunks_loop fs po cwd (h # hs) a s d =
     (case apply_hunk fs po cwd h s d of
        (s', d', Some e) \<Rightarrow> (s', d', Inl e)
      | (s', d', None) \<Rightarrow> apply_hunks_loop fs po cwd hs (note_affected h a) s' d')"

definition apply_hunks_to_files ::
  "('s, 'p) executor_fs \<Rightarrow> 'p path_ops \<Rightarrow> hunk list \<Rightarrow> 'p \<Rightarrow> 's \<Rightarrow> 'p applied_patch_delta
    \<Rightarrow> 's \<times> 'p applied_patch_delta \<times> (anyhow_error, affected_paths) result" where
  "apply_hunks_to_files fs po hs cwd s d =
     (if hs = [] then (s, d, Inl (AnyhowMsg (str ''No files were modified.'')))
      else apply_hunks_loop fs po cwd hs \<lparr>added = [], modified = [], deleted = []\<rparr> s d)"

subsection \<open>apply\_hunks and apply\_patch\<close>

text \<open>A writer is its state and \<^verbatim>\<open>writeln!\<close>, which may fail; \<open>writeln_lines\<close> stops at the first
  failure, as the question mark operator does.\<close>

type_synonym 'w writeln = "'w \<Rightarrow> rstring \<Rightarrow> 'w \<times> io_error option"

fun writeln_lines :: "'w writeln \<Rightarrow> 'w \<Rightarrow> rstring list \<Rightarrow> 'w \<times> io_error option" where
  "writeln_lines wl w [] = (w, None)"
| "writeln_lines wl w (l # ls) =
     (case wl w l of (w', Some e) \<Rightarrow> (w', Some e) | (w', None) \<Rightarrow> writeln_lines wl w' ls)"

definition print_summary :: "'w writeln \<Rightarrow> affected_paths \<Rightarrow> 'w \<Rightarrow> 'w \<times> io_error option" where
  "print_summary wl a out =
     writeln_lines wl out
       ([str ''Success. Updated the following files:''] @ map ((@) (str ''A '')) (added a)
        @ map ((@) (str ''M '')) (modified a) @ map ((@) (str ''D '')) (deleted a))"

definition error_from_io :: "io_error \<Rightarrow> apply_patch_error" where
  "error_from_io e = IoError (str ''I/O error'') e"

record 'p apply_patch_failure =
  failure_error :: apply_patch_error
  failure_delta :: "'p applied_patch_delta"

record ('s, 'w) world =
  file_state :: 's
  stdout :: 'w
  stderr :: 'w

definition error_of_anyhow :: "anyhow_error \<Rightarrow> apply_patch_error" where
  "error_of_anyhow e =
     (case e of
        AnyhowIo _ io \<Rightarrow> error_from_io io
      | _ \<Rightarrow> IoError (anyhow_to_string e) \<lparr>io_kind = OtherIo, io_message = anyhow_to_string e\<rparr>)"

definition apply_hunks ::
  "('s, 'p) executor_fs \<Rightarrow> 'p path_ops \<Rightarrow> 'w writeln \<Rightarrow> hunk list \<Rightarrow> 'p \<Rightarrow> ('s, 'w) world
    \<Rightarrow> ('s, 'w) world \<times> ('p apply_patch_failure, 'p applied_patch_delta) result" where
  "apply_hunks fs po wl hs cwd w =
     (case apply_hunks_to_files fs po hs cwd (file_state w) delta_empty of
        (s, d, Inr affected) \<Rightarrow>
          (case print_summary wl affected (stdout w) of
             (out, Some e) \<Rightarrow>
               (w\<lparr>file_state := s, stdout := out\<rparr>, Inl \<lparr>failure_error = error_from_io e, failure_delta = d\<rparr>)
           | (out, None) \<Rightarrow> (w\<lparr>file_state := s, stdout := out\<rparr>, Inr d))
      | (s, d, Inl error) \<Rightarrow>
          (case wl (stderr w) (anyhow_to_string error) of
             (err, Some e) \<Rightarrow>
               (w\<lparr>file_state := s, stderr := err\<rparr>, Inl \<lparr>failure_error = error_from_io e, failure_delta = d\<rparr>)
           | (err, None) \<Rightarrow>
               (w\<lparr>file_state := s, stderr := err\<rparr>,
                Inl \<lparr>failure_error = error_of_anyhow error, failure_delta = d\<rparr>)))"

definition parse_failure_line :: "parse_error \<Rightarrow> rstring" where
  "parse_failure_line e =
     (case e of
        InvalidPatchError m \<Rightarrow> str ''Invalid patch: '' @ m
      | InvalidHunkError m n \<Rightarrow> str ''Invalid patch hunk on line '' @ dec n @ str '': '' @ m)"

definition apply_patch ::
  "('s, 'p) executor_fs \<Rightarrow> 'p path_ops \<Rightarrow> 'w writeln \<Rightarrow> rstring \<Rightarrow> 'p \<Rightarrow> ('s, 'w) world
    \<Rightarrow> ('s, 'w) world \<times> ('p apply_patch_failure, 'p applied_patch_delta) result" where
  "apply_patch fs po wl patch cwd w =
     (case parse_patch patch of
        Inl pe \<Rightarrow>
          (case wl (stderr w) (parse_failure_line pe) of
             (err, Some e) \<Rightarrow>
               (w\<lparr>stderr := err\<rparr>, Inl \<lparr>failure_error = error_from_io e, failure_delta = delta_empty\<rparr>)
           | (err, None) \<Rightarrow>
               (w\<lparr>stderr := err\<rparr>, Inl \<lparr>failure_error = ParseError pe, failure_delta = delta_empty\<rparr>))
      | Inr args \<Rightarrow> apply_hunks fs po wl (args_hunks args) cwd w)"

end
