(* ===== verification/Local_File_System.thy ===== *)
theory Local_File_System
  imports File_System
begin

section \<open>The local file system\<close>

text \<open>
  \<^verbatim>\<open>DirectFileSystem\<close> of exec-server/src/local_file_system.rs, reached from \<^verbatim>\<open>LOCAL_FS\<close> when no
  sandbox context is given, over a disk: regular files (their text, or none when the bytes
  are not UTF-8), directories and symbolic links, with a limit on the size of a file so that
  writes can fail half way. A path is the list of its components. Path lookup follows
  symbolic links as the operating system does, at most forty times.
\<close>

type_synonym abs_path = "rstring list"

datatype node = RegularFile "rstring option" | Directory | Symlink abs_path

record disk =
  nodes :: "(abs_path \<times> node) list"
  file_size_limit :: nat

definition node_at :: "disk \<Rightarrow> abs_path \<Rightarrow> node option" where
  "node_at d p = (if p = [] then Some Directory else map_of (nodes d) p)"

definition put_node :: "abs_path \<Rightarrow> node \<Rightarrow> disk \<Rightarrow> disk" where
  "put_node p n d = d\<lparr>nodes := (p, n) # nodes d\<rparr>"

definition delete_node :: "abs_path \<Rightarrow> disk \<Rightarrow> disk" where
  "delete_node p d = d\<lparr>nodes := filter (\<lambda>e. fst e \<noteq> p) (nodes d)\<rparr>"

definition os_error :: "io_error_kind \<Rightarrow> string \<Rightarrow> io_error" where
  "os_error k m = \<lparr>io_kind = k, io_message = str m\<rparr>"

definition MAX_SYMLINKS :: nat where
  "MAX_SYMLINKS = 40"

text \<open>The node a path denotes; the last component is followed when \<open>follow\<close> is set.\<close>

function resolve :: "bool \<Rightarrow> disk \<Rightarrow> nat \<Rightarrow> abs_path \<Rightarrow> rstring list \<Rightarrow> abs_path option" where
  "resolve follow d n pre [] = Some pre"
| "resolve follow d n pre (c # cs) =
     (case (if cs = [] \<and> \<not> follow then None else node_at d (pre @ [c])) of
        Some (Symlink target) \<Rightarrow> if n = 0 then None else resolve follow d (n - 1) [] (target @ cs)
      | _ \<Rightarrow> resolve follow d n (pre @ [c]) cs)"
  by pat_completeness auto
termination
  by (relation "measures [\<lambda>(_, _, n, _, _). n, \<lambda>(_, _, _, _, cs). length cs]") auto

definition locate :: "bool \<Rightarrow> disk \<Rightarrow> abs_path \<Rightarrow> (io_error, abs_path) result" where
  "locate follow d p =
     (case resolve follow d MAX_SYMLINKS [] p of
        None \<Rightarrow> Inl (os_error OtherIo ''Too many levels of symbolic links'')
      | Some q \<Rightarrow>
          if q = [] then Inr q
          else case node_at d (butlast q) of
            Some Directory \<Rightarrow> Inr q
          | None \<Rightarrow> Inl (os_error NotFound ''No such file or directory'')
          | Some _ \<Rightarrow> Inl (os_error OtherIo ''Not a directory''))"

definition MAX_READ_FILE_BYTES :: nat where
  "MAX_READ_FILE_BYTES = 512 * 1024 * 1024"

definition file_too_large_error :: io_error where
  "file_too_large_error = \<lparr>io_kind = InvalidInput,
     io_message = str ''file is too large to read: limit is '' @ dec MAX_READ_FILE_BYTES @ str '' bytes''\<rparr>"

definition local_read_file_text :: "disk \<Rightarrow> abs_path \<Rightarrow> (io_error, rstring) result" where
  "local_read_file_text d p =
     (case locate True d p of
        Inl e \<Rightarrow> Inl e
      | Inr q \<Rightarrow>
          (case node_at d q of
             None \<Rightarrow> Inl (os_error NotFound ''No such file or directory'')
           | Some (RegularFile (Some t)) \<Rightarrow>
               if MAX_READ_FILE_BYTES < utf8_len t then Inl file_too_large_error else Inr t
           | Some (RegularFile None) \<Rightarrow> Inl (os_error InvalidData ''invalid utf-8 sequence'')
           | Some _ \<Rightarrow> Inl (os_error InvalidInput ''path is not a file'')))"

definition local_write_file :: "disk \<Rightarrow> abs_path \<Rightarrow> rstring \<Rightarrow> disk \<times> io_error option" where
  "local_write_file d p t =
     (case locate True d p of
        Inl e \<Rightarrow> (d, Some e)
      | Inr q \<Rightarrow>
          if node_at d q = Some Directory then (d, Some (os_error OtherIo ''Is a directory''))
          else if file_size_limit d < utf8_len t
          then (put_node q (RegularFile (Some [])) d, Some (os_error OtherIo ''No space left on device''))
          else (put_node q (RegularFile (Some t)) d, None))"

fun make_directories :: "disk \<Rightarrow> abs_path \<Rightarrow> rstring list \<Rightarrow> disk \<times> io_error option" where
  "make_directories d pre [] = (d, None)"
| "make_directories d pre (c # cs) =
     (case node_at d (pre @ [c]) of
        None \<Rightarrow> make_directories (put_node (pre @ [c]) Directory d) (pre @ [c]) cs
      | Some Directory \<Rightarrow> make_directories d (pre @ [c]) cs
      | Some _ \<Rightarrow> (d, Some (os_error OtherIo ''Not a directory'')))"

definition local_create_directory_all :: "disk \<Rightarrow> abs_path \<Rightarrow> disk \<times> io_error option" where
  "local_create_directory_all d p =
     (case resolve True d MAX_SYMLINKS [] p of
        None \<Rightarrow> (d, Some (os_error OtherIo ''Too many levels of symbolic links''))
      | Some q \<Rightarrow> make_directories d [] q)"

definition metadata_of :: "bool \<Rightarrow> node \<Rightarrow> file_metadata" where
  "metadata_of symlink n =
     \<lparr>is_directory = (n = Directory), is_file = (case n of RegularFile _ \<Rightarrow> True | _ \<Rightarrow> False),
      is_symlink = symlink\<rparr>"

definition symlink_metadata :: "bool \<Rightarrow> disk \<Rightarrow> abs_path \<Rightarrow> (io_error, node) result" where
  "symlink_metadata follow d p =
     (case locate follow d p of
        Inl e \<Rightarrow> Inl e
      | Inr q \<Rightarrow>
          (case node_at d q of
             None \<Rightarrow> Inl (os_error NotFound ''No such file or directory'')
           | Some n \<Rightarrow> Inr n))"

definition local_get_metadata :: "disk \<Rightarrow> abs_path \<Rightarrow> (io_error, file_metadata) result" where
  "local_get_metadata d p =
     (case symlink_metadata False d p of
        Inl e \<Rightarrow> Inl e
      | Inr (Symlink _) \<Rightarrow>
          (case symlink_metadata True d p of Inl e \<Rightarrow> Inl e | Inr n \<Rightarrow> Inr (metadata_of True n))
      | Inr n \<Rightarrow> Inr (metadata_of False n))"

definition local_remove :: "disk \<Rightarrow> abs_path \<Rightarrow> disk \<times> io_error option" where
  "local_remove d p =
     (case locate False d p of
        Inl e \<Rightarrow> (d, Some e)
      | Inr q \<Rightarrow>
          (case node_at d q of
             None \<Rightarrow> (d, Some (os_error NotFound ''No such file or directory''))
           | Some Directory \<Rightarrow>
               if q = [] \<or> list_ex (\<lambda>e. fst e \<noteq> [] \<and> butlast (fst e) = q) (nodes d)
               then (d, Some (os_error OtherIo ''Directory not empty''))
               else (delete_node q d, None)
           | Some _ \<Rightarrow> (delete_node q d, None)))"

definition LOCAL_FS :: "(disk, abs_path) executor_fs" where
  "LOCAL_FS = \<lparr>read_file_text = local_read_file_text, write_file = local_write_file,
     create_directory_all = local_create_directory_all, get_metadata = local_get_metadata,
     remove_entry = local_remove\<rparr>"

subsection \<open>Disks without symbolic links implement the interface\<close>

definition no_symlinks :: "disk \<Rightarrow> bool" where
  "no_symlinks d \<longleftrightarrow> list_all (\<lambda>e. case snd e of Symlink _ \<Rightarrow> False | _ \<Rightarrow> True) (nodes d)"

definition disk_view :: "disk \<Rightarrow> abs_path \<Rightarrow> file_view" where
  "disk_view d p =
     (case node_at d p of
        Some (RegularFile (Some t)) \<Rightarrow> Text t
      | Some (RegularFile None) \<Rightarrow> Opaque
      | Some (Symlink _) \<Rightarrow> Opaque
      | _ \<Rightarrow> NoFile)"

lemma node_at_put: "p \<noteq> [] \<Longrightarrow> node_at (put_node p n d) q = (if q = p then Some n else node_at d q)"
  by (simp add: node_at_def put_node_def)

lemma map_of_filter_ne: "map_of (filter (\<lambda>e. fst e \<noteq> p) xs) = (map_of xs)(p := None)"
  by (induction xs) (auto simp: fun_eq_iff)

lemma node_at_delete: "p \<noteq> [] \<Longrightarrow> node_at (delete_node p d) q = (if q = p then None else node_at d q)"
  by (simp add: node_at_def delete_node_def map_of_filter_ne)

lemma no_symlinks_node: "no_symlinks d \<Longrightarrow> node_at d p \<noteq> Some (Symlink t)"
  by (auto simp: no_symlinks_def node_at_def list_all_iff dest!: map_of_SomeD split: if_splits)

lemma no_symlinks_put [simp]: "no_symlinks (put_node p n d) \<longleftrightarrow> no_symlinks d \<and> (\<forall>t. n \<noteq> Symlink t)"
  by (cases n) (auto simp: no_symlinks_def put_node_def)

lemma no_symlinks_delete: "no_symlinks d \<Longrightarrow> no_symlinks (delete_node p d)"
  by (auto simp: no_symlinks_def delete_node_def list_all_iff)

lemma resolve_no_symlinks:
  assumes "no_symlinks d"
  shows "resolve follow d n pre cs = Some (pre @ cs)"
proof (induction cs arbitrary: pre)
  case (Cons c cs)
  then show ?case
    using no_symlinks_node [OF assms, of "pre @ [c]"] by (auto split: option.splits node.splits)
qed simp

lemma locate_no_symlinks:
  assumes "no_symlinks d" "locate follow d p = Inr q"
  shows "q = p"
  using assms by (auto simp: locate_def resolve_no_symlinks split: if_splits option.splits node.splits)

text \<open>Every entry of a well-formed disk lies in a directory.\<close>

definition tree :: "disk \<Rightarrow> bool" where
  "tree d \<longleftrightarrow> list_all (\<lambda>e. fst e \<noteq> [] \<and> node_at d (butlast (fst e)) = Some Directory) (nodes d)"

definition plain_disk :: "disk \<Rightarrow> bool" where
  "plain_disk d \<longleftrightarrow> no_symlinks d \<and> tree d"

lemma node_at_entry: "node_at d p = Some n \<Longrightarrow> p = [] \<or> (p, n) \<in> set (nodes d)"
  by (auto simp: node_at_def dest: map_of_SomeD split: if_splits)

lemma tree_parent: "tree d \<Longrightarrow> node_at d p = Some n \<Longrightarrow> p \<noteq> [] \<Longrightarrow> node_at d (butlast p) = Some Directory"
  by (fastforce simp: tree_def list_all_iff dest: node_at_entry)

lemma butlast_ne: "p \<noteq> [] \<Longrightarrow> butlast p \<noteq> p"
  by (metis append_butlast_last_id self_append_conv not_Cons_self2)

lemma tree_put:
  assumes "tree d" "p \<noteq> []" "node_at d (butlast p) = Some Directory" "n = Directory \<or> node_at d p \<noteq> Some Directory"
  shows "tree (put_node p n d)"
  unfolding tree_def list_all_iff
proof (intro ballI conjI)
  fix e assume "e \<in> set (nodes (put_node p n d))"
  then have e: "e = (p, n) \<or> e \<in> set (nodes d)" by (simp add: put_node_def)
  then show "fst e \<noteq> []" using assms(1,2) by (auto simp: tree_def list_all_iff)
  show "node_at (put_node p n d) (butlast (fst e)) = Some Directory"
    using e assms butlast_ne [of p] by (auto simp: node_at_put tree_def list_all_iff)
qed

lemma tree_delete:
  assumes "tree d" "p \<noteq> []" "\<not> list_ex (\<lambda>e. fst e \<noteq> [] \<and> butlast (fst e) = p) (nodes d)"
  shows "tree (delete_node p d)"
  unfolding tree_def list_all_iff
proof (intro ballI conjI)
  fix e assume "e \<in> set (nodes (delete_node p d))"
  then have e: "e \<in> set (nodes d)" by (simp add: delete_node_def)
  then show "fst e \<noteq> []" using assms(1) by (auto simp: tree_def list_all_iff)
  show "node_at (delete_node p d) (butlast (fst e)) = Some Directory"
    using e assms \<open>fst e \<noteq> []\<close> by (auto simp: node_at_delete tree_def list_all_iff list_ex_iff)
qed

lemma tree_file_no_children:
  assumes "tree d" "node_at d p = Some n" "n \<noteq> Directory"
  shows "\<not> list_ex (\<lambda>e. fst e \<noteq> [] \<and> butlast (fst e) = p) (nodes d)"
  using assms by (auto simp: tree_def list_all_iff list_ex_iff)

lemma locate_plain:
  assumes "plain_disk d"
  shows "locate follow d p = Inr q \<Longrightarrow> q = p \<and> (p \<noteq> [] \<longrightarrow> node_at d (butlast p) = Some Directory)"
    and "locate follow d p = Inl e \<Longrightarrow> node_at d p = None"
proof -
  have r: "resolve follow d MAX_SYMLINKS [] p = Some p"
    using assms resolve_no_symlinks [of d follow MAX_SYMLINKS "[]" p] by (simp add: plain_disk_def)
  show "q = p \<and> (p \<noteq> [] \<longrightarrow> node_at d (butlast p) = Some Directory)" if "locate follow d p = Inr q"
    using that r by (auto simp: locate_def split: if_splits option.splits node.splits)
  show "node_at d p = None" if "locate follow d p = Inl e"
  proof (rule ccontr)
    assume "node_at d p \<noteq> None"
    then obtain n where "node_at d p = Some n" by auto
    with tree_parent assms have "p = [] \<or> node_at d (butlast p) = Some Directory" by (auto simp: plain_disk_def)
    with that r show False by (auto simp: locate_def split: if_splits)
  qed
qed

lemma local_write_cases:
  assumes "plain_disk d" "local_write_file d p t = (d', r)"
  obtains e where "d' = d" "r = Some e"
  | u where "p \<noteq> []" "node_at d (butlast p) = Some Directory" "node_at d p \<noteq> Some Directory"
      "d' = put_node p (RegularFile (Some u)) d" "r = None \<longrightarrow> u = t" "\<forall>e. r = Some e \<longrightarrow> io_kind e \<noteq> NotFound"
proof (cases "locate True d p")
  case (Inl e)
  then show thesis using that(1) assms(2) by (auto simp: local_write_file_def)
next
  case (Inr q)
  then have q: "q = p" "p \<noteq> [] \<longrightarrow> node_at d (butlast p) = Some Directory"
    using locate_plain(1) [OF assms(1)] by auto
  show thesis
  proof (cases "node_at d p = Some Directory")
    case True
    then show thesis using that(1) assms(2) Inr q by (auto simp: local_write_file_def)
  next
    case False
    then have "p \<noteq> []" by (auto simp: node_at_def)
    then show thesis
      using that(2) [of "if r = None then t else []"] assms(2) Inr q False
      by (auto simp: local_write_file_def os_error_def split: if_splits)
  qed
qed

lemma disk_view_put: "p \<noteq> [] \<Longrightarrow> disk_view (put_node p (RegularFile (Some t)) d) = (disk_view d)(p := Text t)"
  by (auto simp: disk_view_def node_at_put)

lemma disk_view_delete: "p \<noteq> [] \<Longrightarrow> disk_view (delete_node p d) = (disk_view d)(p := NoFile)"
  by (auto simp: disk_view_def node_at_delete)

lemma make_directories_plain:
  assumes "plain_disk d" "make_directories d pre cs = (d', r)" "node_at d pre = Some Directory"
  shows "plain_disk d' \<and> disk_view d' = disk_view d"
  using assms
proof (induction d pre cs rule: make_directories.induct)
  case (2 d pre c cs)
  show ?case
  proof (cases "node_at d (pre @ [c])")
    case None
    let ?d = "put_node (pre @ [c]) Directory d"
    have "plain_disk ?d" using "2.prems"(1,3) tree_put [of d "pre @ [c]" Directory] by (simp add: plain_disk_def)
    moreover have "disk_view ?d = disk_view d"
      using None by (auto simp: disk_view_def node_at_put fun_eq_iff)
    ultimately show ?thesis using "2.IH"(1) [OF None] "2.prems" None by (simp add: node_at_put)
  next
    case (Some n)
    then show ?thesis using 2 by (cases n) auto
  qed
qed simp

lemma local_remove_cases:
  assumes "plain_disk d" "local_remove d p = (d', r)"
  obtains e where "d' = d" "r = Some e"
  | "p \<noteq> []" "d' = delete_node p d" "r = None" "plain_disk d'"
proof (cases "locate False d p")
  case (Inl e)
  then show thesis using that(1) assms(2) by (auto simp: local_remove_def)
next
  case (Inr q)
  then have q: "q = p" using locate_plain(1) [OF assms(1)] by auto
  show thesis
  proof (cases "r = None")
    case True
    then have p: "p \<noteq> []" "d' = delete_node p d" "\<not> list_ex (\<lambda>e. fst e \<noteq> [] \<and> butlast (fst e) = p) (nodes d)"
      using assms(2) Inr q tree_file_no_children [of d p] assms(1)
      by (auto simp: local_remove_def plain_disk_def node_at_def split: option.splits node.splits if_splits)
    then show thesis
      using that(2) True tree_delete [of d p] assms(1) no_symlinks_delete by (auto simp: plain_disk_def)
  next
    case False
    then show thesis
      using that(1) assms(2) Inr q by (auto simp: local_remove_def split: option.splits node.splits if_splits)
  qed
qed

interpretation local: file_system LOCAL_FS plain_disk disk_view
proof
  fix s s' :: disk and p q :: abs_path and t e r
  assume ok: "plain_disk s"
  note s = LOCAL_FS_def
  show "disk_view s p = Text t" if "read_file_text LOCAL_FS s p = Inr t"
    using that locate_plain(1) [OF ok, of True p]
    by (auto simp: s local_read_file_text_def disk_view_def split: sum.splits option.splits node.splits if_splits)
  show "disk_view s p = NoFile" if "read_file_text LOCAL_FS s p = Inl e" "io_kind e = NotFound"
    using that locate_plain [OF ok, of True p]
    by (auto simp: s local_read_file_text_def disk_view_def os_error_def file_too_large_error_def
        split: sum.splits option.splits node.splits if_splits)
  show "disk_view s' = (disk_view s)(p := Text t)" if "write_file LOCAL_FS s p t = (s', None)"
    using that ok by (auto simp: s disk_view_put elim!: local_write_cases)
  show "disk_view s' = disk_view s" if "write_file LOCAL_FS s p t = (s', Some e)" "io_kind e = NotFound"
    using that ok by (auto simp: s elim!: local_write_cases)
  show "disk_view s' q = disk_view s q" if "write_file LOCAL_FS s p t = (s', r)" "q \<noteq> p"
    using that ok by (auto simp: s disk_view_put elim!: local_write_cases)
  have r: "resolve True s MAX_SYMLINKS [] p = Some p"
    using ok resolve_no_symlinks [of s True MAX_SYMLINKS "[]" p] by (simp add: plain_disk_def)
  note md = make_directories_plain [OF ok, of "[]"]
  show "disk_view s' = disk_view s" if "create_directory_all LOCAL_FS s p = (s', r)"
    using that r md by (simp add: s local_create_directory_all_def node_at_def)
  show "plain_disk (fst (create_directory_all LOCAL_FS s p))"
    using r md [of p] by (cases "make_directories s [] p") (simp add: s local_create_directory_all_def node_at_def)
  show "disk_view s' = (disk_view s)(p := NoFile)" if "remove_entry LOCAL_FS s p = (s', None)"
    by (rule local_remove_cases [OF ok, of p s' None]) (use that in \<open>auto simp: s disk_view_delete\<close>)
  show "disk_view s' q = disk_view s q" if "remove_entry LOCAL_FS s p = (s', r)" "q \<noteq> p"
    by (rule local_remove_cases [OF ok, of p s' r]) (use that in \<open>auto simp: s disk_view_delete\<close>)
  obtain w wr where w: "local_write_file s p t = (w, wr)" by fastforce
  show "plain_disk (fst (write_file LOCAL_FS s p t))"
    by (rule local_write_cases [OF ok w]) (use ok tree_put [of s p] w in \<open>auto simp: s plain_disk_def\<close>)
  obtain v vr where v: "local_remove s p = (v, vr)" by fastforce
  show "plain_disk (fst (remove_entry LOCAL_FS s p))"
    by (rule local_remove_cases [OF ok v]) (use ok v in \<open>auto simp: s\<close>)
qed

end
