(* ===== verification/Apply_Patch_Correct.thy ===== *)
theory Apply_Patch_Correct
  imports Apply_Patch Local_File_System
begin

section \<open>What applying a patch does\<close>

text \<open>
  The effect of \<^verbatim>\<open>apply_hunks_to_files\<close> on the view of a file system that keeps the laws of the
  interface: an exact delta can be undone, whatever the outcome; paths no hunk names are left
  alone; and on success the files are those an abstract semantics of the hunks gives. The
  laws are then discharged by the local file system.
\<close>

definition undo_change :: "'p applied_patch_change \<Rightarrow> ('p \<Rightarrow> file_view) \<Rightarrow> ('p \<Rightarrow> file_view)" where
  "undo_change c f =
     (case file_change c of
        AppliedAdd _ overwritten \<Rightarrow> f(change_path c := view_of_text overwritten)
      | AppliedDelete t \<Rightarrow> f(change_path c := Text t)
      | AppliedUpdate None old _ _ \<Rightarrow> f(change_path c := Text old)
      | AppliedUpdate (Some dest) old overwritten _ \<Rightarrow>
          f(change_path c := Text old, dest := view_of_text overwritten))"

definition undo_changes :: "'p applied_patch_change list \<Rightarrow> ('p \<Rightarrow> file_view) \<Rightarrow> ('p \<Rightarrow> file_view)" where
  "undo_changes cs f = foldr undo_change cs f"

lemma undo_changes_simps [simp]:
  "undo_changes [] f = f"
  "undo_changes (cs @ ds) f = undo_changes cs (undo_changes ds f)"
  "undo_changes [c] f = undo_change c f"
  by (simp_all add: undo_changes_def)

lemma delta_simps [simp]:
  "changes (inexact d) = changes d" "exact (inexact d) = False"
  "changes (push_change p c d) = changes d @ [\<lparr>change_path = p, file_change = c\<rparr>]"
  "exact (push_change p c d) = exact d"
  by (simp_all add: inexact_def push_change_def)

lemma note_existing_changes [simp]: "changes (note_existing_path_delta_support fs s p d) = changes d"
  by (simp add: note_existing_path_delta_support_def split: sum.splits)

lemma note_existing_exact: "exact (note_existing_path_delta_support fs s p d) \<Longrightarrow> exact d"
  by (auto simp: note_existing_path_delta_support_def split: sum.splits if_splits)

text \<open>The paths a hunk names, once resolved.\<close>

definition hunk_uris :: "'p path_ops \<Rightarrow> 'p \<Rightarrow> hunk \<Rightarrow> 'p set" where
  "hunk_uris po cwd h = {p. resolve_path po h cwd = Inr p \<or> join_path po cwd (hunk_path h) = Inr p}"

text \<open>The new changes of a delta lead back from one view to another when it is exact.\<close>

definition accounts_for ::
  "('p \<Rightarrow> file_view) \<Rightarrow> 'p applied_patch_delta \<Rightarrow> ('p \<Rightarrow> file_view) \<Rightarrow> 'p applied_patch_delta \<Rightarrow> bool" where
  "accounts_for v d v' d' \<longleftrightarrow>
     (exact d' \<longrightarrow> exact d \<and> (\<exists>cs. changes d' = changes d @ cs \<and> undo_changes cs v' = v))"

lemma accounts_for_refl: "accounts_for v d v d"
  by (auto simp: accounts_for_def)

lemma accounts_for_trans:
  assumes "accounts_for v d v' d'" "accounts_for v' d' v'' d''"
  shows "accounts_for v d v'' d''"
  using assms by (fastforce simp: accounts_for_def)

lemma accounts_for_inexact [simp]: "accounts_for v d v' (inexact d')"
  by (simp add: accounts_for_def)

text \<open>The abstract effect of hunks on a view.\<close>

definition hunk_effect ::
  "'p path_ops \<Rightarrow> 'p \<Rightarrow> hunk \<Rightarrow> ('p \<Rightarrow> file_view) \<Rightarrow> ('p \<Rightarrow> file_view) option" where
  "hunk_effect po cwd h v =
     (case resolve_path po h cwd of
        Inl _ \<Rightarrow> None
      | Inr p \<Rightarrow>
          (case h of
             AddFile _ t \<Rightarrow> Some (v(p := Text t))
           | DeleteFile _ \<Rightarrow> Some (v(p := NoFile))
           | UpdateFile _ mv chunks \<Rightarrow>
               (case v p of
                  Text old \<Rightarrow>
                    (case derive_new_contents_from_chunks (Inr old) (native_path_string po p) chunks of
                       Inl _ \<Rightarrow> None
                     | Inr ap \<Rightarrow>
                         (case mv of
                            None \<Rightarrow> Some (v(p := Text (new_contents ap)))
                          | Some m \<Rightarrow>
                              (case join_path po cwd m of
                                 Inl _ \<Rightarrow> None
                               | Inr dest \<Rightarrow> Some (v(dest := Text (new_contents ap), p := NoFile)))))
                | _ \<Rightarrow> None)))"

fun hunks_effect ::
  "'p path_ops \<Rightarrow> 'p \<Rightarrow> hunk list \<Rightarrow> ('p \<Rightarrow> file_view) \<Rightarrow> ('p \<Rightarrow> file_view) option" where
  "hunks_effect po cwd [] v = Some v"
| "hunks_effect po cwd (h # hs) v =
     (case hunk_effect po cwd h v of None \<Rightarrow> None | Some v' \<Rightarrow> hunks_effect po cwd hs v')"

lemma derive_original:
  "derive_new_contents_from_chunks read path_text chunks = Inr ap \<Longrightarrow> read = Inr (original_contents ap)"
  by (auto simp: derive_new_contents_from_chunks_def Let_def split: sum.splits option.splits)

context file_system
begin

lemma retry_write:
  assumes "ok s" "write_file_with_missing_parent_retry fs po s p t = (s', r)"
  shows "ok s' \<and> (r = None \<longrightarrow> view s' = (view s)(p := Text t)) \<and> (\<forall>q. q \<noteq> p \<longrightarrow> view s' q = view s q)"
proof -
  obtain s1 r1 where w1: "write_file fs s p t = (s1, r1)" by fastforce
  have ok1: "ok s1" using ok_write [OF assms(1), of p t] w1 by simp
  show ?thesis
  proof (cases "\<exists>e. r1 = Some e \<and> io_kind e = NotFound")
    case False
    then have "s' = s1 \<and> (r = None \<longrightarrow> r1 = None)"
      using assms(2) w1
      by (cases r1) (auto simp: write_file_with_missing_parent_retry_def Let_def)
    then show ?thesis using ok1 w1 write_ok [OF assms(1)] write_frame [OF assms(1)] by blast
  next
    case True
    then obtain e where e: "r1 = Some e" "io_kind e = NotFound" by blast
    have v1: "view s1 = view s" using write_not_found [OF assms(1)] w1 e by blast
    obtain s2 r2 where c: "(case parent_path po p of Some parent \<Rightarrow> create_directory_all fs s1 parent
        | None \<Rightarrow> (s1, None)) = (s2, r2)" by fastforce
    have 2: "ok s2 \<and> view s2 = view s"
      using c v1 ok1 create_view [OF ok1] ok_create [OF ok1]
      by (cases "parent_path po p") (auto, metis fst_conv)
    obtain s3 r3 where w3: "write_file fs s2 p t = (s3, r3)" by fastforce
    have "(s' = s2 \<and> r \<noteq> None) \<or> (s' = s3 \<and> (r = None \<longrightarrow> r3 = None))"
      using assms(2) w1 e c w3
      by (cases r2; cases r3) (auto simp: write_file_with_missing_parent_retry_def Let_def)
    moreover have "ok s3" using ok_write [of s2 p t] 2 w3 by simp
    ultimately show ?thesis
      using 2 write_ok [of s2 p t s3] write_frame [of s2 p t s3 r3] w3 by auto
  qed
qed

lemma read_optional:
  assumes "ok s" "read_optional_file_text_for_delta fs s p d = (t, d')"
  shows "changes d' = changes d \<and> (exact d' \<longrightarrow> exact d \<and> view s p = view_of_text t)"
  using assms read_text [OF assms(1)] read_not_found [OF assms(1)] note_existing_exact [of fs s p d]
  by (auto simp: read_optional_file_text_for_delta_def Let_def split: sum.splits if_splits)

lemma remove_checked_ok:
  assumes "ok s" "remove_checked fs s d p t ctx = (s', d', r)"
  shows "ok s'" "changes d' = changes d" "exact d' \<longrightarrow> exact d" "\<forall>q. q \<noteq> p \<longrightarrow> view s' q = view s q"
    and "r = None \<longrightarrow> view s' = (view s)(p := NoFile)"
    and "exact d' \<and> r \<noteq> None \<longrightarrow> view s' p = view s p \<or> (\<exists>u. t = Some u \<and> view s' p = Text u)"
proof -
  obtain s1 r1 where m: "remove_entry fs s p = (s1, r1)" by fastforce
  have ok1: "ok s1" using ok_remove [OF assms(1), of p] m by simp
  note d = assms(2) [unfolded remove_checked_def]
  show "ok s'" "changes d' = changes d" "exact d' \<longrightarrow> exact d"
    using d m ok1 assms(1) by (auto split: option.splits)
  show "\<forall>q. q \<noteq> p \<longrightarrow> view s' q = view s q"
    using d m remove_frame [OF assms(1) m] by (auto split: option.splits)
  show "r = None \<longrightarrow> view s' = (view s)(p := NoFile)"
    using d m remove_ok [OF assms(1)] by (auto split: option.splits)
  show "exact d' \<and> r \<noteq> None \<longrightarrow> view s' p = view s p \<or> (\<exists>u. t = Some u \<and> view s' p = Text u)"
    using d m read_text [OF ok1, of p]
    by (auto simp: remove_failure_was_side_effect_free_def split: option.splits sum.splits)
qed

lemma apply_add_ok:
  assumes "ok s" "apply_add fs po s d p t = (s', d', r)"
  shows "ok s' \<and> accounts_for (view s) d (view s') d' \<and> (\<forall>q. q \<noteq> p \<longrightarrow> view s' q = view s q) \<and>
    (r = None \<longrightarrow> view s' = (view s)(p := Text t))"
proof -
  obtain ov d1 where o: "read_optional_file_text_for_delta fs s p d = (ov, d1)" by fastforce
  obtain s1 r1 where w: "write_file_with_missing_parent_retry fs po s p t = (s1, r1)" by fastforce
  have s1: "s' = s1" "d' = (if r1 = None then push_change p (AppliedAdd t ov) d1 else inexact d1)" "r = r1"
    using assms(2) o w by (auto simp: apply_add_def split: option.splits)
  have "undo_change \<lparr>change_path = p, file_change = AppliedAdd t ov\<rparr> ((view s)(p := Text t)) = view s"
    if "view s p = view_of_text ov"
    using that by (auto simp: undo_change_def fun_eq_iff)
  then show ?thesis
    using s1 retry_write [OF assms(1) w] read_optional [OF assms(1) o]
    by (auto simp: accounts_for_def)
qed

lemma apply_delete_ok:
  assumes "ok s" "apply_delete fs po s d p = (s', d', r)"
  shows "ok s' \<and> accounts_for (view s) d (view s') d' \<and> (\<forall>q. q \<noteq> p \<longrightarrow> view s' q = view s q) \<and>
    (r = None \<longrightarrow> view s' = (view s)(p := NoFile))"
proof -
  define t where "t = (case read_file_text fs s p of Inr t \<Rightarrow> Some t | Inl _ \<Rightarrow> None)"
  define d1 where "d1 = note_existing_path_delta_support fs s p d"
  define d2 where "d2 = (if t = None then inexact d1 else d1)"
  obtain s3 d3 r3 where rc: "remove_checked fs s d2 p t (str ''Failed to delete file '' @ native_path_string po p)
      = (s3, d3, r3)" by (metis prod_cases3)
  note R = remove_checked_ok [OF assms(1) rc]
  have eq: "s' = s3" "r = r3" "d' = (if r3 = None then (case t of Some u \<Rightarrow> push_change p (AppliedDelete u) d3
      | None \<Rightarrow> d3) else d3)"
    using assms(2) rc unfolding apply_delete_def Let_def d2_def [symmetric] d1_def [symmetric] t_def [symmetric]
    by (auto simp: d2_def split: option.splits)
  have d3: "exact d3 \<longrightarrow> exact d \<and> changes d3 = changes d \<and> (\<exists>u. t = Some u \<and> view s p = Text u)"
    using R(2,3) read_text [OF assms(1), of p] note_existing_exact [of fs s p d]
    by (auto simp: d2_def d1_def t_def split: sum.splits if_splits)
  have "accounts_for (view s) d (view s') d'"
  proof (cases "exact d3")
    case True
    then obtain u where u: "t = Some u" "view s p = Text u" "exact d" "changes d3 = changes d" using d3 by blast
    show ?thesis
    proof (cases "r3 = None")
      case True
      then show ?thesis using eq R(5) u by (auto simp: accounts_for_def undo_change_def fun_eq_iff)
    next
      case False
      then have "view s' = view s" using eq R(4,6) u \<open>exact d3\<close> by (metis ext option.inject)
      then show ?thesis using eq u False by (auto simp: accounts_for_def)
    qed
  next
    case False
    then show ?thesis using eq by (auto simp: accounts_for_def split: option.splits if_splits)
  qed
  then show ?thesis using R eq by auto
qed

lemma apply_move_ok:
  assumes "ok s" "apply_move fs po s d p dest ap = (s', d', r)" "view s p = Text (original_contents ap)"
  shows "ok s' \<and> accounts_for (view s) d (view s') d' \<and> (\<forall>q. q \<noteq> p \<and> q \<noteq> dest \<longrightarrow> view s' q = view s q) \<and>
    (r = None \<longrightarrow> view s' = (view s)(dest := Text (new_contents ap), p := NoFile))"
proof -
  let ?t = "new_contents ap" and ?old = "original_contents ap"
  obtain ov d1 where o: "read_optional_file_text_for_delta fs s dest d = (ov, d1)" by fastforce
  obtain s1 r1 where w: "write_file_with_missing_parent_retry fs po s dest ?t = (s1, r1)" by fastforce
  note O = read_optional [OF assms(1) o] and W = retry_write [OF assms(1) w]
  show ?thesis
  proof (cases r1)
    case (Some e)
    then have "s' = s1" "d' = inexact d1" "r = Some e" using assms(2) o w by (auto simp: apply_move_def)
    then show ?thesis using W by (auto simp: accounts_for_def)
  next
    case None
    let ?add = "\<lparr>change_path = dest, file_change = AppliedAdd ?t ov\<rparr>"
    let ?upd = "\<lparr>change_path = p, file_change = AppliedUpdate (Some dest) ?old ov ?t\<rparr>"
    have v1: "ok s1" "view s1 = (view s)(dest := Text ?t)" using W None by auto
    obtain s2 d3 r3 where rc: "remove_checked fs s1 (push_change dest (AppliedAdd ?t ov) d1) p (Some ?old)
        (str ''Failed to remove original '' @ native_path_string po p) = (s2, d3, r3)" by (metis prod_cases3)
    note R = remove_checked_ok [OF v1(1) rc]
    have eq: "s' = s2" "r = r3"
        "d' = (if r3 = None then d3\<lparr>changes := (changes d3)[length (changes d1) := ?upd]\<rparr> else d3)"
      using assms(2) o w None rc by (auto simp: apply_move_def Let_def split: option.splits)
    have u: "undo_change ?upd ((view s)(dest := Text ?t, p := NoFile)) = view s" if "view s dest = view_of_text ov"
      using that assms(3) by (auto simp: undo_change_def fun_eq_iff)
    have a: "undo_change ?add (view s2) = view s" if "view s dest = view_of_text ov" "exact d3" "r3 \<noteq> None"
      using that assms(3) R(4,6) v1(2) by (auto simp: undo_change_def fun_eq_iff) metis+
    have "accounts_for (view s) d (view s') d'"
      using O R(2,3,5) u a eq v1(2) by (auto simp: accounts_for_def)
    then show ?thesis using R eq v1(2) by (auto simp: fun_eq_iff)
  qed
qed

lemma apply_update_in_place_ok:
  assumes "ok s" "apply_update_in_place fs po s d p ap = (s', d', r)" "view s p = Text (original_contents ap)"
  shows "ok s' \<and> accounts_for (view s) d (view s') d' \<and> (\<forall>q. q \<noteq> p \<longrightarrow> view s' q = view s q) \<and>
    (r = None \<longrightarrow> view s' = (view s)(p := Text (new_contents ap)))"
proof -
  obtain s1 r1 where w: "write_file fs s p (new_contents ap) = (s1, r1)" by fastforce
  have "ok s1" using ok_write [OF assms(1), of p "new_contents ap"] w by simp
  moreover have "s' = s1" "r = None \<longrightarrow> r1 = None" "r1 \<noteq> None \<longrightarrow> d' = inexact d"
      "r1 = None \<longrightarrow> d' = push_change p (AppliedUpdate None (original_contents ap) None (new_contents ap)) d"
    using assms(2) w by (auto simp: apply_update_in_place_def split: option.splits)
  moreover have "undo_change \<lparr>change_path = p, file_change = AppliedUpdate None (original_contents ap) None t\<rparr>
      ((view s)(p := u)) = view s" for t u
    using assms(3) by (auto simp: undo_change_def fun_eq_iff)
  ultimately show ?thesis
    using write_ok [OF assms(1)] write_frame [OF assms(1) w] w
    by (cases r1) (auto simp: accounts_for_def)
qed

lemma accounts_for_note:
  assumes "accounts_for v (note_existing_path_delta_support fs s p d) v' d'"
  shows "accounts_for v d v' d'"
  using assms note_existing_exact [of fs s p d] by (auto simp: accounts_for_def)

lemma apply_hunk_ok:
  assumes "ok s" "apply_hunk fs po cwd h s d = (s', d', r)"
  shows "ok s' \<and> accounts_for (view s) d (view s') d' \<and> (\<forall>q. q \<notin> hunk_uris po cwd h \<longrightarrow> view s' q = view s q) \<and>
    (r = None \<longrightarrow> hunk_effect po cwd h (view s) = Some (view s'))"
proof (cases "resolve_path po h cwd")
  case (Inl e)
  then show ?thesis using assms accounts_for_refl [of "view s" d] by (auto simp: apply_hunk_def)
next
  case (Inr p)
  then have u: "p \<in> hunk_uris po cwd h" by (simp add: hunk_uris_def)
  show ?thesis
  proof (cases h)
    case (AddFile path t)
    then show ?thesis
      using assms Inr u apply_add_ok [OF assms(1)] by (fastforce simp: apply_hunk_def hunk_effect_def)
  next
    case (DeleteFile path)
    then show ?thesis
      using assms Inr u apply_delete_ok [OF assms(1)] by (fastforce simp: apply_hunk_def hunk_effect_def)
  next
    case (UpdateFile path mv chunks)
    let ?d1 = "note_existing_path_delta_support fs s p d"
    let ?ap = "derive_new_contents_from_chunks (read_file_text fs s p) (native_path_string po p) chunks"
    have ah: "apply_update fs po cwd s d p mv chunks = (s', d', r)"
      using assms(2) Inr UpdateFile by (simp add: apply_hunk_def)
    have n: "accounts_for (view s) d (view s) ?d1" using accounts_for_note accounts_for_refl by blast
    show ?thesis
    proof (cases ?ap)
      case (Inl e)
      then show ?thesis using ah n assms(1) by (auto simp: apply_update_def)
    next
      case ap: (Inr ap)
      then have old: "read_file_text fs s p = Inr (original_contents ap)" by (rule derive_original)
      then have v: "view s p = Text (original_contents ap)" using read_text assms(1) by blast
      show ?thesis
      proof (cases mv)
        case None
        then have "apply_update_in_place fs po s ?d1 p ap = (s', d', r)" using ah ap by (simp add: apply_update_def)
        note P = apply_update_in_place_ok [OF assms(1) this v]
        then have "\<forall>q. q \<notin> hunk_uris po cwd h \<longrightarrow> view s' q = view s q" using u by metis
        then show ?thesis
          using P accounts_for_note v Inr UpdateFile None ap old by (auto simp: hunk_effect_def)
      next
        case (Some m)
        show ?thesis
        proof (cases "join_path po cwd m")
          case (Inl e)
          then show ?thesis using ah n assms(1) ap Some by (auto simp: apply_update_def)
        next
          case j: (Inr dest)
          then have "apply_move fs po s ?d1 p dest ap = (s', d', r)" using ah ap Some by (simp add: apply_update_def)
          note M = apply_move_ok [OF assms(1) this v]
          have "dest \<in> hunk_uris po cwd h" using j Some UpdateFile by (simp add: hunk_uris_def hunk_path_def)
          then have "\<forall>q. q \<notin> hunk_uris po cwd h \<longrightarrow> view s' q = view s q" using M u by metis
          then show ?thesis
            using M accounts_for_note v Inr UpdateFile Some ap old j by (auto simp: hunk_effect_def)
        qed
      qed
    qed
  qed
qed

lemma apply_hunks_loop_ok:
  assumes "ok s" "apply_hunks_loop fs po cwd hs a s d = (s', d', r)"
  shows "ok s' \<and> accounts_for (view s) d (view s') d' \<and>
    (\<forall>q. q \<notin> (\<Union>h \<in> set hs. hunk_uris po cwd h) \<longrightarrow> view s' q = view s q) \<and>
    (\<forall>a'. r = Inr a' \<longrightarrow> hunks_effect po cwd hs (view s) = Some (view s') \<and> a' = fold note_affected hs a)"
  using assms
proof (induction hs arbitrary: a s d)
  case Nil
  then show ?case using accounts_for_refl by auto
next
  case (Cons h hs)
  obtain s1 d1 r1 where h: "apply_hunk fs po cwd h s d = (s1, d1, r1)" by (metis prod_cases3)
  note H = apply_hunk_ok [OF Cons.prems(1) h]
  show ?case
  proof (cases r1)
    case (Some e)
    then show ?thesis using Cons.prems(2) h H by auto
  next
    case None
    then have l: "apply_hunks_loop fs po cwd hs (note_affected h a) s1 d1 = (s', d', r)"
      using Cons.prems(2) h by simp
    note L = Cons.IH [OF _ l]
    show ?thesis
      using L H None accounts_for_trans by auto
  qed
qed

lemma apply_hunks_to_files_ok:
  assumes "ok s" "apply_hunks_to_files fs po hs cwd s d = (s', d', r)"
  shows "accounts_for (view s) d (view s') d' \<and>
    (\<forall>q. q \<notin> (\<Union>h \<in> set hs. hunk_uris po cwd h) \<longrightarrow> view s' q = view s q) \<and>
    (\<forall>a'. r = Inr a' \<longrightarrow> hunks_effect po cwd hs (view s) = Some (view s') \<and>
       a' = fold note_affected hs \<lparr>added = [], modified = [], deleted = []\<rparr>)"
proof (cases "hs = []")
  case True
  then show ?thesis using assms(2) accounts_for_refl [of "view s" d] by (auto simp: apply_hunks_to_files_def)
next
  case False
  then show ?thesis
    using assms(2) apply_hunks_loop_ok [OF assms(1)] by (simp add: apply_hunks_to_files_def)
qed

end

subsection \<open>Patches on the local file system\<close>

definition delta_of :: "('p apply_patch_failure, 'p applied_patch_delta) result \<Rightarrow> 'p applied_patch_delta" where
  "delta_of r = (case r of Inl f \<Rightarrow> failure_delta f | Inr d \<Rightarrow> d)"

lemma apply_hunks_files:
  assumes "apply_hunks fs po wl hs cwd w = (w', r)"
  shows "\<exists>x. apply_hunks_to_files fs po hs cwd (file_state w) delta_empty = (file_state w', delta_of r, x) \<and>
    (r = Inr d \<longrightarrow> (\<exists>a. x = Inr a))"
  using assms
  by (auto simp: apply_hunks_def delta_of_def split: prod.splits sum.splits option.splits)

text \<open>Concrete paths, writers and a disk, at which the properties below are applied.\<close>

definition unix_path_ops :: "abs_path path_ops" where
  "unix_path_ops =
     \<lparr>join_path = (\<lambda>cwd p. Inr (if starts_with [47] p then split_on 47 (tl p) else cwd @ split_on 47 p)),
      parent_path = (\<lambda>p. if p = [] then None else Some (butlast p)),
      native_path_string = (\<lambda>p. [47] @ join [47] p)\<rparr>"

definition buffer_writeln :: "rstring writeln" where
  "buffer_writeln w l = (w @ l @ [LF], None)"

definition ex_disk :: disk where
  "ex_disk = \<lparr>nodes = [([str ''a''], RegularFile (Some (str ''x'' @ [LF]))), ([str ''b''], RegularFile (Some [])),
     ([str ''l''], Directory)], file_size_limit = 8\<rparr>"

definition ex_world :: "(disk, rstring) world" where
  "ex_world = \<lparr>file_state = ex_disk, stdout = [], stderr = []\<rparr>"

definition ex_patch :: rstring where
  "ex_patch = join [LF] [str ''*** Begin Patch'', str ''*** Update File: a'', str ''*** Move to: c/d'', str ''@@'',
     str ''-x'', str ''+y'', str ''*** Delete File: b'', str ''*** Update File: m'', str ''+z'', str ''*** End Patch'']"

definition ex_good_patch :: rstring where
  "ex_good_patch = join [LF] [str ''*** Begin Patch'', str ''*** Update File: a'', str ''*** Move to: c/d'',
     str ''@@'', str ''-x'', str ''+y'', str ''*** Delete File: b'', str ''*** End Patch'']"

text \<open>
  C1. An exact delta is a complete account: after \<^verbatim>\<open>apply_patch\<close> on the local file system,
  whether it succeeded, failed to parse, or stopped half way at a hunk, a write or a removal,
  undoing the reported changes from last to first gives back every file as it was, provided
  the delta says it is exact. The hypothesis on the disk is that it has no symbolic links.
\<close>

theorem exact_delta_undoes:
  assumes "plain_disk (file_state w)" "apply_patch LOCAL_FS po wl patch cwd w = (w', r)" "exact (delta_of r)"
  shows "undo_changes (changes (delta_of r)) (disk_view (file_state w')) = disk_view (file_state w)"
proof (cases "parse_patch patch")
  case (Inl e)
  then have "file_state w' = file_state w" "delta_of r = delta_empty"
    using assms(2) by (auto simp: apply_patch_def delta_of_def split: prod.splits option.splits)
  then show ?thesis by (simp add: delta_empty_def)
next
  case (Inr args)
  then have "apply_hunks LOCAL_FS po wl (args_hunks args) cwd w = (w', r)"
    using assms(2) by (simp add: apply_patch_def)
  from apply_hunks_files [OF this] obtain x where
    "apply_hunks_to_files LOCAL_FS po (args_hunks args) cwd (file_state w) delta_empty = (file_state w', delta_of r, x)"
    by blast
  from local.apply_hunks_to_files_ok [OF assms(1) this] assms(3) show ?thesis
    by (auto simp: accounts_for_def delta_empty_def)
qed

theorem exact_delta_undoes_witness:
  "case apply_patch LOCAL_FS unix_path_ops buffer_writeln ex_patch [] ex_world of (w', r) \<Rightarrow>
     exact (delta_of r) \<and> length (changes (delta_of r)) = 2 \<and>
     disk_view (file_state w') [str ''a''] = NoFile \<and>
     undo_changes (changes (delta_of r)) (disk_view (file_state w')) [str ''a''] = Text (str ''x'' @ [LF])"
proof -
  obtain w' r where a: "apply_patch LOCAL_FS unix_path_ops buffer_writeln ex_patch [] ex_world = (w', r)" by fastforce
  have e: "case apply_patch LOCAL_FS unix_path_ops buffer_writeln ex_patch [] ex_world of (w', r) \<Rightarrow>
     exact (delta_of r) \<and> length (changes (delta_of r)) = 2 \<and> disk_view (file_state w') [str ''a''] = NoFile"
    by code_simp
  have p: "plain_disk (file_state ex_world)" "disk_view (file_state ex_world) [str ''a''] = Text (str ''x'' @ [LF])"
    by code_simp+
  show ?thesis using e a exact_delta_undoes [OF p(1) a] p(2) by simp
qed



text \<open>
  C6. A patch that is reported applied has the effect of its hunks in order: an added file
  holds the given contents, a deleted file is gone, an updated file holds the derived
  contents, and a moved file holds them at the destination and is gone from its source.
\<close>

theorem apply_patch_effect:
  assumes "plain_disk (file_state w)" "apply_patch LOCAL_FS po wl patch cwd w = (w', Inr d)"
  shows "\<exists>args. parse_patch patch = Inr args \<and>
    hunks_effect po cwd (args_hunks args) (disk_view (file_state w)) = Some (disk_view (file_state w'))"
proof -
  obtain args where a: "parse_patch patch = Inr args" "apply_hunks LOCAL_FS po wl (args_hunks args) cwd w = (w', Inr d)"
    using assms(2) by (auto simp: apply_patch_def split: sum.splits prod.splits option.splits)
  from apply_hunks_files [OF a(2)] obtain ap where
    "apply_hunks_to_files LOCAL_FS po (args_hunks args) cwd (file_state w) delta_empty
       = (file_state w', delta_of (Inr d), Inr ap)" by blast
  from local.apply_hunks_to_files_ok [OF assms(1) this] a(1) show ?thesis by blast
qed

theorem apply_patch_effect_witness:
  "\<exists>d args. snd (apply_patch LOCAL_FS unix_path_ops buffer_writeln ex_good_patch [] ex_world) = Inr d \<and>
     parse_patch ex_good_patch = Inr args \<and>
     hunks_effect unix_path_ops [] (args_hunks args) (disk_view ex_disk) =
       Some (disk_view (file_state (fst (apply_patch LOCAL_FS unix_path_ops buffer_writeln ex_good_patch [] ex_world))))"
proof -
  obtain w' r where a: "apply_patch LOCAL_FS unix_path_ops buffer_writeln ex_good_patch [] ex_world = (w', r)" by fastforce
  have "case snd (apply_patch LOCAL_FS unix_path_ops buffer_writeln ex_good_patch [] ex_world) of Inr _ \<Rightarrow> True | Inl _ \<Rightarrow> False"
    by code_simp
  then obtain d where d: "r = Inr d" using a by (auto split: sum.splits)
  have p: "plain_disk (file_state ex_world)" "file_state ex_world = ex_disk" by code_simp (simp add: ex_world_def)
  from apply_patch_effect [OF p(1) a [unfolded d]] show ?thesis using a d p(2) by auto
qed

subsection \<open>Where the delta or the patch is not what it seems\<close>

text \<open>
  On a disk with a dangling symbolic link, \<^verbatim>\<open>get_metadata\<close> reports the link as not found, the
  write creates its target, and the delta is still exact: undoing it leaves the target behind.
\<close>

definition dangling_disk :: disk where
  "dangling_disk = \<lparr>nodes = [([str ''l''], Symlink [str ''t''])], file_size_limit = 8\<rparr>"

lemma dangling_symlink_delta_claims_exact:
  "case apply_hunks_to_files LOCAL_FS unix_path_ops [AddFile (str ''l'') (str ''x'')] [] dangling_disk delta_empty of
     (s', d, _) \<Rightarrow> exact d \<and> disk_view dangling_disk [str ''t''] = NoFile \<and>
       undo_changes (changes d) (disk_view s') [str ''t''] = Text (str ''x'')"
  by code_simp

text \<open>A hunk that moves a file onto itself writes the new contents and then removes them.\<close>

lemma move_onto_itself_deletes:
  "case apply_hunks_to_files LOCAL_FS unix_path_ops
          [UpdateFile (str ''a'') (Some (str ''a'')) [empty_chunk None\<lparr>old_lines := [str ''x''], new_lines := [str ''y'']\<rparr>]]
          [] ex_disk delta_empty of
     (s', d, r) \<Rightarrow> disk_view s' [str ''a''] = NoFile \<and> (case r of Inr a \<Rightarrow> modified a = [str ''a''] | Inl _ \<Rightarrow> False)"
  by code_simp

end
