(* ===== verification/Patch_Invocation.thy ===== *)
theory Patch_Invocation
  imports Apply_Patch_Correct
begin

section \<open>Recognising and verifying invocations\<close>

text \<open>
  apply-patch/src/invocation.rs: how an argument vector is recognised as an \<^verbatim>\<open>apply_patch\<close>
  call, and the verification that turns the parsed hunks into the proposed file changes a
  user approves. The Bash parser and its query are a parameter, a function from a script to
  the captures of its matches; so are the unified diff and \<^verbatim>\<open>PathUri\<close>.
\<close>

datatype path_convention = Posix | Windows

definition path_segments :: "path_convention \<Rightarrow> rstring \<Rightarrow> rstring list" where
  "path_segments c p =
     (case c of Posix \<Rightarrow> split_on 47 p | Windows \<Rightarrow> split_on 47 (map (\<lambda>ch. if ch = 92 then 47 else ch) p))"

datatype extract_heredoc_error =
    CommandDidNotStartWithApplyPatch
  | FailedToLoadBashGrammar
  | FailedToParsePatchIntoAst

datatype capture = CaptureHeredoc rstring | CaptureCdPath rstring | CaptureCdRawString rstring | CaptureOther

type_synonym bash_query = "rstring \<Rightarrow> (extract_heredoc_error, capture list list) result"

datatype maybe_apply_patch =
    MaybeBody apply_patch_args
  | MaybeShellParseError extract_heredoc_error
  | MaybePatchParseError parse_error
  | MaybeNotApplyPatch

definition APPLY_PATCH_COMMANDS :: "rstring list" where
  "APPLY_PATCH_COMMANDS = [str ''apply_patch'', str ''applypatch'']"

definition classify_shell_name :: "rstring \<Rightarrow> path_convention \<Rightarrow> rstring option" where
  "classify_shell_name shell c =
     (case path_segments c shell of
        [] \<Rightarrow> None
      | segs \<Rightarrow>
          (let basename = last segs;
               stem = (case rsplit_once 46 basename of
                         Some (st, _) \<Rightarrow> if st \<noteq> [] then st else basename
                       | None \<Rightarrow> basename)
           in Some (to_ascii_lowercase stem)))"

definition classify_shell :: "rstring \<Rightarrow> rstring \<Rightarrow> path_convention \<Rightarrow> bool" where
  "classify_shell shell flag c =
     (case classify_shell_name shell c of
        Some name \<Rightarrow>
          name \<in> set [str ''bash'', str ''zsh'', str ''sh''] \<and> flag \<in> set [str ''-lc'', str ''-c'']
      | None \<Rightarrow> False)"

definition parse_shell_script :: "rstring list \<Rightarrow> path_convention option \<Rightarrow> rstring option" where
  "parse_shell_script argv convention =
     (case convention of
        None \<Rightarrow> None
      | Some c \<Rightarrow>
          (case argv of
             [shell, flag, script] \<Rightarrow> if classify_shell shell flag c then Some script else None
           | _ \<Rightarrow> None))"

definition unquote_raw_string :: "rstring \<Rightarrow> rstring" where
  "unquote_raw_string raw =
     (case strip_prefix [39] raw of
        Some s \<Rightarrow> (case strip_suffix [39] s of Some t \<Rightarrow> t | None \<Rightarrow> raw)
      | None \<Rightarrow> raw)"

fun read_captures :: "capture list \<Rightarrow> rstring option \<times> rstring option \<Rightarrow> rstring option \<times> rstring option" where
  "read_captures [] (heredoc, cd) = (heredoc, cd)"
| "read_captures (CaptureHeredoc t # cs) (heredoc, cd) = read_captures cs (Some (trim_end_matches LF t), cd)"
| "read_captures (CaptureCdPath t # cs) (heredoc, cd) = read_captures cs (heredoc, Some t)"
| "read_captures (CaptureCdRawString t # cs) (heredoc, cd) = read_captures cs (heredoc, Some (unquote_raw_string t))"
| "read_captures (CaptureOther # cs) (heredoc, cd) = read_captures cs (heredoc, cd)"

fun first_heredoc :: "capture list list \<Rightarrow> (extract_heredoc_error, rstring \<times> rstring option) result" where
  "first_heredoc [] = Inl CommandDidNotStartWithApplyPatch"
| "first_heredoc (m # ms) =
     (case read_captures m (None, None) of
        (Some heredoc, cd) \<Rightarrow> Inr (heredoc, cd)
      | (None, _) \<Rightarrow> first_heredoc ms)"

definition extract_apply_patch_from_bash ::
  "bash_query \<Rightarrow> rstring \<Rightarrow> (extract_heredoc_error, rstring \<times> rstring option) result" where
  "extract_apply_patch_from_bash query src =
     (case query src of Inl e \<Rightarrow> Inl e | Inr matches \<Rightarrow> first_heredoc matches)"

definition parse_shell_invocation :: "bash_query \<Rightarrow> rstring list \<Rightarrow> path_convention option \<Rightarrow> maybe_apply_patch" where
  "parse_shell_invocation query argv convention =
     (case parse_shell_script argv convention of
        None \<Rightarrow> MaybeNotApplyPatch
      | Some script \<Rightarrow>
          (case extract_apply_patch_from_bash query script of
             Inr (body, workdir) \<Rightarrow>
               (case parse_patch body of
                  Inr source \<Rightarrow> MaybeBody (source\<lparr>args_workdir := workdir\<rparr>)
                | Inl e \<Rightarrow> MaybePatchParseError e)
           | Inl CommandDidNotStartWithApplyPatch \<Rightarrow> MaybeNotApplyPatch
           | Inl e \<Rightarrow> MaybeShellParseError e))"

definition maybe_parse_apply_patch :: "bash_query \<Rightarrow> rstring list \<Rightarrow> path_convention option \<Rightarrow> maybe_apply_patch" where
  "maybe_parse_apply_patch query argv convention =
     (case argv of
        [cmd, body] \<Rightarrow>
          if cmd \<in> set APPLY_PATCH_COMMANDS then
            (case parse_patch body of Inr source \<Rightarrow> MaybeBody source | Inl e \<Rightarrow> MaybePatchParseError e)
          else parse_shell_invocation query argv convention
      | _ \<Rightarrow> parse_shell_invocation query argv convention)"

subsection \<open>Verification against the file system\<close>

datatype 'p apply_patch_file_change =
    ChangeAdd rstring
  | ChangeDelete rstring
  | ChangeUpdate rstring "'p option" rstring

record 'p apply_patch_action =
  action_changes :: "'p \<Rightarrow> 'p apply_patch_file_change option"
  action_patch :: rstring
  action_cwd :: 'p

datatype 'p maybe_apply_patch_verified =
    VerifiedBody "'p apply_patch_action"
  | VerifiedShellParseError extract_heredoc_error
  | CorrectnessError apply_patch_error
  | VerifiedNotApplyPatch

record apply_patch_file_update =
  update_unified_diff :: rstring
  update_original_content :: rstring
  update_content :: rstring

definition unified_diff_from_chunks ::
  "(nat \<Rightarrow> rstring \<Rightarrow> rstring \<Rightarrow> rstring) \<Rightarrow> ('s, 'p) executor_fs \<Rightarrow> 'p path_ops \<Rightarrow> 's \<Rightarrow> 'p \<Rightarrow> update_file_chunk list
    \<Rightarrow> (apply_patch_error, apply_patch_file_update) result" where
  "unified_diff_from_chunks diff fs po s p chunks =
     (case derive_new_contents_from_chunks (read_file_text fs s p) (native_path_string po p) chunks of
        Inl e \<Rightarrow> Inl e
      | Inr ap \<Rightarrow>
          Inr \<lparr>update_unified_diff = diff 1 (original_contents ap) (new_contents ap),
               update_original_content = original_contents ap, update_content = new_contents ap\<rparr>)"

text \<open>One turn of the loop of \<^verbatim>\<open>try_verify_apply_patch_args\<close>: the path and the change it inserts.\<close>

definition verify_hunk ::
  "(nat \<Rightarrow> rstring \<Rightarrow> rstring \<Rightarrow> rstring) \<Rightarrow> ('s, 'p) executor_fs \<Rightarrow> 'p path_ops \<Rightarrow> 's \<Rightarrow> 'p \<Rightarrow> hunk
    \<Rightarrow> (apply_patch_error, 'p \<times> 'p apply_patch_file_change) result" where
  "verify_hunk diff fs po s cwd h =
     (case resolve_path po h cwd of
        Inl e \<Rightarrow> Inl (PathUriError e)
      | Inr p \<Rightarrow>
          (case h of
             AddFile _ contents \<Rightarrow> Inr (p, ChangeAdd contents)
           | DeleteFile _ \<Rightarrow>
               (case read_file_text fs s p of
                  Inl e \<Rightarrow> Inl (IoError (str ''Failed to read '' @ native_path_string po p) e)
                | Inr content \<Rightarrow> Inr (p, ChangeDelete content))
           | UpdateFile _ mv chunks \<Rightarrow>
               (case unified_diff_from_chunks diff fs po s p chunks of
                  Inl e \<Rightarrow> Inl e
                | Inr upd \<Rightarrow>
                    (case mv of
                       None \<Rightarrow> Inr (p, ChangeUpdate (update_unified_diff upd) None (update_content upd))
                     | Some m \<Rightarrow>
                         (case join_path po cwd m of
                            Inl e \<Rightarrow> Inl (PathUriError e)
                          | Inr dest \<Rightarrow>
                              Inr (p, ChangeUpdate (update_unified_diff upd) (Some dest) (update_content upd)))))))"

fun verify_hunks ::
  "(nat \<Rightarrow> rstring \<Rightarrow> rstring \<Rightarrow> rstring) \<Rightarrow> ('s, 'p) executor_fs \<Rightarrow> 'p path_ops \<Rightarrow> 's \<Rightarrow> 'p \<Rightarrow> hunk list
    \<Rightarrow> ('p \<Rightarrow> 'p apply_patch_file_change option)
    \<Rightarrow> (apply_patch_error, 'p \<Rightarrow> 'p apply_patch_file_change option) result" where
  "verify_hunks diff fs po s cwd [] m = Inr m"
| "verify_hunks diff fs po s cwd (h # hs) m =
     (case verify_hunk diff fs po s cwd h of
        Inl e \<Rightarrow> Inl e
      | Inr (p, c) \<Rightarrow> verify_hunks diff fs po s cwd hs (m(p \<mapsto> c)))"

definition try_verify_apply_patch_args ::
  "(nat \<Rightarrow> rstring \<Rightarrow> rstring \<Rightarrow> rstring) \<Rightarrow> ('s, 'p) executor_fs \<Rightarrow> 'p path_ops \<Rightarrow> apply_patch_args \<Rightarrow> 'p \<Rightarrow> 's
    \<Rightarrow> (apply_patch_error, 'p apply_patch_action) result" where
  "try_verify_apply_patch_args diff fs po args cwd s =
     (case (case args_workdir args of Some dir \<Rightarrow> join_path po cwd dir | None \<Rightarrow> Inr cwd) of
        Inl e \<Rightarrow> Inl (PathUriError e)
      | Inr effective_cwd \<Rightarrow>
          (case verify_hunks diff fs po s effective_cwd (args_hunks args) Map.empty of
             Inl e \<Rightarrow> Inl e
           | Inr m \<Rightarrow> Inr \<lparr>action_changes = m, action_patch = args_patch args, action_cwd = effective_cwd\<rparr>))"

definition verify_apply_patch_args ::
  "(nat \<Rightarrow> rstring \<Rightarrow> rstring \<Rightarrow> rstring) \<Rightarrow> ('s, 'p) executor_fs \<Rightarrow> 'p path_ops \<Rightarrow> apply_patch_args \<Rightarrow> 'p \<Rightarrow> 's
    \<Rightarrow> 'p maybe_apply_patch_verified" where
  "verify_apply_patch_args diff fs po args cwd s =
     (case try_verify_apply_patch_args diff fs po args cwd s of
        Inr action \<Rightarrow> VerifiedBody action
      | Inl e \<Rightarrow> CorrectnessError e)"

definition is_ok :: "'e + 'a \<Rightarrow> bool" where
  "is_ok r = (case r of Inr _ \<Rightarrow> True | Inl _ \<Rightarrow> False)"

definition maybe_parse_apply_patch_verified ::
  "bash_query \<Rightarrow> ('p \<Rightarrow> path_convention option) \<Rightarrow> (nat \<Rightarrow> rstring \<Rightarrow> rstring \<Rightarrow> rstring) \<Rightarrow> ('s, 'p) executor_fs
    \<Rightarrow> 'p path_ops \<Rightarrow> rstring list \<Rightarrow> 'p \<Rightarrow> 's \<Rightarrow> 'p maybe_apply_patch_verified" where
  "maybe_parse_apply_patch_verified query convention diff fs po argv cwd s =
     (if (case argv of [body] \<Rightarrow> is_ok (parse_patch body) | _ \<Rightarrow> False)
      then CorrectnessError ImplicitInvocation
      else if (case parse_shell_script argv (convention cwd) of
                 Some script \<Rightarrow> is_ok (parse_patch script) | None \<Rightarrow> False)
      then CorrectnessError ImplicitInvocation
      else case maybe_parse_apply_patch query argv (convention cwd) of
        MaybeBody args \<Rightarrow> verify_apply_patch_args diff fs po args cwd s
      | MaybeShellParseError e \<Rightarrow> VerifiedShellParseError e
      | MaybePatchParseError e \<Rightarrow> CorrectnessError (ParseError e)
      | MaybeNotApplyPatch \<Rightarrow> VerifiedNotApplyPatch)"

subsection \<open>What is approved is what is written\<close>

definition change_holds :: "('p \<Rightarrow> file_view) \<Rightarrow> 'p \<Rightarrow> 'p apply_patch_file_change \<Rightarrow> bool" where
  "change_holds v p c =
     (case c of
        ChangeAdd t \<Rightarrow> v p = Text t
      | ChangeDelete _ \<Rightarrow> v p = NoFile
      | ChangeUpdate _ None t \<Rightarrow> v p = Text t
      | ChangeUpdate _ (Some dest) t \<Rightarrow> v p = NoFile \<and> v dest = Text t)"

definition moves_elsewhere :: "'p path_ops \<Rightarrow> 'p \<Rightarrow> hunk \<Rightarrow> bool" where
  "moves_elsewhere po cwd h =
     (case h of UpdateFile p (Some m) _ \<Rightarrow> join_path po cwd p \<noteq> join_path po cwd m | _ \<Rightarrow> True)"

fun independent_hunks :: "'p path_ops \<Rightarrow> 'p \<Rightarrow> hunk list \<Rightarrow> bool" where
  "independent_hunks po cwd [] = True"
| "independent_hunks po cwd (h # hs) \<longleftrightarrow>
     moves_elsewhere po cwd h \<and> (\<forall>h' \<in> set hs. hunk_uris po cwd h \<inter> hunk_uris po cwd h' = {}) \<and>
     independent_hunks po cwd hs"

lemma hunk_effect_frame:
  assumes "hunk_effect po cwd h v = Some v'" "q \<notin> hunk_uris po cwd h"
  shows "v' q = v q"
  using assms
  by (auto simp: hunk_effect_def hunk_uris_def hunk_path_def
      split: sum.splits hunk.splits option.splits file_view.splits)

lemma hunks_effect_frame:
  assumes "hunks_effect po cwd hs v = Some v'" "\<forall>h \<in> set hs. q \<notin> hunk_uris po cwd h"
  shows "v' q = v q"
  using assms by (induction hs arbitrary: v) (auto split: option.splits dest: hunk_effect_frame)

lemma change_holds_cong:
  assumes "verify_hunk diff fs po s cwd h = Inr (p, c)" "\<forall>q \<in> hunk_uris po cwd h. v q = v' q"
  shows "change_holds v p c = change_holds v' p c"
  using assms
  by (auto simp: verify_hunk_def change_holds_def hunk_uris_def hunk_path_def
      split: sum.splits hunk.splits option.splits)

lemma verified_effect:
  assumes "verify_hunk diff fs po s cwd h = Inr (p, c)" "moves_elsewhere po cwd h"
    and "\<forall>q t. read_file_text fs s q = Inr t \<longrightarrow> v0 q = Text t"
    and "\<forall>q \<in> hunk_uris po cwd h. v q = v0 q" "hunk_effect po cwd h v = Some v'"
  shows "change_holds v' p c"
proof (cases h)
  case (UpdateFile path mv chunks)
  have p: "resolve_path po h cwd = Inr p"
    using assms(1) by (auto simp: verify_hunk_def split: sum.splits hunk.splits option.splits)
  then obtain ap where ap:
      "derive_new_contents_from_chunks (read_file_text fs s p) (native_path_string po p) chunks = Inr ap"
    using assms(1) UpdateFile by (auto simp: verify_hunk_def unified_diff_from_chunks_def split: sum.splits)
  note old = derive_original [OF ap]
  then have "v p = Text (original_contents ap)" using assms(3,4) p by (auto simp: hunk_uris_def)
  then show ?thesis
    using assms(1,2,5) p ap old UpdateFile
    by (auto simp: verify_hunk_def unified_diff_from_chunks_def hunk_effect_def change_holds_def moves_elsewhere_def
        resolve_path_def hunk_source_path_def split: option.splits sum.splits)
qed (use assms in \<open>auto simp: verify_hunk_def hunk_effect_def change_holds_def split: sum.splits\<close>)

lemma verified_hunks_effect:
  assumes "h \<in> set hs" "verify_hunk diff fs po s cwd h = Inr (p, c)" "independent_hunks po cwd hs"
    and "\<forall>q t. read_file_text fs s q = Inr t \<longrightarrow> v0 q = Text t"
    and "\<forall>h \<in> set hs. \<forall>q \<in> hunk_uris po cwd h. v q = v0 q" "hunks_effect po cwd hs v = Some v'"
  shows "change_holds v' p c"
  using assms
proof (induction hs arbitrary: v)
  case (Cons k hs)
  obtain v1 where v1: "hunk_effect po cwd k v = Some v1" "hunks_effect po cwd hs v1 = Some v'"
    using Cons.prems(6) by (auto split: option.splits)
  have disj: "\<forall>h' \<in> set hs. hunk_uris po cwd k \<inter> hunk_uris po cwd h' = {}" using Cons.prems(3) by simp
  show ?case
  proof (cases "h \<in> set hs")
    case True
    have "\<forall>h \<in> set hs. \<forall>q \<in> hunk_uris po cwd h. v1 q = v0 q"
      using Cons.prems(5) hunk_effect_frame [OF v1(1)] disj by fastforce
    then show ?thesis using Cons.IH [OF True Cons.prems(2) _ Cons.prems(4) _ v1(2)] Cons.prems(3) by simp
  next
    case False
    then have h: "h = k" using Cons.prems(1) by simp
    have "change_holds v1 p c"
      using verified_effect [OF Cons.prems(2) _ Cons.prems(4) _ ] v1(1) Cons.prems(3,5) h by auto
    moreover have "\<forall>q \<in> hunk_uris po cwd h. v1 q = v' q"
      using hunks_effect_frame [OF v1(2)] disj h by fastforce
    ultimately show ?thesis using change_holds_cong [OF Cons.prems(2)] by blast
  qed
qed simp

lemma verify_hunks_from:
  assumes "verify_hunks diff fs po s cwd hs m = Inr m'" "m' p = Some c"
  shows "m p = Some c \<or> (\<exists>h \<in> set hs. verify_hunk diff fs po s cwd h = Inr (p, c))"
  using assms
  by (induction hs arbitrary: m) (fastforce split: sum.splits prod.splits if_splits)+

text \<open>
  C4. What the user approves is what is written: when the verified action of a patch lists a
  change of a path and applying its hunks then succeeds, the file system holds exactly that
  change, the proposed new content included. The hunks name different files, and no file is
  moved onto itself.
\<close>

theorem verified_changes_written:
  assumes "try_verify_apply_patch_args diff LOCAL_FS po args cwd (file_state w) = Inr action"
    and "plain_disk (file_state w)" "independent_hunks po (action_cwd action) (args_hunks args)"
    and "apply_hunks LOCAL_FS po wl (args_hunks args) (action_cwd action) w = (w', Inr d)"
    and "action_changes action p = Some c"
  shows "change_holds (disk_view (file_state w')) p c"
proof -
  have v: "verify_hunks diff LOCAL_FS po (file_state w) (action_cwd action) (args_hunks args) Map.empty
      = Inr (action_changes action)"
    using assms(1) by (auto simp: try_verify_apply_patch_args_def split: sum.splits)
  obtain h where h: "h \<in> set (args_hunks args)"
      "verify_hunk diff LOCAL_FS po (file_state w) (action_cwd action) h = Inr (p, c)"
    using verify_hunks_from [OF v assms(5)] by auto
  from apply_hunks_files [OF assms(4)] obtain a where
    "apply_hunks_to_files LOCAL_FS po (args_hunks args) (action_cwd action) (file_state w) delta_empty
       = (file_state w', d, Inr a)" by (auto simp: delta_of_def)
  from local.apply_hunks_to_files_ok [OF assms(2) this]
  have e: "hunks_effect po (action_cwd action) (args_hunks args) (disk_view (file_state w))
      = Some (disk_view (file_state w'))" by blast
  show ?thesis
    using verified_hunks_effect [OF h assms(3) _ _ e, of "disk_view (file_state w)"]
      local.read_text [OF assms(2)] by blast
qed

definition ex_args :: apply_patch_args where
  "ex_args = \<lparr>args_patch = [], args_hunks =
     [UpdateFile (str ''a'') (Some (str ''c'')) [empty_chunk None\<lparr>old_lines := [str ''x''], new_lines := [str ''y'']\<rparr>],
      AddFile (str ''n'') (str ''z'')], args_workdir = None, args_environment_id = None\<rparr>"

theorem verified_changes_written_witness:
  "disk_view (file_state (fst (apply_hunks LOCAL_FS unix_path_ops buffer_writeln (args_hunks ex_args) [] ex_world)))
     [str ''c''] = Text (str ''y'' @ [LF])"
proof -
  let ?v = "try_verify_apply_patch_args (\<lambda>_ _ _. []) LOCAL_FS unix_path_ops ex_args [] (file_state ex_world)"
  have c: "case ?v of Inl _ \<Rightarrow> False | Inr act \<Rightarrow> action_cwd act = [] \<and>
      action_changes act [str ''a''] = Some (ChangeUpdate [] (Some [str ''c'']) (str ''y'' @ [LF]))"
    by code_simp
  then obtain act where act: "?v = Inr act" "action_cwd act = []"
      "action_changes act [str ''a''] = Some (ChangeUpdate [] (Some [str ''c'']) (str ''y'' @ [LF]))"
    by (auto split: sum.splits)
  have "case snd (apply_hunks LOCAL_FS unix_path_ops buffer_writeln (args_hunks ex_args) [] ex_world) of
      Inl _ \<Rightarrow> False | Inr _ \<Rightarrow> True" by code_simp
  then obtain w' d where a: "apply_hunks LOCAL_FS unix_path_ops buffer_writeln (args_hunks ex_args) [] ex_world = (w', Inr d)"
    by (metis (no_types, lifting) old.sum.simps(5) prod.collapse sumE)
  have p: "plain_disk (file_state ex_world)" by code_simp
  have j: "join_path unix_path_ops [] (str ''a'') = Inr [str ''a'']" "join_path unix_path_ops [] (str ''c'') = Inr [str ''c'']"
    "join_path unix_path_ops [] (str ''n'') = Inr [str ''n'']"
    "str ''a'' \<noteq> str ''c''" "str ''n'' \<noteq> str ''a''" "str ''n'' \<noteq> str ''c''"
    by code_simp+
  have "independent_hunks unix_path_ops [] (args_hunks ex_args)"
    using j by (auto simp: ex_args_def moves_elsewhere_def hunk_uris_def resolve_path_def hunk_source_path_def hunk_path_def)
  from verified_changes_written [OF act(1) p _ _ act(3), of buffer_writeln w' d] this a act(2)
  show ?thesis by (simp add: change_holds_def)
qed

end
