(* ===== verification/Absolute_Path.thy ===== *)
theory Absolute_Path
  imports Prelude
begin

section \<open>Absolute paths: utils/absolute-path\<close>

text \<open>
  Lexical normalisation of POSIX paths (absolutize.rs) and \<^verbatim>\<open>AbsolutePathBuf::from_absolute_path\<close>
  (lib.rs), which expands a leading tilde and resolves a relative path against the current
  directory. Paths are strings; the home and the current directory are those of the process.
\<close>

record path_env =
  home_dir :: "rstring option"
  current_dir :: "rstring option"

abbreviation (input) "SLASH \<equiv> (47 :: nat)"

definition dot :: rstring where "dot = [46]"
definition dotdot :: rstring where "dotdot = [46, 46]"

definition is_absolute :: "rstring \<Rightarrow> bool" where
  "is_absolute p = starts_with [SLASH] p"

text \<open>The components of \<^verbatim>\<open>Path::components\<close> other than the root; empty and \<open>.\<close> ones are dropped.\<close>

definition path_components :: "rstring \<Rightarrow> rstring list" where
  "path_components p = filter (\<lambda>c. c \<noteq> [] \<and> c \<noteq> dot) (split_on SLASH p)"

definition normalize_step :: "rstring \<Rightarrow> rstring list \<Rightarrow> rstring list" where
  "normalize_step c acc = (if c = dotdot then butlast acc else acc @ [c])"

definition render_path :: "bool \<Rightarrow> rstring list \<Rightarrow> rstring" where
  "render_path rooted cs = (if rooted then [SLASH] else []) @ join [SLASH] cs"

definition normalize_path :: "rstring \<Rightarrow> rstring" where
  "normalize_path p =
     (let r = render_path (is_absolute p) (fold normalize_step (path_components p) [])
      in if r = [] then dot else r)"

definition path_join :: "rstring \<Rightarrow> rstring \<Rightarrow> rstring" where
  "path_join base p =
     (if is_absolute p then p
      else if base = [] \<or> last base = SLASH then base @ p
      else base @ [SLASH] @ p)"

definition absolutize_from :: "rstring \<Rightarrow> rstring \<Rightarrow> rstring" where
  "absolutize_from p base = normalize_path (if is_absolute p then p else path_join base p)"

definition absolutize :: "path_env \<Rightarrow> rstring \<Rightarrow> rstring option" where
  "absolutize env p =
     (if is_absolute p then Some (normalize_path p)
      else map_option (absolutize_from p) (current_dir env))"

definition trim_start_matches :: "rchar \<Rightarrow> rstring \<Rightarrow> rstring" where
  "trim_start_matches c s = dropWhile (\<lambda>x. x = c) s"

definition maybe_expand_home_directory :: "path_env \<Rightarrow> rstring \<Rightarrow> rstring" where
  "maybe_expand_home_directory env p =
     (case (home_dir env, strip_prefix [126] p) of
        (Some home, Some rest) \<Rightarrow>
          if rest = [] then home
          else (case strip_prefix [SLASH] rest of
                  Some r \<Rightarrow> path_join home (trim_start_matches SLASH r)
                | None \<Rightarrow> p)
      | _ \<Rightarrow> p)"

definition from_absolute_path :: "path_env \<Rightarrow> rstring \<Rightarrow> rstring option" where
  "from_absolute_path env p = absolutize env (maybe_expand_home_directory env p)"

definition file_name :: "rstring \<Rightarrow> rstring option" where
  "file_name p =
     (let cs = path_components p
      in if cs = [] \<or> last cs = dotdot then None else Some (last cs))"

subsection \<open>Normal forms\<close>

definition normal_component :: "rstring \<Rightarrow> bool" where
  "normal_component c \<longleftrightarrow> c \<noteq> [] \<and> c \<noteq> dot \<and> c \<noteq> dotdot \<and> SLASH \<notin> set c"

lemma split_on_no_sep_parts: "c \<in> set (split_on d s) \<Longrightarrow> d \<notin> set c"
proof (induction s arbitrary: c)
  case (Cons x s)
  then show ?case by (cases "split_on d s") (auto split: if_splits)
qed simp

lemma fold_normalize_normal:
  assumes "list_all normal_component acc" "\<forall>c \<in> set cs. c = dotdot \<or> normal_component c"
  shows "list_all normal_component (fold normalize_step cs acc)"
  using assms
proof (induction cs arbitrary: acc)
  case (Cons c cs)
  then have "list_all normal_component (normalize_step c acc)"
    by (auto simp: normalize_step_def list_all_iff dest: in_set_butlastD)
  with Cons show ?case by simp
qed simp

lemma fold_normalize_id:
  assumes "list_all normal_component cs"
  shows "fold normalize_step cs acc = acc @ cs"
  using assms by (induction cs arbitrary: acc) (auto simp: normalize_step_def normal_component_def)

lemma path_components_normal: "c \<in> set (path_components p) \<Longrightarrow> c = dotdot \<or> normal_component c"
  by (auto simp: path_components_def normal_component_def dest: split_on_no_sep_parts)

definition normal_components_of :: "rstring \<Rightarrow> rstring list" where
  "normal_components_of p = fold normalize_step (path_components p) []"

lemma normal_components_of_normal: "list_all normal_component (normal_components_of p)"
  unfolding normal_components_of_def
  by (rule fold_normalize_normal) (auto dest: path_components_normal)

lemma components_render:
  assumes "list_all normal_component cs"
  shows "path_components (render_path rooted cs) = cs"
proof (cases "cs = []")
  case True
  then show ?thesis by (cases rooted) (simp_all add: path_components_def render_path_def dot_def)
next
  case False
  have "split_on SLASH (join [SLASH] cs) = cs"
    using assms False by (intro split_on_join) (auto simp: list_all_iff normal_component_def)
  moreover have "filter (\<lambda>c. c \<noteq> [] \<and> c \<noteq> dot) cs = cs"
    using assms by (auto simp: filter_id_conv list_all_iff normal_component_def)
  ultimately show ?thesis
    by (cases rooted) (simp_all add: path_components_def render_path_def)
qed

lemma normalize_path_rooted:
  assumes "is_absolute p"
  shows "normalize_path p = render_path True (normal_components_of p)"
  using assms by (simp add: normalize_path_def normal_components_of_def render_path_def Let_def)

lemma is_absolute_render [simp]: "is_absolute (render_path True cs)"
  by (simp add: is_absolute_def render_path_def starts_with_def)

lemma normalize_path_idem:
  assumes "is_absolute p"
  shows "normalize_path (normalize_path p) = normalize_path p"
proof -
  let ?r = "render_path True (normal_components_of p)"
  have "path_components ?r = normal_components_of p"
    by (rule components_render [OF normal_components_of_normal])
  then have "normal_components_of ?r = normal_components_of p"
    using fold_normalize_id [OF normal_components_of_normal [of p], of "[]"]
    by (simp add: normal_components_of_def [of ?r])
  then show ?thesis by (simp add: normalize_path_rooted [OF assms] normalize_path_rooted)
qed

text \<open>
  C40. What \<^verbatim>\<open>AbsolutePathBuf::from_absolute_path\<close> returns is a normal form: when the current
  directory is absolute, the result is absolute, none of its components is empty, a dot or a
  double dot, and converting it again gives it back.
\<close>

theorem from_absolute_path_normal:
  assumes "from_absolute_path env p = Some q"
    and "\<forall>d. current_dir env = Some d \<longrightarrow> is_absolute d"
  shows "is_absolute q \<and> list_all normal_component (path_components q) \<and> from_absolute_path env q = Some q"
proof -
  let ?e = "maybe_expand_home_directory env p"
  have join: "is_absolute (path_join b x)" if "is_absolute b" for b x
    using that by (cases b) (auto simp: path_join_def is_absolute_def starts_with_def)
  obtain x where x: "is_absolute x" "q = normalize_path x"
    using assms(1,2) join
    by (auto simp: from_absolute_path_def absolutize_def absolutize_from_def split: if_splits)
  then have q: "q = render_path True (normal_components_of x)" by (simp add: normalize_path_rooted)
  have idem: "normalize_path q = q" using normalize_path_idem x by simp
  have "is_absolute q" by (simp add: q)
  moreover from this have "maybe_expand_home_directory env q = q"
    by (auto simp: maybe_expand_home_directory_def is_absolute_def strip_prefix_def starts_with_def
        split: option.splits)
  moreover have "path_components q = normal_components_of x"
    unfolding q by (rule components_render [OF normal_components_of_normal])
  ultimately show ?thesis
    using normal_components_of_normal idem by (simp add: from_absolute_path_def absolutize_def)
qed

theorem from_absolute_path_normal_witness:
  "is_absolute (str ''/w/git'') \<and> from_absolute_path \<lparr>home_dir = None, current_dir = Some (str ''/w/x'')\<rparr> (str ''/w/git'')
     = Some (str ''/w/git'')"
proof -
  let ?env = "\<lparr>home_dir = None, current_dir = Some (str ''/w/x'')\<rparr>"
  have a: "from_absolute_path ?env (str ''.././git'') = Some (str ''/w/git'')" "is_absolute (str ''/w/x'')"
    by code_simp+
  show ?thesis using from_absolute_path_normal [OF a(1)] a(2) by simp
qed

end
