(* ===== verification/Exec_Rule.thy ===== *)
theory Exec_Rule
  imports Absolute_Path
begin

section \<open>Execution rules: execpolicy/src/rule.rs, decision.rs, executable\_name.rs, error.rs\<close>

text \<open>
  Decisions, prefix patterns, rule matches and network rules. Decisions are ordered as the
  derived \<^verbatim>\<open>Ord\<close> of the source orders them, so that the strictest one is the maximum.
\<close>

datatype decision = Allow | Prompt | Forbidden

definition decision_rank :: "decision \<Rightarrow> nat" where
  "decision_rank d = (case d of Allow \<Rightarrow> 0 | Prompt \<Rightarrow> 1 | Forbidden \<Rightarrow> 2)"

lemma decision_rank_eq [simp]: "decision_rank a = decision_rank b \<longleftrightarrow> a = b"
  by (cases a; cases b) (simp_all add: decision_rank_def)

instantiation decision :: linorder
begin

definition less_eq_decision :: "decision \<Rightarrow> decision \<Rightarrow> bool" where
  "less_eq_decision a b \<longleftrightarrow> decision_rank a \<le> decision_rank b"

definition less_decision :: "decision \<Rightarrow> decision \<Rightarrow> bool" where
  "less_decision a b \<longleftrightarrow> decision_rank a < decision_rank b"

instance
  by standard (use decision_rank_eq in \<open>auto simp: less_eq_decision_def less_decision_def simp del: decision_rank_eq\<close>)

end

lemma decision_order [simp]: "Allow \<le> d" "d \<le> Forbidden" "Forbidden \<le> d \<longleftrightarrow> d = Forbidden" "d \<le> Allow \<longleftrightarrow> d = Allow"
  by (cases d; simp add: less_eq_decision_def decision_rank_def)+

record text_range =
  start_position :: "nat \<times> nat"
  end_position :: "nat \<times> nat"

record error_location =
  location_path :: rstring
  location_range :: text_range

datatype error =
    InvalidDecision rstring
  | InvalidPattern rstring
  | InvalidExample rstring
  | InvalidRule rstring
  | ExampleDidNotMatch "rstring list" "error_location option"
  | ExampleDidMatch rstring "error_location option"
  | Starlark rstring

definition with_location :: "error_location \<Rightarrow> error \<Rightarrow> error" where
  "with_location loc e =
     (case e of
        ExampleDidNotMatch ex None \<Rightarrow> ExampleDidNotMatch ex (Some loc)
      | ExampleDidMatch ex None \<Rightarrow> ExampleDidMatch ex (Some loc)
      | other \<Rightarrow> other)"

definition decision_parse :: "rstring \<Rightarrow> (error, decision) result" where
  "decision_parse raw =
     (if raw = str ''allow'' then Inr Allow
      else if raw = str ''prompt'' then Inr Prompt
      else if raw = str ''forbidden'' then Inr Forbidden
      else Inl (InvalidDecision raw))"

text \<open>Executable names; the suffixes of Windows executables are not stripped on POSIX.\<close>

definition executable_lookup_key :: "rstring \<Rightarrow> rstring" where
  "executable_lookup_key raw = raw"

definition executable_path_lookup_key :: "rstring \<Rightarrow> rstring option" where
  "executable_path_lookup_key p = map_option executable_lookup_key (file_name p)"

subsection \<open>Prefix patterns\<close>

datatype pattern_token = Single rstring | Alts "rstring list"

definition token_matches :: "pattern_token \<Rightarrow> rstring \<Rightarrow> bool" where
  "token_matches pt t = (case pt of Single e \<Rightarrow> e = t | Alts as \<Rightarrow> list_ex (\<lambda>a. a = t) as)"

definition alternatives :: "pattern_token \<Rightarrow> rstring list" where
  "alternatives pt = (case pt of Single e \<Rightarrow> [e] | Alts as \<Rightarrow> as)"

record prefix_pattern =
  pat_first :: rstring
  pat_rest :: "pattern_token list"

fun rest_matches :: "pattern_token list \<Rightarrow> rstring list \<Rightarrow> bool" where
  "rest_matches (pt # pts) (t # ts) = (token_matches pt t \<and> rest_matches pts ts)"
| "rest_matches _ _ = True"

definition matches_prefix :: "prefix_pattern \<Rightarrow> rstring list \<Rightarrow> rstring list option" where
  "matches_prefix pat cmd =
     (let pattern_length = length (pat_rest pat) + 1 in
      if length cmd < pattern_length \<or> hd cmd \<noteq> pat_first pat then None
      else if rest_matches (pat_rest pat) (take (pattern_length - 1) (drop 1 cmd))
      then Some (take pattern_length cmd)
      else None)"

datatype rule_match =
    PrefixRuleMatch "rstring list" decision "rstring option" "rstring option"
  | HeuristicsRuleMatch "rstring list" decision

definition match_decision :: "rule_match \<Rightarrow> decision" where
  "match_decision m = (case m of PrefixRuleMatch _ d _ _ \<Rightarrow> d | HeuristicsRuleMatch _ d \<Rightarrow> d)"

definition with_resolved_program :: "rstring \<Rightarrow> rule_match \<Rightarrow> rule_match" where
  "with_resolved_program program m =
     (case m of
        PrefixRuleMatch prefix d _ j \<Rightarrow> PrefixRuleMatch prefix d (Some program) j
      | other \<Rightarrow> other)"

record prefix_rule =
  rule_pattern :: prefix_pattern
  rule_decision :: decision
  rule_justification :: "rstring option"

definition rule_program :: "prefix_rule \<Rightarrow> rstring" where
  "rule_program r = pat_first (rule_pattern r)"

definition rule_matches :: "prefix_rule \<Rightarrow> rstring list \<Rightarrow> rule_match option" where
  "rule_matches r cmd =
     (case matches_prefix (rule_pattern r) cmd of
        None \<Rightarrow> None
      | Some prefix \<Rightarrow> Some (PrefixRuleMatch prefix (rule_decision r) None (rule_justification r)))"

subsection \<open>Network rules\<close>

datatype network_rule_protocol = Http | Https | Socks5Tcp | Socks5Udp

definition network_rule_protocol_parse :: "rstring \<Rightarrow> (error, network_rule_protocol) result" where
  "network_rule_protocol_parse raw =
     (if raw = str ''http'' then Inr Http
      else if raw \<in> set [str ''https'', str ''https_connect'', str ''http-connect''] then Inr Https
      else if raw = str ''socks5_tcp'' then Inr Socks5Tcp
      else if raw = str ''socks5_udp'' then Inr Socks5Udp
      else Inl (InvalidRule (str ''network_rule protocol must be one of http, https, socks5_tcp, socks5_udp (got ''
                             @ raw @ str '')'')))"

definition as_policy_string :: "network_rule_protocol \<Rightarrow> rstring" where
  "as_policy_string p =
     (case p of
        Http \<Rightarrow> str ''http'' | Https \<Rightarrow> str ''https''
      | Socks5Tcp \<Rightarrow> str ''socks5_tcp'' | Socks5Udp \<Rightarrow> str ''socks5_udp'')"

record network_rule =
  rule_host :: rstring
  rule_protocol :: network_rule_protocol
  network_decision :: decision
  network_justification :: "rstring option"

definition is_port :: "rstring \<Rightarrow> bool" where
  "is_port s \<longleftrightarrow> s \<noteq> [] \<and> list_all is_ascii_digit s"

text \<open>The host without brackets or port.\<close>

definition strip_host_port :: "rstring \<Rightarrow> rstring \<Rightarrow> (error, rstring) result" where
  "strip_host_port raw host =
     (case strip_prefix [91] host of
        Some stripped \<Rightarrow>
          (case split_once 93 stripped of
             None \<Rightarrow> Inl (InvalidRule (str ''network_rule host has an invalid bracketed IPv6 literal''))
           | Some (inside, rest) \<Rightarrow>
               if rest \<noteq> [] \<and> \<not> (case strip_prefix [58] rest of Some port \<Rightarrow> is_port port | None \<Rightarrow> False)
               then Inl (InvalidRule (str ''network_rule host contains an unsupported suffix: '' @ raw))
               else Inr inside)
      | None \<Rightarrow>
          Inr (if count_list host 58 = 1 then
                 (case rsplit_once 58 host of
                    Some (candidate, port) \<Rightarrow> if candidate \<noteq> [] \<and> is_port port then candidate else host
                  | None \<Rightarrow> host)
               else host))"

definition normalize_network_rule_host :: "rstring \<Rightarrow> (error, rstring) result" where
  "normalize_network_rule_host raw =
     (let host = trim raw in
      if host = [] then Inl (InvalidRule (str ''network_rule host cannot be empty''))
      else if contains_sub (str ''://'') host \<or> 47 \<in> set host \<or> 63 \<in> set host \<or> 35 \<in> set host
      then Inl (InvalidRule (str ''network_rule host must be a hostname or IP literal (without scheme or path)''))
      else case strip_host_port raw host of
        Inl e \<Rightarrow> Inl e
      | Inr host' \<Rightarrow>
          (let normalized = to_ascii_lowercase (trim (trim_end_matches 46 host')) in
           if normalized = [] then Inl (InvalidRule (str ''network_rule host cannot be empty''))
           else if 42 \<in> set normalized
           then Inl (InvalidRule (str ''network_rule host must be a specific host; wildcards are not allowed''))
           else if list_ex is_whitespace normalized
           then Inl (InvalidRule (str ''network_rule host cannot contain whitespace''))
           else Inr normalized))"

subsection \<open>What patterns match\<close>

lemma rest_matches_iff:
  "length pts = length ts \<Longrightarrow> rest_matches pts ts \<longleftrightarrow> list_all2 token_matches pts ts"
  by (induction pts ts rule: list_induct2) auto

text \<open>
  A prefix pattern matches exactly the commands that start with one token per pattern
  element, the first equal to the program and each other among the alternatives of its
  element, and the match it reports is that prefix of the command.
\<close>

lemma matches_prefix_iff:
  "matches_prefix pat cmd = Some m \<longleftrightarrow>
     (\<exists>rest. cmd = m @ rest \<and> list_all2 token_matches (Single (pat_first pat) # pat_rest pat) m)"
proof
  assume a: "matches_prefix pat cmd = Some m"
  let ?n = "length (pat_rest pat)"
  have l: "length cmd \<ge> Suc ?n" "hd cmd = pat_first pat" "m = take (Suc ?n) cmd"
      "rest_matches (pat_rest pat) (take ?n (tl cmd))"
    using a by (auto simp: matches_prefix_def Let_def drop_Suc split: if_splits)
  obtain c cs where c: "cmd = c # cs" using l(1) by (cases cmd) auto
  have "list_all2 token_matches (pat_rest pat) (take ?n cs)"
    using l(1,4) c rest_matches_iff [of "pat_rest pat" "take ?n cs"] by simp
  then show "\<exists>rest. cmd = m @ rest \<and> list_all2 token_matches (Single (pat_first pat) # pat_rest pat) m"
    using l(2,3) c by (intro exI [of _ "drop (Suc ?n) cmd"]) (simp add: token_matches_def)
next
  assume "\<exists>rest. cmd = m @ rest \<and> list_all2 token_matches (Single (pat_first pat) # pat_rest pat) m"
  then obtain rest m' where r: "cmd = pat_first pat # m' @ rest" "m = pat_first pat # m'"
      "list_all2 token_matches (pat_rest pat) m'"
    by (auto simp: list_all2_Cons1 token_matches_def)
  have "length m' = length (pat_rest pat)" using r(3) by (simp add: list_all2_lengthD)
  then show "matches_prefix pat cmd = Some m"
    using r rest_matches_iff [of "pat_rest pat" m'] by (simp add: matches_prefix_def Let_def)
qed

subsection \<open>Normalised hosts\<close>

lemma set_trim: "set (trim s) \<subseteq> set s"
proof -
  have "set (trim_end t) \<subseteq> set t" for t by (auto simp: trim_end_def dest: set_dropWhileD)
  moreover have "set (trim_start s) \<subseteq> set s" by (auto simp: trim_start_def dest: set_dropWhileD)
  ultimately show ?thesis unfolding trim_def by blast
qed

lemma set_trim_end_matches: "set (trim_end_matches c s) \<subseteq> set s"
  by (auto simp: trim_end_matches_def dest: set_dropWhileD)

lemma split_once_subset:
  assumes "split_once d s = Some (a, b)"
  shows "set a \<subseteq> set s" "set b \<subseteq> set s"
proof -
  have ab: "a = takeWhile (\<lambda>c. c \<noteq> d) s" "b = tl (dropWhile (\<lambda>c. c \<noteq> d) s)"
    using assms by (auto simp: split_once_def split: if_splits)
  show "set a \<subseteq> set s" using ab(1) by (auto dest: set_takeWhileD)
  show "set b \<subseteq> set s" using ab(2) by (metis list.set_sel(2) set_dropWhileD subsetI tl_Nil)
qed

lemma rsplit_once_subset: "rsplit_once d s = Some (a, b) \<Longrightarrow> set a \<subseteq> set s \<and> set b \<subseteq> set s"
  using split_once_subset [of d "rev s"] by (auto simp: rsplit_once_def split: option.splits prod.splits)

lemma strip_host_port_subset:
  assumes "strip_host_port raw host = Inr h"
  shows "set h \<subseteq> set host"
proof (cases "strip_prefix [91] host")
  case None
  then have "h = host \<or> (\<exists>b. rsplit_once 58 host = Some (h, b))"
    using assms by (simp add: strip_host_port_def split: if_splits option.splits prod.splits)
  then show ?thesis using rsplit_once_subset [of 58 host h] by (metis order_refl)
next
  case (Some s)
  then have "set s \<subseteq> set host"
    by (auto simp: strip_prefix_def starts_with_def split: if_splits dest: in_set_dropD)
  moreover obtain b where "split_once 93 s = Some (h, b)"
    using assms Some by (auto simp: strip_host_port_def split: if_splits option.splits prod.splits)
  ultimately show ?thesis using split_once_subset(1) [of 93 s h b] by (metis order_trans)
qed

lemma to_ascii_lower_idem [simp]: "to_ascii_lower (to_ascii_lower c) = to_ascii_lower c"
  by (simp add: to_ascii_lower_def)

text \<open>
  A normalised network rule host is a specific host name: it is not empty, holds no
  whitespace, no wildcard and none of the characters that start a path, a query or a
  fragment, and it is in lower case.
\<close>

lemma normalize_network_rule_host_shape:
  assumes "normalize_network_rule_host raw = Inr h"
  shows "h \<noteq> [] \<and> \<not> list_ex is_whitespace h \<and> set h \<inter> set (str ''*/?#'') = {} \<and> to_ascii_lowercase h = h"
proof -
  obtain host' where h: "strip_host_port raw (trim raw) = Inr host'" "h = to_ascii_lowercase (trim (trim_end_matches 46 host'))"
      "h \<noteq> []" "42 \<notin> set h" "\<not> list_ex is_whitespace h" "47 \<notin> set (trim raw)" "63 \<notin> set (trim raw)" "35 \<notin> set (trim raw)"
    using assms by (auto simp: normalize_network_rule_host_def Let_def split: if_splits sum.splits)
  have "set (trim (trim_end_matches 46 host')) \<subseteq> set (trim raw)"
    using strip_host_port_subset [OF h(1)] set_trim set_trim_end_matches by blast
  then have lower: "\<exists>x \<in> set (trim raw). c = to_ascii_lower x" if "c \<in> set h" for c
    using that h(2) by (auto simp: to_ascii_lowercase_def)
  have "to_ascii_lower x \<noteq> 47" "to_ascii_lower x \<noteq> 63" "to_ascii_lower x \<noteq> 35" if "x \<in> set (trim raw)" for x
    using that h(6-8) by (auto simp: to_ascii_lower_def)
  then have "47 \<notin> set h" "63 \<notin> set h" "35 \<notin> set h" using lower by metis+
  moreover have "to_ascii_lowercase h = h" unfolding h(2) by (simp add: to_ascii_lowercase_def)
  ultimately show ?thesis using h by (auto simp: str_def)
qed


text \<open>Normalising twice can strip a port that was inside brackets, and a dot can remain at the end.\<close>

lemma normalize_host_not_idempotent:
  "normalize_network_rule_host (str ''[a:80]'') = Inr (str ''a:80'')"
  "normalize_network_rule_host (str ''a:80'') = Inr (str ''a'')"
  "normalize_network_rule_host (str ''a. .'') = Inr (str ''a.'')"
  by code_simp+

end
