(* ===== verification/Exec_Policy.thy ===== *)
theory Exec_Policy
  imports Exec_Rule "HOL-Library.List_Lexorder"
begin

section \<open>Execution policies: execpolicy/src/policy.rs\<close>

text \<open>
  A policy holds prefix rules by program, network rules in order and the paths a host
  executable may have. A \<^verbatim>\<open>MultiMap\<close> is an association list from keys to vectors; only
  prefix rules implement the trait \<^verbatim>\<open>Rule\<close>. An evaluation is an option, whose absence is the
  panic of \<^verbatim>\<open>Evaluation::from_matches\<close> on no match. The process environment that resolves
  program paths is a parameter.
\<close>

type_synonym ('k, 'v) multi_map = "('k \<times> 'v list) list"

fun multi_insert :: "'k \<Rightarrow> 'v \<Rightarrow> ('k, 'v) multi_map \<Rightarrow> ('k, 'v) multi_map" where
  "multi_insert k v [] = [(k, [v])]"
| "multi_insert k v ((k', vs) # m) = (if k' = k then (k', vs @ [v]) # m else (k', vs) # multi_insert k v m)"

definition multi_get :: "('k, 'v) multi_map \<Rightarrow> 'k \<Rightarrow> 'v list" where
  "multi_get m k = (case map_of m k of None \<Rightarrow> [] | Some vs \<Rightarrow> vs)"

record policy =
  rules_by_program :: "(rstring, prefix_rule) multi_map"
  network_rules :: "network_rule list"
  host_executables_by_name :: "rstring \<Rightarrow> rstring list option"

definition policy_empty :: policy where
  "policy_empty = \<lparr>rules_by_program = [], network_rules = [], host_executables_by_name = Map.empty\<rparr>"

record match_options =
  resolve_host_executables :: bool

definition default_options :: match_options where
  "default_options = \<lparr>resolve_host_executables = False\<rparr>"

definition render_pattern_token :: "pattern_token \<Rightarrow> rstring" where
  "render_pattern_token t =
     (case t of Single v \<Rightarrow> v | Alts as \<Rightarrow> str ''['' @ join (str ''|'') as @ str '']'')"

definition allowed_prefix :: "prefix_rule \<Rightarrow> rstring list option" where
  "allowed_prefix r =
     (if rule_decision r \<noteq> Allow then None
      else Some (pat_first (rule_pattern r) # map render_pattern_token (pat_rest (rule_pattern r))))"

definition get_allowed_prefixes :: "policy \<Rightarrow> rstring list list" where
  "get_allowed_prefixes p =
     remdups_adj (sort (List.map_filter allowed_prefix (concat (map snd (rules_by_program p)))))"

definition add_prefix_rule :: "rstring list \<Rightarrow> decision \<Rightarrow> policy \<Rightarrow> (error, policy) result" where
  "add_prefix_rule prefix d p =
     (case prefix of
        [] \<Rightarrow> Inl (InvalidPattern (str ''prefix cannot be empty''))
      | first # rest \<Rightarrow>
          Inr (p\<lparr>rules_by_program := multi_insert first
                   \<lparr>rule_pattern = \<lparr>pat_first = first, pat_rest = map Single rest\<rparr>, rule_decision = d,
                    rule_justification = None\<rparr> (rules_by_program p)\<rparr>))"

definition add_network_rule ::
  "rstring \<Rightarrow> network_rule_protocol \<Rightarrow> decision \<Rightarrow> rstring option \<Rightarrow> policy \<Rightarrow> (error, policy) result" where
  "add_network_rule host protocol d justification p =
     (case normalize_network_rule_host host of
        Inl e \<Rightarrow> Inl e
      | Inr h \<Rightarrow>
          if (case justification of Some raw \<Rightarrow> trim raw = [] | None \<Rightarrow> False)
          then Inl (InvalidRule (str ''justification cannot be empty''))
          else Inr (p\<lparr>network_rules := network_rules p @
                       [\<lparr>rule_host = h, rule_protocol = protocol, network_decision = d,
                         network_justification = justification\<rparr>]\<rparr>))"

definition set_host_executable_paths :: "rstring \<Rightarrow> rstring list \<Rightarrow> policy \<Rightarrow> policy" where
  "set_host_executable_paths name paths p =
     p\<lparr>host_executables_by_name := (host_executables_by_name p)(name \<mapsto> paths)\<rparr>"

fun insert_all :: "('k, 'v) multi_map \<Rightarrow> ('k, 'v) multi_map \<Rightarrow> ('k, 'v) multi_map" where
  "insert_all m [] = m"
| "insert_all m ((k, vs) # rest) = insert_all (fold (multi_insert k) vs m) rest"

definition merge_overlay :: "policy \<Rightarrow> policy \<Rightarrow> policy" where
  "merge_overlay p overlay =
     \<lparr>rules_by_program = insert_all (rules_by_program p) (rules_by_program overlay),
      network_rules = network_rules p @ network_rules overlay,
      host_executables_by_name = host_executables_by_name p ++ host_executables_by_name overlay\<rparr>"

definition upsert_domain :: "rstring list \<Rightarrow> rstring \<Rightarrow> rstring list" where
  "upsert_domain entries host = filter (\<lambda>e. e \<noteq> host) entries @ [host]"

definition compile_network_rule :: "network_rule \<Rightarrow> rstring list \<times> rstring list \<Rightarrow> rstring list \<times> rstring list" where
  "compile_network_rule r acc =
     (case (network_decision r, acc) of
        (Allow, (allowed, denied)) \<Rightarrow>
          (upsert_domain allowed (rule_host r), filter (\<lambda>e. e \<noteq> rule_host r) denied)
      | (Forbidden, (allowed, denied)) \<Rightarrow>
          (filter (\<lambda>e. e \<noteq> rule_host r) allowed, upsert_domain denied (rule_host r))
      | (Prompt, _) \<Rightarrow> acc)"

definition compiled_network_domains :: "policy \<Rightarrow> rstring list \<times> rstring list" where
  "compiled_network_domains p = fold compile_network_rule (network_rules p) ([], [])"

subsection \<open>Matching commands\<close>

definition match_exact_rules :: "policy \<Rightarrow> rstring list \<Rightarrow> rule_match list option" where
  "match_exact_rules p cmd =
     (case cmd of
        [] \<Rightarrow> None
      | first # _ \<Rightarrow> Some (List.map_filter (\<lambda>r. rule_matches r cmd) (multi_get (rules_by_program p) first)))"

definition match_host_executable_rules :: "path_env \<Rightarrow> policy \<Rightarrow> rstring list \<Rightarrow> rule_match list" where
  "match_host_executable_rules env p cmd =
     (case cmd of
        [] \<Rightarrow> []
      | first # args \<Rightarrow>
          (case from_absolute_path env first of
             None \<Rightarrow> []
           | Some program \<Rightarrow>
               (case executable_path_lookup_key program of
                  None \<Rightarrow> []
                | Some basename \<Rightarrow>
                    if (case host_executables_by_name p basename of
                          Some paths \<Rightarrow> \<not> list_ex (\<lambda>path. path = program) paths
                        | None \<Rightarrow> False)
                    then []
                    else map (with_resolved_program program)
                           (List.map_filter (\<lambda>r. rule_matches r (basename # args))
                              (multi_get (rules_by_program p) basename)))))"

definition matches_for_command_with_options ::
  "path_env \<Rightarrow> policy \<Rightarrow> rstring list \<Rightarrow> (rstring list \<Rightarrow> decision) option \<Rightarrow> match_options \<Rightarrow> rule_match list" where
  "matches_for_command_with_options env p cmd fallback options =
     (let matched_rules =
        (case match_exact_rules p cmd of
           Some (m # ms) \<Rightarrow> m # ms
         | _ \<Rightarrow> if resolve_host_executables options then match_host_executable_rules env p cmd else [])
      in case (matched_rules, fallback) of
           ([], Some f) \<Rightarrow> [HeuristicsRuleMatch cmd (f cmd)]
         | _ \<Rightarrow> matched_rules)"

definition matches_for_command ::
  "path_env \<Rightarrow> policy \<Rightarrow> rstring list \<Rightarrow> (rstring list \<Rightarrow> decision) option \<Rightarrow> rule_match list" where
  "matches_for_command env p cmd fallback = matches_for_command_with_options env p cmd fallback default_options"

record evaluation =
  eval_decision :: decision
  matched_rules :: "rule_match list"

fun max_decision :: "rule_match list \<Rightarrow> decision option" where
  "max_decision [] = None"
| "max_decision (m # ms) =
     (case max_decision ms of
        None \<Rightarrow> Some (match_decision m)
      | Some d \<Rightarrow> Some (max (match_decision m) d))"

definition from_matches :: "rule_match list \<Rightarrow> evaluation option" where
  "from_matches ms = map_option (\<lambda>d. \<lparr>eval_decision = d, matched_rules = ms\<rparr>) (max_decision ms)"

definition is_match :: "evaluation \<Rightarrow> bool" where
  "is_match ev = list_ex (\<lambda>m. case m of HeuristicsRuleMatch _ _ \<Rightarrow> False | _ \<Rightarrow> True) (matched_rules ev)"

definition check_with_options ::
  "path_env \<Rightarrow> policy \<Rightarrow> rstring list \<Rightarrow> (rstring list \<Rightarrow> decision) \<Rightarrow> match_options \<Rightarrow> evaluation option" where
  "check_with_options env p cmd fallback options =
     from_matches (matches_for_command_with_options env p cmd (Some fallback) options)"

definition check :: "path_env \<Rightarrow> policy \<Rightarrow> rstring list \<Rightarrow> (rstring list \<Rightarrow> decision) \<Rightarrow> evaluation option" where
  "check env p cmd fallback =
     from_matches (matches_for_command_with_options env p cmd (Some fallback) default_options)"

definition check_multiple_with_options ::
  "path_env \<Rightarrow> policy \<Rightarrow> rstring list list \<Rightarrow> (rstring list \<Rightarrow> decision) \<Rightarrow> match_options \<Rightarrow> evaluation option" where
  "check_multiple_with_options env p cmds fallback options =
     from_matches (concat (map (\<lambda>cmd. matches_for_command_with_options env p cmd (Some fallback) options) cmds))"

definition check_multiple ::
  "path_env \<Rightarrow> policy \<Rightarrow> rstring list list \<Rightarrow> (rstring list \<Rightarrow> decision) \<Rightarrow> evaluation option" where
  "check_multiple env p cmds fallback = check_multiple_with_options env p cmds fallback default_options"

subsection \<open>Multimaps\<close>

definition keys_distinct :: "('k, 'v) multi_map \<Rightarrow> bool" where
  "keys_distinct m \<longleftrightarrow> distinct (map fst m)"

lemma multi_get_insert: "multi_get (multi_insert k v m) k' = multi_get m k' @ (if k' = k then [v] else [])"
  by (induction k v m rule: multi_insert.induct) (auto simp: multi_get_def)

lemma keys_multi_insert: "set (map fst (multi_insert k v m)) = insert k (set (map fst m))"
  by (induction k v m rule: multi_insert.induct) auto

lemma keys_distinct_insert: "keys_distinct m \<Longrightarrow> keys_distinct (multi_insert k v m)"
  unfolding keys_distinct_def
proof (induction k v m rule: multi_insert.induct)
  case (2 k v k' vs m)
  then show ?case using keys_multi_insert [of k v m] by auto
qed simp

lemma multi_get_fold: "multi_get (fold (multi_insert k) vs m) k' = multi_get m k' @ (if k' = k then vs else [])"
  by (induction vs arbitrary: m) (auto simp: multi_get_insert)

lemma multi_get_not_key: "k \<notin> set (map fst m) \<Longrightarrow> multi_get m k = []"
  by (simp add: multi_get_def map_of_eq_None_iff [symmetric])

lemma multi_get_insert_all:
  assumes "keys_distinct o'"
  shows "multi_get (insert_all m o') k = multi_get m k @ multi_get o' k"
  using assms
proof (induction m o' rule: insert_all.induct)
  case (2 m k' vs rest)
  have "keys_distinct rest" "k' \<notin> set (map fst rest)" using "2.prems" by (auto simp: keys_distinct_def)
  moreover have "multi_get ((k', vs) # rest) k = (if k = k' then vs else multi_get rest k)"
    by (simp add: multi_get_def)
  ultimately show ?case using 2 multi_get_not_key [of k' rest] by (simp add: multi_get_fold)
qed (simp add: multi_get_def)

subsection \<open>The strictest match decides\<close>

lemma max_decision_None [simp]: "max_decision ms = None \<longleftrightarrow> ms = []"
  by (cases ms) (auto split: option.splits)

lemma max_decision_Max: "ms \<noteq> [] \<Longrightarrow> max_decision ms = Some (Max (match_decision ` set ms))"
proof (induction ms)
  case (Cons m ms)
  then show ?case by (cases "ms = []") auto
qed simp

lemma from_matches_Max:
  "ms \<noteq> [] \<Longrightarrow> from_matches ms = Some \<lparr>eval_decision = Max (match_decision ` set ms), matched_rules = ms\<rparr>"
  by (simp add: from_matches_def max_decision_Max)

lemma Max_UN_list:
  fixes A :: "'a \<Rightarrow> ('b :: linorder) set"
  assumes "xs \<noteq> []" "\<forall>x \<in> set xs. finite (A x) \<and> A x \<noteq> {}"
  shows "Max (\<Union>x \<in> set xs. A x) = Max ((\<lambda>x. Max (A x)) ` set xs)"
  using assms
proof (induction xs rule: list_nonempty_induct)
  case (cons x xs)
  have "Max (\<Union>y \<in> set (x # xs). A y) = max (Max (A x)) (Max (\<Union>y \<in> set xs. A y))"
    using cons by (simp, subst Max_Un) auto
  then show ?case using cons by simp
qed simp

lemma matches_nonempty: "matches_for_command_with_options env p cmd (Some f) opts \<noteq> []"
  by (auto simp: matches_for_command_with_options_def Let_def split: list.splits)

text \<open>The decisions of the rules a policy applies to a command by its first word.\<close>

definition matching_rules :: "policy \<Rightarrow> rstring list \<Rightarrow> prefix_rule list" where
  "matching_rules p cmd =
     (case cmd of [] \<Rightarrow> [] | c # _ \<Rightarrow> filter (\<lambda>r. rule_matches r cmd \<noteq> None) (multi_get (rules_by_program p) c))"

lemma decisions_map_filter:
  "map match_decision (List.map_filter (\<lambda>r. rule_matches r cmd) rs) =
   map rule_decision (filter (\<lambda>r. rule_matches r cmd \<noteq> None) rs)"
  by (induction rs) (auto simp: List.map_filter_simps rule_matches_def match_decision_def split: option.splits)

lemma default_matches:
  "map match_decision (matches_for_command_with_options env p cmd (Some f) default_options) =
   (if matching_rules p cmd = [] then [f cmd] else map rule_decision (matching_rules p cmd))"
proof -
  obtain ms where ms: "match_exact_rules p cmd = (case cmd of [] \<Rightarrow> None | _ \<Rightarrow> Some ms)"
      "map match_decision ms = map rule_decision (matching_rules p cmd)"
  proof (cases cmd)
    case Nil
    then show thesis using that [of "[]"] by (simp add: match_exact_rules_def matching_rules_def)
  next
    case (Cons c cs)
    show thesis
      by (rule that [of "List.map_filter (\<lambda>r. rule_matches r cmd) (multi_get (rules_by_program p) c)"])
        (simp_all add: Cons match_exact_rules_def matching_rules_def decisions_map_filter)
  qed
  show ?thesis
  proof (cases "matching_rules p cmd = []")
    case True
    then have "ms = []" using ms(2) by simp
    then show ?thesis
      using ms(1) True
      by (cases cmd) (simp_all add: matches_for_command_with_options_def default_options_def match_decision_def)
  next
    case False
    then obtain m ms' where "ms = m # ms'" "cmd \<noteq> []" using ms(2) by (cases ms; cases cmd) (auto simp: matching_rules_def)
    then show ?thesis
      using ms False by (cases cmd) (simp_all add: matches_for_command_with_options_def)
  qed
qed

definition policy_decision :: "policy \<Rightarrow> (rstring list \<Rightarrow> decision) \<Rightarrow> rstring list \<Rightarrow> decision" where
  "policy_decision p f cmd =
     (if matching_rules p cmd = [] then f cmd else Max (set (map rule_decision (matching_rules p cmd))))"

lemma check_decision:
  "check env p cmd f = Some \<lparr>eval_decision = policy_decision p f cmd,
     matched_rules = matches_for_command_with_options env p cmd (Some f) default_options\<rparr>"
proof -
  let ?ms = "matches_for_command_with_options env p cmd (Some f) default_options"
  have "match_decision ` set ?ms = set (map match_decision ?ms)" by simp
  also have "\<dots> = set (if matching_rules p cmd = [] then [f cmd] else map rule_decision (matching_rules p cmd))"
    by (simp only: default_matches)
  finally have "Max (match_decision ` set ?ms) = policy_decision p f cmd"
    by (simp add: policy_decision_def)
  then show ?thesis using from_matches_Max [OF matches_nonempty] by (simp add: check_def)
qed

text \<open>
  C13. The strictest matching rule decides and nothing overrides it: checking a command never
  panics; when rules of its program match, the decision is that of one of them and at least
  as strict as every one of them, so a matching \<^verbatim>\<open>forbidden\<close> rule always forbids; the
  heuristics decide exactly when no rule matches.
\<close>

theorem check_strictest:
  "\<exists>ev. check env p cmd f = Some ev \<and> matched_rules ev \<noteq> [] \<and>
     (if matching_rules p cmd = [] then eval_decision ev = f cmd
      else eval_decision ev \<in> set (map rule_decision (matching_rules p cmd)) \<and>
        list_all (\<lambda>r. rule_decision r \<le> eval_decision ev) (matching_rules p cmd))"
proof -
  have "Max (set (map rule_decision rs)) \<in> set (map rule_decision rs)" if "rs \<noteq> []" for rs
    using that by (intro Max_in) auto
  moreover have "list_all (\<lambda>r. rule_decision r \<le> Max (set (map rule_decision rs))) rs" for rs
    by (auto simp: list_all_iff)
  ultimately show ?thesis
    using check_decision [of env p cmd f] matches_nonempty [of env p cmd f] by (auto simp: policy_decision_def)
qed

text \<open>
  A command line of several commands is judged by its strictest command: the decision of
  \<^verbatim>\<open>check_multiple\<close> is the maximum of the decisions of the single checks, and it panics
  exactly when there is no command.
\<close>

lemma check_multiple_strictest:
  "check_multiple env p cmds f =
     (if cmds = [] then None
      else Some \<lparr>eval_decision = Max ((\<lambda>cmd. eval_decision (the (check env p cmd f))) ` set cmds),
             matched_rules = concat (map (\<lambda>cmd. matched_rules (the (check env p cmd f))) cmds)\<rparr>)"
proof (cases "cmds = []")
  case True
  then show ?thesis by (simp add: check_multiple_def check_multiple_with_options_def from_matches_def)
next
  case False
  let ?m = "\<lambda>cmd. matches_for_command_with_options env p cmd (Some f) default_options"
  have ne: "concat (map ?m cmds) \<noteq> []" using False matches_nonempty [of env p _ f default_options] by (cases cmds) auto
  have d: "Max (match_decision ` set (?m cmd)) = eval_decision (the (check env p cmd f))"
      "?m cmd = matched_rules (the (check env p cmd f))" for cmd
    using from_matches_Max [OF matches_nonempty, of env p cmd f default_options] by (simp_all add: check_def)
  have "Max (match_decision ` set (concat (map ?m cmds))) = Max (\<Union>cmd \<in> set cmds. match_decision ` set (?m cmd))"
    by (simp add: image_UN)
  also have "\<dots> = Max ((\<lambda>cmd. Max (match_decision ` set (?m cmd))) ` set cmds)"
    using False matches_nonempty by (intro Max_UN_list) auto
  finally show ?thesis
    using from_matches_Max [OF ne] False d
    by (simp add: check_multiple_def check_multiple_with_options_def)
qed

subsection \<open>Overlays and added rules\<close>

definition policy_ok :: "policy \<Rightarrow> bool" where
  "policy_ok p \<longleftrightarrow> keys_distinct (rules_by_program p)"

lemma policy_ok_add_prefix_rule: "policy_ok p \<Longrightarrow> add_prefix_rule prefix d p = Inr p' \<Longrightarrow> policy_ok p'"
  by (auto simp: add_prefix_rule_def policy_ok_def keys_distinct_insert split: list.splits)

lemma keys_distinct_fold: "keys_distinct m \<Longrightarrow> keys_distinct (fold (multi_insert k) vs m)"
  by (induction vs arbitrary: m) (auto simp: keys_distinct_insert)

lemma keys_distinct_insert_all: "keys_distinct m \<Longrightarrow> keys_distinct (insert_all m o')"
  by (induction m o' rule: insert_all.induct) (simp_all add: keys_distinct_fold)

lemma matching_rules_merge:
  "policy_ok overlay \<Longrightarrow> matching_rules (merge_overlay p overlay) cmd = matching_rules p cmd @ matching_rules overlay cmd"
  by (auto simp: matching_rules_def merge_overlay_def policy_ok_def multi_get_insert_all split: list.splits)


definition ex_rule :: "rstring \<Rightarrow> decision \<Rightarrow> prefix_rule" where
  "ex_rule c d = \<lparr>rule_pattern = \<lparr>pat_first = c, pat_rest = []\<rparr>, rule_decision = d, rule_justification = None\<rparr>"

definition ex_policy :: "decision \<Rightarrow> policy" where
  "ex_policy d = \<lparr>rules_by_program = [(str ''rm'', [ex_rule (str ''rm'') d])], network_rules = [],
     host_executables_by_name = Map.empty\<rparr>"


lemma rule_matches_literal:
  "rule_matches \<lparr>rule_pattern = \<lparr>pat_first = c, pat_rest = map Single cs\<rparr>, rule_decision = d,
     rule_justification = j\<rparr> (c # cs @ rest) = Some (PrefixRuleMatch (c # cs) d None j)"
proof -
  have "list_all2 token_matches (map Single cs) cs"
    by (simp add: list_all2_conv_all_nth token_matches_def)
  then have "rest_matches (map Single cs) cs" using rest_matches_iff [of "map Single cs" cs] by simp
  then show ?thesis by (simp add: rule_matches_def matches_prefix_def Let_def)
qed

text \<open>
  A rule added by \<^verbatim>\<open>add_prefix_rule\<close> takes effect: every command that starts with the
  prefix is then decided at least as strictly as the rule says and never by the heuristics,
  a rule that allows shows up among the allowed prefixes, and commands of other programs are
  decided as before.
\<close>

lemma add_prefix_rule_effect:
  assumes "add_prefix_rule prefix d p = Inr p'"
  shows "matching_rules p' (prefix @ rest) \<noteq> [] \<and> d \<le> policy_decision p' f (prefix @ rest) \<and>
    (d = Allow \<longrightarrow> prefix \<in> set (get_allowed_prefixes p')) \<and>
    (hd cmd \<noteq> hd prefix \<longrightarrow> policy_decision p' f cmd = policy_decision p f cmd)"
proof -
  obtain c cs where c: "prefix = c # cs" using assms by (auto simp: add_prefix_rule_def split: list.splits)
  let ?r = "\<lparr>rule_pattern = \<lparr>pat_first = c, pat_rest = map Single cs\<rparr>, rule_decision = d, rule_justification = None\<rparr>"
  have p': "p' = p\<lparr>rules_by_program := multi_insert c ?r (rules_by_program p)\<rparr>"
    using assms c by (simp add: add_prefix_rule_def)
  have r: "?r \<in> set (matching_rules p' (prefix @ rest))"
    using rule_matches_literal [of c cs d None rest] c p' by (simp add: matching_rules_def multi_get_insert)
  then have "d \<le> policy_decision p' f (prefix @ rest)"
    by (force simp: policy_decision_def intro: Max_ge)
  moreover have "\<exists>vs. (c, vs) \<in> set (multi_insert c ?r m) \<and> ?r \<in> set vs" for m
    by (induction c ?r m rule: multi_insert.induct) force+
  then have "prefix \<in> set (get_allowed_prefixes p')" if "d = Allow"
    using that c p'
    by (force simp: get_allowed_prefixes_def map_filter_def allowed_prefix_def render_pattern_token_def comp_def image_iff)
  moreover have "policy_decision p' f cmd = policy_decision p f cmd" if "hd cmd \<noteq> hd prefix"
    using that c p' by (cases cmd) (simp_all add: policy_decision_def matching_rules_def multi_get_insert)
  ultimately show ?thesis using r by auto
qed


subsection \<open>Compiled network domains\<close>

text \<open>The last rule for a host that allows or forbids it.\<close>

fun network_verdict :: "network_rule list \<Rightarrow> rstring \<Rightarrow> decision option" where
  "network_verdict [] h = None"
| "network_verdict (r # rs) h =
     (case network_verdict rs h of
        Some d \<Rightarrow> Some d
      | None \<Rightarrow> if rule_host r = h \<and> network_decision r \<noteq> Prompt then Some (network_decision r) else None)"

definition domains_agree :: "rstring list \<times> rstring list \<Rightarrow> (rstring \<Rightarrow> decision option) \<Rightarrow> bool" where
  "domains_agree acc v \<longleftrightarrow>
     distinct (fst acc) \<and> distinct (snd acc) \<and>
     (\<forall>h. (h \<in> set (fst acc) \<longleftrightarrow> v h = Some Allow) \<and> (h \<in> set (snd acc) \<longleftrightarrow> v h = Some Forbidden))"

lemma domains_agree_step:
  assumes "domains_agree acc v"
  shows "domains_agree (compile_network_rule r acc)
    (if network_decision r = Prompt then v else v(rule_host r \<mapsto> network_decision r))"
  using assms
  by (cases acc; cases "network_decision r")
    (auto simp: domains_agree_def compile_network_rule_def upsert_domain_def)

lemma domains_agree_fold:
  assumes "domains_agree acc v"
  shows "domains_agree (fold compile_network_rule rs acc)
    (\<lambda>h. case network_verdict rs h of Some d \<Rightarrow> Some d | None \<Rightarrow> v h)"
  using assms
proof (induction rs arbitrary: acc v)
  case (Cons r rs)
  let ?v = "if network_decision r = Prompt then v else v(rule_host r \<mapsto> network_decision r)"
  have eq: "(\<lambda>h. case network_verdict rs h of Some d \<Rightarrow> Some d | None \<Rightarrow> ?v h) =
      (\<lambda>h. case network_verdict (r # rs) h of Some d \<Rightarrow> Some d | None \<Rightarrow> v h)"
    by (auto simp: fun_eq_iff split: option.splits)
  from Cons.IH [OF domains_agree_step [OF Cons.prems, of r]] show ?case unfolding eq fold_simps .
qed simp

text \<open>
  C38. Compiling network rules keeps the last word of every host: the allowed and the denied
  list have no duplicates and no host in common, and a host is allowed (denied) exactly when
  the last rule for it that is not a prompt allows (forbids) it.
\<close>

theorem compiled_network_domains_last_rule:
  assumes "compiled_network_domains p = (allowed, denied)"
  shows "distinct allowed \<and> distinct denied \<and> set allowed \<inter> set denied = {} \<and>
    (h \<in> set allowed \<longleftrightarrow> network_verdict (network_rules p) h = Some Allow) \<and>
    (h \<in> set denied \<longleftrightarrow> network_verdict (network_rules p) h = Some Forbidden)"
proof -
  have "domains_agree ([], []) Map.empty" by (simp add: domains_agree_def)
  note fold = domains_agree_fold [OF this, of "network_rules p"]
  have "(\<lambda>h. case network_verdict (network_rules p) h of Some d \<Rightarrow> Some d | None \<Rightarrow> Map.empty h)
      = network_verdict (network_rules p)"
    by (auto simp: fun_eq_iff split: option.splits)
  from fold [unfolded this] assms
  have "domains_agree (allowed, denied) (network_verdict (network_rules p))"
    by (simp add: compiled_network_domains_def)
  then show ?thesis by (auto simp: domains_agree_def)
qed

definition ex_network_policy :: policy where
  "ex_network_policy = policy_empty\<lparr>network_rules :=
     [\<lparr>rule_host = str ''a'', rule_protocol = Https, network_decision = Allow, network_justification = None\<rparr>,
      \<lparr>rule_host = str ''b'', rule_protocol = Https, network_decision = Allow, network_justification = None\<rparr>,
      \<lparr>rule_host = str ''a'', rule_protocol = Http, network_decision = Forbidden, network_justification = None\<rparr>]\<rparr>"

theorem compiled_network_domains_last_rule_witness:
  "compiled_network_domains ex_network_policy = ([str ''b''], [str ''a'']) \<and>
   network_verdict (network_rules ex_network_policy) (str ''a'') = Some Forbidden"
proof -
  have c: "compiled_network_domains ex_network_policy = ([str ''b''], [str ''a''])" by code_simp
  from compiled_network_domains_last_rule [OF c, of "str ''a''"] c show ?thesis by simp
qed

end
