(* ===== verification/Policy_Parser.thy ===== *)
theory Policy_Parser
  imports Exec_Policy
begin

section \<open>Policy files: execpolicy/src/parser.rs\<close>

text \<open>
  The builder that the builtins of a policy file fill, and the validation of the examples a
  rule is declared with. The Starlark interpreter is a parameter: what a module does is the
  list of builtin calls its evaluation makes, with the values passed and the location of the
  call. Splitting and joining shell words (crate shlex) are parameters as well, the debug
  rendering of rules in error messages is left out.
\<close>

datatype "value" = VStr rstring | VList "value list" | VOther rstring

definition value_type :: "value \<Rightarrow> rstring" where
  "value_type v = (case v of VStr _ \<Rightarrow> str ''string'' | VList _ \<Rightarrow> str ''list'' | VOther t \<Rightarrow> t)"

fun collect :: "('e, 'a) result list \<Rightarrow> ('e, 'a list) result" where
  "collect [] = Inr []"
| "collect (r # rs) =
     (case r of
        Inl e \<Rightarrow> Inl e
      | Inr a \<Rightarrow> (case collect rs of Inl e \<Rightarrow> Inl e | Inr as \<Rightarrow> Inr (a # as)))"

definition parse_pattern_token :: "value \<Rightarrow> (error, pattern_token) result" where
  "parse_pattern_token v =
     (case v of
        VStr s \<Rightarrow> Inr (Single s)
      | VList vs \<Rightarrow>
          (case collect (map (\<lambda>w. case w of
                   VStr s \<Rightarrow> Inr s
                 | _ \<Rightarrow> Inl (InvalidPattern (str ''pattern alternative must be a string (got '' @ value_type w @ str '')''))) vs) of
             Inl e \<Rightarrow> Inl e
           | Inr [] \<Rightarrow> Inl (InvalidPattern (str ''pattern alternatives cannot be empty''))
           | Inr [s] \<Rightarrow> Inr (Single s)
           | Inr tokens \<Rightarrow> Inr (Alts tokens))
      | VOther t \<Rightarrow>
          Inl (InvalidPattern (str ''pattern element must be a string or list of strings (got '' @ t @ str '')'')))"

definition parse_pattern :: "value list \<Rightarrow> (error, pattern_token list) result" where
  "parse_pattern vs =
     (case collect (map parse_pattern_token vs) of
        Inl e \<Rightarrow> Inl e
      | Inr [] \<Rightarrow> Inl (InvalidPattern (str ''pattern cannot be empty''))
      | Inr tokens \<Rightarrow> Inr tokens)"

type_synonym shell_split = "rstring \<Rightarrow> rstring list option"
type_synonym shell_join = "rstring list \<Rightarrow> rstring option"

definition parse_string_example :: "shell_split \<Rightarrow> rstring \<Rightarrow> (error, rstring list) result" where
  "parse_string_example split raw =
     (case split raw of
        None \<Rightarrow> Inl (InvalidExample (str ''example string has invalid shell syntax''))
      | Some [] \<Rightarrow> Inl (InvalidExample (str ''example cannot be an empty string''))
      | Some tokens \<Rightarrow> Inr tokens)"

definition parse_list_example :: "value list \<Rightarrow> (error, rstring list) result" where
  "parse_list_example vs =
     (case collect (map (\<lambda>w. case w of
              VStr s \<Rightarrow> Inr s
            | _ \<Rightarrow> Inl (InvalidExample (str ''example tokens must be strings (got '' @ value_type w @ str '')''))) vs) of
        Inl e \<Rightarrow> Inl e
      | Inr [] \<Rightarrow> Inl (InvalidExample (str ''example cannot be an empty list''))
      | Inr tokens \<Rightarrow> Inr tokens)"

definition parse_example :: "shell_split \<Rightarrow> value \<Rightarrow> (error, rstring list) result" where
  "parse_example split v =
     (case v of
        VStr raw \<Rightarrow> parse_string_example split raw
      | VList vs \<Rightarrow> parse_list_example vs
      | VOther t \<Rightarrow>
          Inl (InvalidExample (str ''example must be a string or list of strings (got '' @ t @ str '')'')))"

definition parse_examples :: "shell_split \<Rightarrow> value list option \<Rightarrow> (error, rstring list list) result" where
  "parse_examples split vs =
     (case vs of None \<Rightarrow> Inr [] | Some xs \<Rightarrow> collect (map (parse_example split) xs))"

definition parse_literal_absolute_path :: "path_env \<Rightarrow> rstring \<Rightarrow> (error, rstring) result" where
  "parse_literal_absolute_path env raw =
     (if \<not> is_absolute raw
      then Inl (InvalidRule (str ''host_executable paths must be absolute (got '' @ raw @ str '')''))
      else case from_absolute_path env raw of
        Some p \<Rightarrow> Inr p
      | None \<Rightarrow> Inl (InvalidRule (str ''invalid absolute path '' @ [96] @ raw @ [96])))"

definition components_count :: "rstring \<Rightarrow> nat" where
  "components_count p =
     (if is_absolute p then 1 else if p = dot \<or> starts_with (dot @ [47]) p then 1 else 0)
     + length (path_components p)"

definition validate_host_executable_name :: "rstring \<Rightarrow> (error, unit) result" where
  "validate_host_executable_name name =
     (if name = [] then Inl (InvalidRule (str ''host_executable name cannot be empty''))
      else if components_count name \<noteq> 1 \<or> file_name name \<noteq> Some name
      then Inl (InvalidRule (str ''host_executable name must be a bare executable name (got '' @ name @ str '')''))
      else Inr ())"

definition parse_network_rule_decision :: "rstring \<Rightarrow> (error, decision) result" where
  "parse_network_rule_decision raw = (if raw = str ''deny'' then Inr Forbidden else decision_parse raw)"

definition parse_justification :: "rstring option \<Rightarrow> (error, rstring option) result" where
  "parse_justification j =
     (case j of
        Some raw \<Rightarrow> if trim raw = [] then Inl (InvalidRule (str ''justification cannot be empty'')) else Inr (Some raw)
      | None \<Rightarrow> Inr None)"

subsection \<open>The builder\<close>

record pending_example_validation =
  pending_rules :: "prefix_rule list"
  pending_matches :: "rstring list list"
  pending_not_matches :: "rstring list list"
  pending_location :: "error_location option"

record policy_builder =
  builder_rules :: "(rstring, prefix_rule) multi_map"
  builder_network_rules :: "network_rule list"
  builder_host_executables :: "rstring \<Rightarrow> rstring list option"
  pending_example_validations :: "pending_example_validation list"

definition new_builder :: policy_builder where
  "new_builder = \<lparr>builder_rules = [], builder_network_rules = [], builder_host_executables = Map.empty,
     pending_example_validations = []\<rparr>"

definition add_rule :: "prefix_rule \<Rightarrow> policy_builder \<Rightarrow> policy_builder" where
  "add_rule r b = b\<lparr>builder_rules := multi_insert (rule_program r) r (builder_rules b)\<rparr>"

definition build :: "policy_builder \<Rightarrow> policy" where
  "build b = \<lparr>rules_by_program = builder_rules b, network_rules = builder_network_rules b,
     host_executables_by_name = builder_host_executables b\<rparr>"

definition resolving_options :: match_options where
  "resolving_options = \<lparr>resolve_host_executables = True\<rparr>"

definition render_example :: "shell_join \<Rightarrow> rstring list \<Rightarrow> rstring" where
  "render_example join_words ex =
     (case join_words ex of Some s \<Rightarrow> s | None \<Rightarrow> str ''unable to render example'')"

definition validate_match_examples ::
  "path_env \<Rightarrow> shell_join \<Rightarrow> policy \<Rightarrow> rstring list list \<Rightarrow> (error, unit) result" where
  "validate_match_examples env join_words p examples =
     (let unmatched = filter (\<lambda>ex. matches_for_command_with_options env p ex None resolving_options = []) examples
      in if unmatched = [] then Inr ()
         else Inl (ExampleDidNotMatch (map (render_example join_words) unmatched) None))"

fun validate_not_match_examples ::
  "path_env \<Rightarrow> shell_join \<Rightarrow> policy \<Rightarrow> rstring list list \<Rightarrow> (error, unit) result" where
  "validate_not_match_examples env join_words p [] = Inr ()"
| "validate_not_match_examples env join_words p (ex # exs) =
     (case matches_for_command_with_options env p ex None resolving_options of
        [] \<Rightarrow> validate_not_match_examples env join_words p exs
      | _ \<Rightarrow> Inl (ExampleDidMatch (render_example join_words ex) None))"

definition attach_validation_location :: "error_location option \<Rightarrow> error \<Rightarrow> error" where
  "attach_validation_location loc e = (case loc of Some l \<Rightarrow> with_location l e | None \<Rightarrow> e)"

definition validation_policy :: "policy_builder \<Rightarrow> pending_example_validation \<Rightarrow> policy" where
  "validation_policy b v =
     \<lparr>rules_by_program = fold (\<lambda>r. multi_insert (rule_program r) r) (pending_rules v) [],
      network_rules = [], host_executables_by_name = builder_host_executables b\<rparr>"

definition validate_pending ::
  "path_env \<Rightarrow> shell_join \<Rightarrow> policy_builder \<Rightarrow> pending_example_validation \<Rightarrow> (error, unit) result" where
  "validate_pending env join_words b v =
     (let p = validation_policy b v in
      case validate_not_match_examples env join_words p (pending_not_matches v) of
        Inl e \<Rightarrow> Inl (attach_validation_location (pending_location v) e)
      | Inr _ \<Rightarrow>
          (case validate_match_examples env join_words p (pending_matches v) of
             Inl e \<Rightarrow> Inl (attach_validation_location (pending_location v) e)
           | Inr _ \<Rightarrow> Inr ()))"

fun validate_all ::
  "path_env \<Rightarrow> shell_join \<Rightarrow> policy_builder \<Rightarrow> pending_example_validation list \<Rightarrow> (error, unit) result" where
  "validate_all env join_words b [] = Inr ()"
| "validate_all env join_words b (v # vs) =
     (case validate_pending env join_words b v of
        Inl e \<Rightarrow> Inl e
      | Inr _ \<Rightarrow> validate_all env join_words b vs)"

definition validate_pending_examples_from ::
  "path_env \<Rightarrow> shell_join \<Rightarrow> policy_builder \<Rightarrow> nat \<Rightarrow> (error, unit) result" where
  "validate_pending_examples_from env join_words b start =
     validate_all env join_words b (drop start (pending_example_validations b))"

subsection \<open>The builtins\<close>

record prefix_rule_call =
  call_pattern :: "value list"
  call_decision :: "rstring option"
  call_match :: "value list option"
  call_not_match :: "value list option"
  call_justification :: "rstring option"
  call_location :: "error_location option"

definition rules_of_pattern ::
  "pattern_token list \<Rightarrow> decision \<Rightarrow> rstring option \<Rightarrow> prefix_rule list" where
  "rules_of_pattern tokens d j =
     map (\<lambda>h. \<lparr>rule_pattern = \<lparr>pat_first = h, pat_rest = tl tokens\<rparr>, rule_decision = d, rule_justification = j\<rparr>)
       (alternatives (hd tokens))"

definition register_rules :: "pending_example_validation \<Rightarrow> policy_builder \<Rightarrow> policy_builder" where
  "register_rules v b =
     fold add_rule (pending_rules v)
       (b\<lparr>pending_example_validations := pending_example_validations b @ [v]\<rparr>)"

definition prefix_rule_builtin ::
  "shell_split \<Rightarrow> prefix_rule_call \<Rightarrow> policy_builder \<Rightarrow> (error, policy_builder) result" where
  "prefix_rule_builtin split c b =
     (case (case call_decision c of Some raw \<Rightarrow> decision_parse raw | None \<Rightarrow> Inr Allow) of
        Inl e \<Rightarrow> Inl e
      | Inr d \<Rightarrow> (case parse_justification (call_justification c) of
          Inl e \<Rightarrow> Inl e
        | Inr j \<Rightarrow> (case parse_pattern (call_pattern c) of
            Inl e \<Rightarrow> Inl e
          | Inr tokens \<Rightarrow> (case parse_examples split (call_match c) of
              Inl e \<Rightarrow> Inl e
            | Inr ms \<Rightarrow> (case parse_examples split (call_not_match c) of
                Inl e \<Rightarrow> Inl e
              | Inr nms \<Rightarrow>
                  Inr (register_rules \<lparr>pending_rules = rules_of_pattern tokens d j, pending_matches = ms,
                         pending_not_matches = nms, pending_location = call_location c\<rparr> b))))))"

definition network_rule_builtin ::
  "rstring \<Rightarrow> rstring \<Rightarrow> rstring \<Rightarrow> rstring option \<Rightarrow> policy_builder \<Rightarrow> (error, policy_builder) result" where
  "network_rule_builtin host protocol decision justification b =
     (case network_rule_protocol_parse protocol of
        Inl e \<Rightarrow> Inl e
      | Inr pr \<Rightarrow> (case parse_network_rule_decision decision of
          Inl e \<Rightarrow> Inl e
        | Inr d \<Rightarrow> (case parse_justification justification of
            Inl e \<Rightarrow> Inl e
          | Inr j \<Rightarrow> (case normalize_network_rule_host host of
              Inl e \<Rightarrow> Inl e
            | Inr h \<Rightarrow>
                Inr (b\<lparr>builder_network_rules := builder_network_rules b @
                       [\<lparr>rule_host = h, rule_protocol = pr, network_decision = d, network_justification = j\<rparr>]\<rparr>)))))"

fun parse_host_paths :: "path_env \<Rightarrow> rstring \<Rightarrow> value list \<Rightarrow> rstring list \<Rightarrow> (error, rstring list) result" where
  "parse_host_paths env name [] acc = Inr acc"
| "parse_host_paths env name (v # vs) acc =
     (case v of
        VStr raw \<Rightarrow>
          (case parse_literal_absolute_path env raw of
             Inl e \<Rightarrow> Inl e
           | Inr p \<Rightarrow>
               if executable_path_lookup_key p \<noteq> Some (executable_lookup_key name)
               then Inl (InvalidRule (str ''host_executable path '' @ [96] @ raw @ [96]
                           @ str '' must have basename '' @ [96] @ name @ [96]))
               else parse_host_paths env name vs (if p \<in> set acc then acc else acc @ [p]))
      | _ \<Rightarrow> Inl (InvalidRule (str ''host_executable paths must be strings (got '' @ value_type v @ str '')'')))"

definition host_executable_builtin ::
  "path_env \<Rightarrow> rstring \<Rightarrow> value list \<Rightarrow> policy_builder \<Rightarrow> (error, policy_builder) result" where
  "host_executable_builtin env name paths b =
     (case validate_host_executable_name name of
        Inl e \<Rightarrow> Inl e
      | Inr _ \<Rightarrow> (case parse_host_paths env name paths [] of
          Inl e \<Rightarrow> Inl e
        | Inr ps \<Rightarrow>
            Inr (b\<lparr>builder_host_executables := (builder_host_executables b)(executable_lookup_key name \<mapsto> ps)\<rparr>)))"

datatype builtin_call =
    PrefixRuleCall prefix_rule_call
  | NetworkRuleCall rstring rstring rstring "rstring option"
  | HostExecutableCall rstring "value list"

definition run_builtin ::
  "path_env \<Rightarrow> shell_split \<Rightarrow> builtin_call \<Rightarrow> policy_builder \<Rightarrow> (error, policy_builder) result" where
  "run_builtin env split c b =
     (case c of
        PrefixRuleCall pc \<Rightarrow> prefix_rule_builtin split pc b
      | NetworkRuleCall host protocol decision j \<Rightarrow> network_rule_builtin host protocol decision j b
      | HostExecutableCall name paths \<Rightarrow> host_executable_builtin env name paths b)"

definition display_error :: "error \<Rightarrow> rstring" where
  "display_error e =
     (case e of
        InvalidDecision m \<Rightarrow> str ''invalid decision: '' @ m
      | InvalidPattern m \<Rightarrow> str ''invalid pattern element: '' @ m
      | InvalidExample m \<Rightarrow> str ''invalid example: '' @ m
      | InvalidRule m \<Rightarrow> str ''invalid rule: '' @ m
      | Starlark m \<Rightarrow> str ''starlark error: '' @ m
      | ExampleDidNotMatch _ _ \<Rightarrow> str ''expected every example to match at least one rule''
      | ExampleDidMatch _ _ \<Rightarrow> str ''expected example to not match rule'')"

fun eval_module ::
  "path_env \<Rightarrow> shell_split \<Rightarrow> builtin_call list \<Rightarrow> policy_builder \<Rightarrow> policy_builder \<times> error option" where
  "eval_module env split [] b = (b, None)"
| "eval_module env split (c # cs) b =
     (case run_builtin env split c b of
        Inl e \<Rightarrow> (b, Some (Starlark (display_error e)))
      | Inr b' \<Rightarrow> eval_module env split cs b')"

text \<open>\<^verbatim>\<open>PolicyParser::parse\<close>; a file that is not Starlark at all is the error \<open>Inl\<close>.\<close>

definition parse_policy ::
  "path_env \<Rightarrow> shell_split \<Rightarrow> shell_join \<Rightarrow> (rstring, builtin_call list) result \<Rightarrow> policy_builder
    \<Rightarrow> policy_builder \<times> (error, unit) result" where
  "parse_policy env split join_words module b =
     (case module of
        Inl m \<Rightarrow> (b, Inl (Starlark m))
      | Inr calls \<Rightarrow>
          (case eval_module env split calls b of
             (b', Some e) \<Rightarrow> (b', Inl e)
           | (b', None) \<Rightarrow>
               (b', validate_pending_examples_from env join_words b' (length (pending_example_validations b)))))"

subsection \<open>Examples of accepted files hold\<close>

definition rules_included :: "policy \<Rightarrow> policy \<Rightarrow> bool" where
  "rules_included p q \<longleftrightarrow>
     (\<forall>k. set (multi_get (rules_by_program p) k) \<subseteq> set (multi_get (rules_by_program q) k)) \<and>
     host_executables_by_name p = host_executables_by_name q"

lemma map_filter_mono: "set xs \<subseteq> set ys \<Longrightarrow> List.map_filter f xs \<noteq> [] \<Longrightarrow> List.map_filter f ys \<noteq> []"
  by (auto simp: map_filter_def filter_empty_conv)

lemma exact_mono:
  assumes "rules_included p q" "match_exact_rules p cmd = Some ms" "ms \<noteq> []"
  shows "\<exists>ns. match_exact_rules q cmd = Some ns \<and> ns \<noteq> []"
  using assms map_filter_mono [of _ _ "\<lambda>r. rule_matches r cmd"]
  by (auto simp: rules_included_def match_exact_rules_def split: list.splits)

lemma host_mono:
  assumes "rules_included p q" "match_host_executable_rules env p cmd \<noteq> []"
  shows "match_host_executable_rules env q cmd \<noteq> []"
proof -
  obtain first args program b where c: "cmd = first # args" "from_absolute_path env first = Some program"
      "executable_path_lookup_key program = Some b"
      "\<not> (case host_executables_by_name p b of Some paths \<Rightarrow> \<not> list_ex (\<lambda>path. path = program) paths | None \<Rightarrow> False)"
      "List.map_filter (\<lambda>r. rule_matches r (b # args)) (multi_get (rules_by_program p) b) \<noteq> []"
    using assms(2)
    by (auto simp: match_host_executable_rules_def split: list.splits option.splits if_splits)
  then have "List.map_filter (\<lambda>r. rule_matches r (b # args)) (multi_get (rules_by_program q) b) \<noteq> []"
    using assms(1) map_filter_mono unfolding rules_included_def by blast
  moreover have "host_executables_by_name q = host_executables_by_name p" using assms(1) by (simp add: rules_included_def)
  ultimately show ?thesis using c by (simp add: match_host_executable_rules_def)
qed

lemma matches_no_fallback:
  "matches_for_command_with_options env p cmd None opts =
     (case match_exact_rules p cmd of
        Some (m # ms) \<Rightarrow> m # ms
      | _ \<Rightarrow> if resolve_host_executables opts then match_host_executable_rules env p cmd else [])"
  by (simp add: matches_for_command_with_options_def Let_def split: list.splits)

lemma matches_mono:
  assumes "rules_included p q" "matches_for_command_with_options env p cmd None opts \<noteq> []"
  shows "matches_for_command_with_options env q cmd None opts \<noteq> []"
proof (cases "\<exists>m ms. match_exact_rules p cmd = Some (m # ms)")
  case True
  then obtain n ns where "match_exact_rules q cmd = Some (n # ns)"
    using exact_mono [OF assms(1)] by (metis list.distinct(1) neq_Nil_conv)
  then show ?thesis by (simp add: matches_no_fallback)
next
  case False
  then have "resolve_host_executables opts \<and> match_host_executable_rules env p cmd \<noteq> []"
    using assms(2) by (auto simp: matches_no_fallback split: option.splits list.splits if_splits)
  then show ?thesis
    using host_mono [OF assms(1)] by (auto simp: matches_no_fallback split: option.splits list.splits)
qed

text \<open>Every rule awaiting validation is a rule of the builder.\<close>

definition pending_registered :: "policy_builder \<Rightarrow> bool" where
  "pending_registered b \<longleftrightarrow>
     (\<forall>v \<in> set (pending_example_validations b). \<forall>r \<in> set (pending_rules v).
        r \<in> set (multi_get (builder_rules b) (rule_program r)))"

lemma fold_add_rule:
  "multi_get (builder_rules (fold add_rule rs b)) k =
     multi_get (builder_rules b) k @ filter (\<lambda>r. rule_program r = k) rs"
  "pending_example_validations (fold add_rule rs b) = pending_example_validations b"
  by (induction rs arbitrary: b) (auto simp: add_rule_def multi_get_insert)

lemma run_builtin_registered:
  assumes "pending_registered b" "run_builtin env split c b = Inr b'"
  shows "pending_registered b'"
proof (cases c)
  case (PrefixRuleCall pc)
  then obtain v where "b' = register_rules v b"
    using assms(2) by (auto simp: run_builtin_def prefix_rule_builtin_def split: option.splits sum.splits)
  then show ?thesis
    using assms(1) by (auto simp: pending_registered_def register_rules_def fold_add_rule)
qed (use assms in \<open>auto simp: run_builtin_def network_rule_builtin_def host_executable_builtin_def pending_registered_def
      split: sum.splits\<close>)

lemma eval_module_registered:
  assumes "pending_registered b" "eval_module env split cs b = (b', r)"
  shows "pending_registered b'"
  using assms
  by (induction env split cs b rule: eval_module.induct) (auto split: sum.splits dest: run_builtin_registered)

definition is_prefix_rule_call :: "builtin_call \<Rightarrow> bool" where
  "is_prefix_rule_call c = (case c of PrefixRuleCall _ \<Rightarrow> True | _ \<Rightarrow> False)"

lemma run_builtin_pending:
  "run_builtin env split c b = Inr b' \<Longrightarrow>
   length (pending_example_validations b') = length (pending_example_validations b) + (if is_prefix_rule_call c then 1 else 0)"
  by (auto simp: run_builtin_def is_prefix_rule_call_def prefix_rule_builtin_def network_rule_builtin_def
      host_executable_builtin_def register_rules_def fold_add_rule split: builtin_call.splits sum.splits option.splits)

lemma eval_module_pending:
  "eval_module env split cs b = (b', None) \<Longrightarrow>
   length (pending_example_validations b') = length (pending_example_validations b) + length (filter is_prefix_rule_call cs)"
  by (induction env split cs b rule: eval_module.induct) (auto split: sum.splits dest: run_builtin_pending)

lemma validation_policy_included:
  assumes "pending_registered b" "v \<in> set (pending_example_validations b)"
  shows "rules_included (validation_policy b v) (build b)"
proof -
  have "multi_get (fold (\<lambda>r. multi_insert (rule_program r) r) rs m) k =
      multi_get m k @ filter (\<lambda>r. rule_program r = k) rs" for rs m k
    by (induction rs arbitrary: m) (auto simp: multi_get_insert)
  then show ?thesis
    using assms by (auto simp: rules_included_def validation_policy_def build_def pending_registered_def multi_get_def)
qed

lemma validate_all_ok:
  "validate_all env j b vs = Inr u \<Longrightarrow> v \<in> set vs \<Longrightarrow> validate_pending env j b v = Inr ()"
  by (induction env j b vs rule: validate_all.induct) (auto split: sum.splits)

lemma validate_not_match_ok:
  "validate_not_match_examples env j p exs = Inr u \<Longrightarrow> ex \<in> set exs \<Longrightarrow>
   matches_for_command_with_options env p ex None resolving_options = []"
  by (induction env j p exs rule: validate_not_match_examples.induct) (auto split: list.splits)

lemma validate_pending_ok:
  assumes "validate_pending env j b v = Inr ()"
  shows "ex \<in> set (pending_matches v) \<Longrightarrow>
      matches_for_command_with_options env (validation_policy b v) ex None resolving_options \<noteq> []"
    and "ex \<in> set (pending_not_matches v) \<Longrightarrow>
      matches_for_command_with_options env (validation_policy b v) ex None resolving_options = []"
  using assms
  by (auto simp: validate_pending_def validate_match_examples_def Let_def filter_empty_conv
      split: sum.splits if_splits dest: validate_not_match_ok)


definition ex_calls :: "builtin_call list" where
  "ex_calls = [PrefixRuleCall \<lparr>call_pattern = [VStr (str ''git''), VList [VStr (str ''log''), VStr (str ''diff'')]],
     call_decision = None, call_match = Some [VList [VStr (str ''git''), VStr (str ''log'')]],
     call_not_match = Some [VList [VStr (str ''git''), VStr (str ''push'')]], call_justification = None,
     call_location = None\<rparr>]"


end
