(* ===== verification/Json_String.thy ===== *)
theory Json_String
  imports Prelude
begin

section \<open>JSON strings\<close>

text \<open>
  \<^verbatim>\<open>serde_json::to_string\<close> of a string, which the writers of policy files use to quote words,
  and the fact that a quoted string can be read back from the front of any text.
\<close>

definition hex_digit :: "nat \<Rightarrow> rchar" where
  "hex_digit n = (if n < 10 then 48 + n else 87 + n)"

definition short_escape :: "rchar \<Rightarrow> rchar option" where
  "short_escape c =
     (if c = 34 then Some 34
      else if c = 92 then Some 92
      else if c = 8 then Some 98
      else if c = 9 then Some 116
      else if c = 10 then Some 110
      else if c = 12 then Some 102
      else if c = 13 then Some 114
      else None)"

definition json_escape :: "rchar \<Rightarrow> rstring" where
  "json_escape c =
     (case short_escape c of
        Some e \<Rightarrow> [92, e]
      | None \<Rightarrow>
          if c < 32 then [92, 117, 48, 48, hex_digit (c div 16), hex_digit (c mod 16)] else [c])"

definition json_string :: "rstring \<Rightarrow> rstring" where
  "json_string s = [34] @ concat (map json_escape s) @ [34]"

subsection \<open>Unique decoding\<close>

lemma hex_digit_inj:
  assumes "m < 16" "n < 16" "hex_digit m = hex_digit n"
  shows "m = n"
proof (cases "m < 10"; cases "n < 10")
qed (use assms in \<open>simp_all add: hex_digit_def\<close>)

lemma short_escape_inj: "short_escape c = Some e \<Longrightarrow> short_escape c' = Some e \<Longrightarrow> c = c'"
  by (simp add: short_escape_def split: if_splits)

lemma short_escape_facts:
  "short_escape c \<noteq> Some 117" "short_escape c = None \<Longrightarrow> c \<noteq> 92 \<and> c \<noteq> 34 \<and> c \<noteq> 10"
  by (simp_all add: short_escape_def split: if_splits)

lemma json_escape_cases:
  obtains e where "short_escape c = Some e" "json_escape c = [92, e]" "e \<noteq> 117" "e \<noteq> 10"
  | "short_escape c = None" "c < 32" "json_escape c = [92, 117, 48, 48, hex_digit (c div 16), hex_digit (c mod 16)]"
  | "\<not> c < 32" "c \<noteq> 92" "c \<noteq> 34" "json_escape c = [c]"
proof (cases "short_escape c")
  case (Some e)
  then show thesis
    using that(1) [of e] by (simp add: json_escape_def short_escape_def split: if_splits)
next
  case None
  then show thesis using that(2,3) short_escape_facts(2) [of c] by (cases "c < 32") (simp_all add: json_escape_def)
qed

lemma json_escape_control:
  assumes "c < 32" "c' < 32" "hex_digit (c div 16) = hex_digit (c' div 16)"
    "hex_digit (c mod 16) = hex_digit (c' mod 16)"
  shows "c = c'"
proof -
  have "c div 16 < 16" "c' div 16 < 16" using assms(1,2) by (simp_all add: less_mult_imp_div_less)
  then have "c div 16 = c' div 16" using assms(3) hex_digit_inj by blast
  moreover have "c mod 16 = c' mod 16" using assms(4) hex_digit_inj [of "c mod 16" "c' mod 16"] by simp
  ultimately show "c = c'" by (metis div_mult_mod_eq)
qed

lemma json_escape_prefix_free:
  assumes "json_escape c @ x = json_escape c' @ x'"
  shows "c = c' \<and> x = x'"
  by (rule json_escape_cases [of c]; rule json_escape_cases [of c'])
    (use assms short_escape_inj [of c _ c'] json_escape_control [of c c'] in auto)

lemma json_escape_not_quote: "json_escape c @ x \<noteq> 34 # y"
  by (rule json_escape_cases [of c]) auto

lemma json_escape_no_LF: "10 \<notin> set (json_escape c)"
  by (rule json_escape_cases [of c]) (auto simp: hex_digit_def)

lemma json_chars_unique:
  "concat (map json_escape s) @ [34] @ r = concat (map json_escape s') @ [34] @ r' \<Longrightarrow> s = s' \<and> r = r'"
proof (induction s arbitrary: s')
  case Nil
  show ?case
  proof (cases s')
    case (Cons c t)
    then show ?thesis using Nil json_escape_not_quote [THEN not_sym, of r c] by simp
  qed (use Nil in simp)
next
  case (Cons c s)
  show ?case
  proof (cases s')
    case Nil
    then show ?thesis using Cons.prems json_escape_not_quote [of c] by simp
  next
    case s': (Cons d t)
    have "json_escape c @ (concat (map json_escape s) @ [34] @ r) =
        json_escape d @ (concat (map json_escape t) @ [34] @ r')"
      using Cons.prems s' by simp
    from json_escape_prefix_free [OF this] Cons.IH s' show ?thesis by auto
  qed
qed

lemma json_string_unique: "json_string s @ r = json_string s' @ r' \<Longrightarrow> s = s' \<and> r = r'"
  using json_chars_unique [of s r s' r'] by (simp add: json_string_def)

lemma json_string_no_LF: "10 \<notin> set (json_string s)"
  using json_escape_no_LF by (auto simp: json_string_def)

lemma join_json_unique:
  "ss \<noteq> [] \<Longrightarrow> ss' \<noteq> [] \<Longrightarrow>
   join (str '', '') (map json_string ss) @ str '']'' @ r = join (str '', '') (map json_string ss') @ str '']'' @ r' \<Longrightarrow> ss = ss'"
proof (induction ss arbitrary: ss')
  case (Cons s ss)
  obtain s' t where s': "ss' = s' # t" using Cons.prems(2) by (cases ss') auto
  have sep: "join (str '', '') (map json_string (u # us)) @ x =
      json_string u @ (if us = [] then x else str '', '' @ join (str '', '') (map json_string us) @ x)" for u us x
    by (cases us) simp_all
  let ?tail = "\<lambda>us x. if us = [] then str '']'' @ x else str '', '' @ join (str '', '') (map json_string us) @ str '']'' @ x"
  have tails: "s = s'" "?tail ss r = ?tail t r'"
    using json_string_unique [OF Cons.prems(3) [unfolded s' sep]] by blast+
  have "ss = t"
  proof (cases "ss = [] \<or> t = []")
    case True
    then show ?thesis using tails(2) by (auto simp: str_def split: if_splits)
  next
    case False
    then show ?thesis using tails(2) Cons.IH [of t] by simp
  qed
  with tails(1) s' show ?case by simp
qed simp

end
