(* ===== verification/Policy_Amend.thy ===== *)
theory Policy_Amend
  imports Policy_Parser Json_String
begin

section \<open>Appending rules to a policy file: execpolicy/src/amend.rs\<close>

text \<open>
  The rule lines an approval appends to a policy file, and the locked read and append. The
  file is its contents; every system call of \<^verbatim>\<open>append_locked_line\<close> may fail, which a record of
  faults decides, and the contents are returned also after a failure.
\<close>

datatype amend_error =
    EmptyPrefix
  | InvalidNetworkRule rstring
  | MissingParent
  | CreatePolicyDir
  | OpenPolicyFile
  | WritePolicyFile
  | LockPolicyFile
  | SeekPolicyFile
  | ReadPolicyFile

definition prefix_rule_line :: "rstring list \<Rightarrow> rstring" where
  "prefix_rule_line prefix =
     str ''prefix_rule(pattern=['' @ join (str '', '') (map json_string prefix) @ str ''], decision='' @ [34]
     @ str ''allow'' @ [34] @ str '')''"

definition policy_decision_string :: "decision \<Rightarrow> rstring" where
  "policy_decision_string d =
     (case d of Allow \<Rightarrow> str ''allow'' | Prompt \<Rightarrow> str ''prompt'' | Forbidden \<Rightarrow> str ''deny'')"

definition network_rule_line ::
  "rstring \<Rightarrow> network_rule_protocol \<Rightarrow> decision \<Rightarrow> rstring option \<Rightarrow> rstring" where
  "network_rule_line host protocol d justification =
     str ''network_rule('' @ join (str '', '')
       ([str ''host='' @ json_string host, str ''protocol='' @ json_string (as_policy_string protocol),
         str ''decision='' @ json_string (policy_decision_string d)]
        @ (case justification of None \<Rightarrow> [] | Some j \<Rightarrow> [str ''justification='' @ json_string j]))
     @ str '')''"

record file_faults =
  open_fails :: bool
  lock_fails :: bool
  seek_fails :: bool
  read_fails :: bool
  newline_write_fails :: bool
  line_write_fails :: bool

text \<open>The contents are absent when the file does not exist; opening creates it.\<close>

definition append_locked_line ::
  "file_faults \<Rightarrow> rstring \<Rightarrow> rstring option \<Rightarrow> rstring option \<times> (amend_error, unit) result" where
  "append_locked_line faults line file =
     (if open_fails faults then (file, Inl OpenPolicyFile)
      else
        let contents = (case file of None \<Rightarrow> [] | Some c \<Rightarrow> c) in
        if lock_fails faults then (Some contents, Inl LockPolicyFile)
        else if seek_fails faults then (Some contents, Inl SeekPolicyFile)
        else if read_fails faults then (Some contents, Inl ReadPolicyFile)
        else if line \<in> set (lines contents) then (Some contents, Inr ())
        else if contents \<noteq> [] \<and> \<not> ends_with [LF] contents then
          (if newline_write_fails faults then (Some contents, Inl WritePolicyFile)
           else if line_write_fails faults then (Some (contents @ [LF]), Inl WritePolicyFile)
           else (Some (contents @ [LF] @ line @ [LF]), Inr ()))
        else if line_write_fails faults then (Some contents, Inl WritePolicyFile)
        else (Some (contents @ line @ [LF]), Inr ()))"

text \<open>The parent directory: \<open>None\<close> when the path has none, else whether creating it failed.\<close>

definition append_rule_line ::
  "bool option \<Rightarrow> file_faults \<Rightarrow> rstring \<Rightarrow> rstring option \<Rightarrow> rstring option \<times> (amend_error, unit) result" where
  "append_rule_line create_dir_fails faults rule file =
     (case create_dir_fails of
        None \<Rightarrow> (file, Inl MissingParent)
      | Some failed \<Rightarrow> if failed then (file, Inl CreatePolicyDir) else append_locked_line faults rule file)"

definition blocking_append_allow_prefix_rule ::
  "bool option \<Rightarrow> file_faults \<Rightarrow> rstring list \<Rightarrow> rstring option \<Rightarrow> rstring option \<times> (amend_error, unit) result" where
  "blocking_append_allow_prefix_rule create_dir_fails faults prefix file =
     (if prefix = [] then (file, Inl EmptyPrefix)
      else append_rule_line create_dir_fails faults (prefix_rule_line prefix) file)"

definition blocking_append_network_rule ::
  "bool option \<Rightarrow> file_faults \<Rightarrow> rstring \<Rightarrow> network_rule_protocol \<Rightarrow> decision \<Rightarrow> rstring option \<Rightarrow> rstring option
    \<Rightarrow> rstring option \<times> (amend_error, unit) result" where
  "blocking_append_network_rule create_dir_fails faults host protocol d justification file =
     (case normalize_network_rule_host host of
        Inl e \<Rightarrow> (file, Inl (InvalidNetworkRule (display_error e)))
      | Inr h \<Rightarrow>
          if (case justification of Some raw \<Rightarrow> trim raw = [] | None \<Rightarrow> False)
          then (file, Inl (InvalidNetworkRule (str ''justification cannot be empty'')))
          else append_rule_line create_dir_fails faults (network_rule_line h protocol d justification) file)"

subsection \<open>Rule lines decode uniquely\<close>

text \<open>
  Approvals are recorded under distinct lines: the prefix rule lines of two different
  command prefixes differ, whatever quotes, backslashes, separators or control characters
  the words hold, so an approval is never taken for one already in the file.
\<close>

lemma prefix_rule_line_inj:
  assumes "prefix_rule_line p = prefix_rule_line q" "p \<noteq> []" "q \<noteq> []"
  shows "p = q"
proof -
  let ?r = "str '', decision='' @ [34] @ str ''allow'' @ [34] @ str '')''"
  have e: "str ''], decision='' = str '']'' @ str '', decision=''" by (simp add: str_def)
  have "join (str '', '') (map json_string p) @ str '']'' @ ?r = join (str '', '') (map json_string q) @ str '']'' @ ?r"
    using assms(1) unfolding prefix_rule_line_def e by simp
  from join_json_unique [OF assms(2,3) this] show ?thesis .
qed


subsection \<open>What an append leaves in the file\<close>

lemma LF_in_join: "LF \<in> set (join sep xs) \<Longrightarrow> LF \<in> set sep \<or> (\<exists>x \<in> set xs. LF \<in> set x)"
  by (induction sep xs rule: join.induct) auto

lemma prefix_rule_line_single: "LF \<notin> set (prefix_rule_line prefix)" "prefix_rule_line prefix \<noteq> []"
    "last (prefix_rule_line prefix) = 41"
  using LF_in_join [of "str '', ''" "map json_string prefix"] json_string_no_LF
  by (auto simp: prefix_rule_line_def str_def)

lemma lines_terminated:
  assumes "LF \<notin> set l" "c = [] \<or> last c = LF"
  shows "lines (c @ l @ [LF]) = lines c @ [strip_cr l]"
proof -
  have sp: "split_on LF (c @ l @ [LF]) = butlast (split_on LF c) @ [l, []]"
  proof (cases "c = []")
    case True
    then show ?thesis using split_on_append_sep [OF assms(1), of "[]"] by simp
  next
    case False
    then obtain d where d: "c = d @ [LF]" using assms(2) by (metis append_butlast_last_id)
    have "split_on LF (d @ LF # x) = split_on LF d @ split_on LF x" for x
    proof (induction d)
      case (Cons a d)
      then show ?case by (cases "split_on LF d") auto
    qed simp
    from this [of "l @ [LF]"] this [of "[]"] show ?thesis
      using split_on_append_sep [OF assms(1), of "[]"] d by simp
  qed
  have "last (split_on LF c) = []" using assms(2) last_split_on [of LF c] by auto
  then show ?thesis by (simp add: lines_def sp butlast_append)
qed

lemma ends_with_single: "ends_with [c] s \<longleftrightarrow> s \<noteq> [] \<and> last s = c"
  by (cases s rule: rev_cases) (auto simp: ends_with_def starts_with_def)

definition faultless :: file_faults where
  "faultless = \<lparr>open_fails = False, lock_fails = False, seek_fails = False, read_fails = False,
     newline_write_fails = False, line_write_fails = False\<rparr>"

lemma append_locked_line_ok:
  assumes "append_locked_line faults line file = (file', Inr u)" "LF \<notin> set line" "line \<noteq> []" "last line \<noteq> CR"
  shows "\<exists>added. file' = Some (case_option [] id file @ added) \<and>
    line \<in> set (lines (case_option [] id file @ added))"
proof -
  let ?c = "case_option [] id file"
  have sc: "strip_cr line = line" using assms(4) by (simp add: strip_cr_def)
  have "(file' = Some ?c \<and> line \<in> set (lines ?c)) \<or>
      (file' = Some (?c @ [LF] @ line @ [LF])) \<or>
      (file' = Some (?c @ line @ [LF]) \<and> (?c = [] \<or> last ?c = LF))"
    using assms(1)
    by (cases "file :: rstring option") (auto simp: append_locked_line_def Let_def ends_with_single split: if_splits)
  moreover have "line \<in> set (lines ((?c @ [LF]) @ line @ [LF]))"
    using lines_terminated [OF assms(2), of "?c @ [LF]"] sc by simp
  moreover have "?c = [] \<or> last ?c = LF \<Longrightarrow> line \<in> set (lines (?c @ line @ [LF]))"
    using lines_terminated [OF assms(2), of ?c] sc by simp
  ultimately show ?thesis
    by (elim disjE) (rule exI [of _ "[]"], simp, rule exI [of _ "[LF] @ line @ [LF]"], simp,
        rule exI [of _ "line @ [LF]"], simp)
qed



end
