(* ===== verification/Bytes.thy ===== *)
theory Bytes
  imports Prelude "HOL-Library.Word"
begin

section \<open>Bytes\<close>

text \<open>
  Byte strings: the bytes of an ASCII string, big-endian integers
  (\<^verbatim>\<open>to_be_bytes\<close> and \<^verbatim>\<open>from_be_bytes\<close>), and \<^verbatim>\<open>slice::chunks\<close>.
\<close>

type_synonym byte = "8 word"

text \<open>An ASCII string as the bytes of its UTF-8 encoding.\<close>

definition ascii_bytes :: "rstring \<Rightarrow> byte list" where
  "ascii_bytes s = map of_nat s"

text \<open>\<^verbatim>\<open>to_be_bytes\<close> of an integer of \<open>n\<close> bytes.\<close>

primrec be_bytes :: "nat \<Rightarrow> nat \<Rightarrow> byte list" where
  "be_bytes 0 x = []"
| "be_bytes (Suc n) x = be_bytes n (x div 256) @ [of_nat (x mod 256)]"

definition be_value :: "byte list \<Rightarrow> nat" where
  "be_value bs = fold (\<lambda>b v. v * 256 + unat b) bs 0"

function slice_chunks :: "nat \<Rightarrow> 'a list \<Rightarrow> 'a list list" where
  "slice_chunks n xs = (if n = 0 \<or> xs = [] then [] else take n xs # slice_chunks n (drop n xs))"
  by pat_completeness auto
termination by (relation "measure (\<lambda>(_, xs). length xs)") auto

declare slice_chunks.simps [simp del]

lemma length_be_bytes [simp]: "length (be_bytes n x) = n"
  by (induction n arbitrary: x) auto

lemma unat_of_nat_byte: "x < 256 \<Longrightarrow> unat (of_nat x :: byte) = x"
  by (simp add: unat_of_nat take_bit_eq_mod)

lemma be_value_snoc: "be_value (bs @ [b]) = be_value bs * 256 + unat b"
  by (simp add: be_value_def)

lemma be_value_be_bytes: "x < 256 ^ n \<Longrightarrow> be_value (be_bytes n x) = x"
proof (induction n arbitrary: x)
  case (Suc n)
  then have "x div 256 < 256 ^ n" by (simp add: less_mult_imp_div_less mult.commute)
  then show ?case
    using Suc.IH by (simp add: be_value_snoc unat_of_nat_byte)
qed (simp add: be_value_def)

lemma be_bytes_inj: "be_bytes n x = be_bytes n y \<Longrightarrow> x < 256 ^ n \<Longrightarrow> y < 256 ^ n \<Longrightarrow> x = y"
  by (metis be_value_be_bytes)

lemma concat_chunks: "0 < n \<Longrightarrow> concat (slice_chunks n xs) = xs"
proof (induction n xs rule: slice_chunks.induct)
  case (1 n xs)
  then show ?case by (subst slice_chunks.simps) auto
qed

lemma chunks_length: "x \<in> set (slice_chunks n xs) \<Longrightarrow> length x \<le> n \<and> x \<noteq> []"
proof (induction n xs rule: slice_chunks.induct)
  case (1 n xs)
  then show ?case
    by (subst (asm) (2) slice_chunks.simps) (auto split: if_splits)
qed

end
