(* ===== verification/Head_Tail_Buffer.thy ===== *)
theory Head_Tail_Buffer
  imports Bytes
begin

section \<open>The capped output buffer of unified exec\<close>

text \<open>
  \<^verbatim>\<open>core/src/unified_exec/head_tail_buffer.rs\<close>: a byte buffer that keeps the first and
  the last bytes of a stream and counts what it drops in between. The contract is stated
  against the whole stream (\<open>represents\<close>): every operation keeps the buffer equal to
  what one would compute from all the bytes ever pushed, also when a drained buffer with
  omissions of its own is merged into another one. The locale \<open>byte_sink\<close> is that
  contract as the collector of process output uses it.
\<close>

definition UNIFIED_EXEC_OUTPUT_MAX_BYTES :: nat where
  "UNIFIED_EXEC_OUTPUT_MAX_BYTES = 1024 * 1024"

definition format_output_omission_marker :: "nat \<Rightarrow> rstring" where
  "format_output_omission_marker n = str ''... '' @ dec n @ str '' bytes omitted ...''"

record head_tail_buffer =
  max_bytes :: nat
  head_budget :: nat
  tail_budget :: nat
  head :: "byte list"
  tail :: "byte list"
  omitted_bytes :: nat

definition new_buffer :: "nat \<Rightarrow> head_tail_buffer" where
  "new_buffer m =
     (let hb = m div 2; tb = m - hb
      in \<lparr>max_bytes = m, head_budget = hb, tail_budget = tb, head = [], tail = [],
          omitted_bytes = 0\<rparr>)"

definition default_buffer :: head_tail_buffer where
  "default_buffer = new_buffer UNIFIED_EXEC_OUTPUT_MAX_BYTES"

definition retained_bytes :: "head_tail_buffer \<Rightarrow> nat" where
  "retained_bytes b = saturating_add (length (head b)) (length (tail b))"

definition total_bytes :: "head_tail_buffer \<Rightarrow> nat" where
  "total_bytes b = saturating_add (retained_bytes b) (omitted_bytes b)"

definition trim_tail_to_budget :: "head_tail_buffer \<Rightarrow> head_tail_buffer" where
  "trim_tail_to_budget b =
     (let excess = length (tail b) - tail_budget b
      in if excess > 0
         then b\<lparr>tail := drop excess (tail b),
                omitted_bytes := saturating_add (omitted_bytes b) excess\<rparr>
         else b)"

definition push_to_tail :: "byte list \<Rightarrow> head_tail_buffer \<Rightarrow> head_tail_buffer" where
  "push_to_tail chunk b =
     (if chunk = [] then b
      else if tail_budget b = 0
      then b\<lparr>omitted_bytes := saturating_add (omitted_bytes b) (length chunk)\<rparr>
      else if length chunk \<ge> tail_budget b
      then (let start = length chunk - tail_budget b;
                kept = drop start chunk;
                dropped = length chunk - length kept
            in b\<lparr>omitted_bytes :=
                   saturating_add (saturating_add (omitted_bytes b) (length (tail b))) dropped,
                 tail := kept\<rparr>)
      else trim_tail_to_budget (b\<lparr>tail := tail b @ chunk\<rparr>))"

definition push_chunk :: "byte list \<Rightarrow> head_tail_buffer \<Rightarrow> head_tail_buffer" where
  "push_chunk chunk b =
     (if chunk = [] then b
      else if max_bytes b = 0
      then b\<lparr>omitted_bytes := saturating_add (omitted_bytes b) (length chunk)\<rparr>
      else (let remaining_head = head_budget b - length (head b);
                head_len = min remaining_head (length chunk);
                b1 = (if head_len > 0 then b\<lparr>head := head b @ take head_len chunk\<rparr> else b)
            in push_to_tail (drop head_len chunk) b1))"

definition snapshot_chunks :: "head_tail_buffer \<Rightarrow> byte list list" where
  "snapshot_chunks b =
     (if head b \<noteq> [] then [head b] else []) @ (if tail b \<noteq> [] then [tail b] else [])"

definition to_bytes :: "head_tail_buffer \<Rightarrow> byte list" where
  "to_bytes b = head b @ tail b"

definition to_bytes_with_omission_marker :: "head_tail_buffer \<Rightarrow> byte list" where
  "to_bytes_with_omission_marker b =
     (if omitted_bytes b = 0 then to_bytes b
      else head b @ [10] @ ascii_bytes (format_output_omission_marker (omitted_bytes b)) @ [10]
           @ tail b)"

text \<open>\<^verbatim>\<open>drain\<close> returns the buffer it leaves behind and the drained one.\<close>

definition drain :: "head_tail_buffer \<Rightarrow> head_tail_buffer \<times> head_tail_buffer" where
  "drain b =
     (b\<lparr>head := [], tail := [], omitted_bytes := 0\<rparr>,
      \<lparr>max_bytes = max_bytes b, head_budget = head_budget b, tail_budget = tail_budget b,
       head = head b, tail = tail b, omitted_bytes = omitted_bytes b\<rparr>)"

definition push_buffer :: "head_tail_buffer \<Rightarrow> head_tail_buffer \<Rightarrow> head_tail_buffer" where
  "push_buffer buffer b =
     (let b1 = push_chunk (head buffer) b;
          b2 = push_chunk (tail buffer) b1
      in b2\<lparr>omitted_bytes := saturating_add (omitted_bytes b2) (omitted_bytes buffer)\<rparr>)"

subsection \<open>What the buffer represents\<close>

definition last_n :: "nat \<Rightarrow> 'a list \<Rightarrow> 'a list" where
  "last_n n xs = drop (length xs - n) xs"

text \<open>A buffer of capacity \<open>m\<close> that has seen the stream \<open>s\<close>.\<close>

definition represents :: "nat \<Rightarrow> head_tail_buffer \<Rightarrow> byte list \<Rightarrow> bool" where
  "represents m b s \<longleftrightarrow>
     max_bytes b = m \<and> head_budget b = m div 2 \<and> tail_budget b = m - m div 2 \<and>
     head b = take (head_budget b) s \<and>
     tail b = last_n (tail_budget b) (drop (head_budget b) s) \<and>
     omitted_bytes b = min (length s - m) usize_max"

lemma length_last_n [simp]: "length (last_n n xs) = min n (length xs)"
  by (auto simp: last_n_def)

lemma last_n_append:
  "last_n n (xs @ ys) = (if n \<le> length ys then last_n n ys else last_n (n - length ys) xs @ ys)"
  by (auto simp: last_n_def)

lemma last_n_last_n_append: "last_n n (last_n n xs @ ys) = last_n n (xs @ ys)"
  by (cases "n \<le> length xs") (auto simp: last_n_append, auto simp: last_n_def add.commute)

lemma last_n_all: "length xs \<le> n \<Longrightarrow> last_n n xs = xs"
  by (simp add: last_n_def)

lemma saturating_min:
  "saturating_add (min a usize_max) b = min (a + b) usize_max"
  "saturating_add a (min b usize_max) = min (a + b) usize_max"
  "saturating_add (min a usize_max) (min b usize_max) = min (a + b) usize_max"
  by (auto simp: saturating_add_def)

lemma push_to_tail_spec:
  assumes "tail b = last_n (tail_budget b) t"
    and "omitted_bytes b = min (k + (length t - tail_budget b)) usize_max"
  shows "push_to_tail c b =
    b\<lparr>tail := last_n (tail_budget b) (t @ c),
      omitted_bytes := min (k + (length t + length c - tail_budget b)) usize_max\<rparr>"
proof (cases "c = [] \<or> tail_budget b = 0")
  case True
  then show ?thesis
    using assms by (auto simp: push_to_tail_def last_n_def saturating_min add.assoc)
next
  case False
  show ?thesis
  proof (cases "length c \<ge> tail_budget b")
    case True
    then have "min (tail_budget b) (length t) + (length t - tail_budget b) = length t"
      by simp
    then show ?thesis using True False assms
      by (simp add: push_to_tail_def saturating_min last_n_append Let_def)
         (simp add: last_n_def algebra_simps)
  next
    case short: False
    have t: "last_n (tail_budget b) (t @ c) = last_n (tail_budget b) (tail b @ c)"
      using assms(1) by (simp add: last_n_last_n_append)
    show ?thesis
    proof (cases "length (tail b) + length c > tail_budget b")
      case True
      then have "length t - tail_budget b + (length (tail b) + length c - tail_budget b) =
          length t + length c - tail_budget b"
        using assms(1) by simp
      then show ?thesis using True False short assms(2) t
        by (simp add: push_to_tail_def trim_tail_to_budget_def saturating_min Let_def last_n_def
            add.assoc)
    next
      case fits: False
      then show ?thesis using False short assms t
        by (auto simp: push_to_tail_def trim_tail_to_budget_def Let_def last_n_all)
    qed
  qed
qed

lemma represents_new: "represents m (new_buffer m) []"
  by (simp add: represents_def new_buffer_def last_n_def Let_def)

lemma push_chunk_represents:
  assumes "represents m b s"
  shows "represents m (push_chunk c b) (s @ c)"
proof (cases "c = []")
  case True
  with assms show ?thesis by (simp add: push_chunk_def)
next
  case False
  show ?thesis
  proof (cases "m = 0")
    case True
    with assms show ?thesis
      by (auto simp: represents_def push_chunk_def last_n_def saturating_min)
  next
    case m: False
    define hb tb where "hb = m div 2" and "tb = m - m div 2"
    define k where "k = min (hb - length (head b)) (length c)"
    define b1 where "b1 = b\<lparr>head := head b @ take k c\<rparr>"
    have b: "max_bytes b = m" "head_budget b = hb" "tail_budget b = tb" "head b = take hb s"
      "tail b = last_n tb (drop hb s)" "omitted_bytes b = min (length s - m) usize_max"
      and mt: "hb + tb = m"
      using assms by (simp_all add: represents_def hb_def tb_def)
    have push: "push_chunk c b = push_to_tail (drop k c) b1"
    proof -
      have "b1 = (if k > 0 then b\<lparr>head := head b @ take k c\<rparr> else b)" by (simp add: b1_def)
      with False m b(1,2) show ?thesis unfolding push_chunk_def Let_def k_def by simp
    qed
    have k: "take k c = take (hb - length s) c" "drop k c = drop (hb - length s) c"
      "length (drop hb s) + length (drop k c) = length s + length c - hb"
      by (auto simp: k_def b(4) min_def)
    have "push_to_tail (drop k c) b1 =
        b1\<lparr>tail := last_n (tail_budget b1) (drop hb s @ drop k c),
           omitted_bytes := min (0 + (length (drop hb s) + length (drop k c) - tail_budget b1))
             usize_max\<rparr>"
      by (rule push_to_tail_spec) (simp_all add: b1_def b mt)
    moreover have "length (drop hb s) + length (drop k c) - tb = length s + length c - m"
      using k(3) mt by simp
    ultimately show ?thesis
      using b k mt by (simp add: push represents_def b1_def hb_def [symmetric] tb_def [symmetric])
  qed
qed

lemma drain_represents:
  assumes "represents m b s"
  shows "represents m (fst (drain b)) []" "represents m (snd (drain b)) s"
  using assms by (auto simp: drain_def represents_def last_n_def)

text \<open>
  The first and last bytes of a stream survive a merge: pushing the retained bytes of a
  buffer in place of the stream it saw gives the same head and the same tail.
\<close>

lemma represents_retained:
  assumes "represents m d t"
  shows "take (m div 2) (s @ head d @ tail d) = take (m div 2) (s @ t)"
    and "last_n (m - m div 2) (drop (m div 2) (s @ head d @ tail d)) =
         last_n (m - m div 2) (drop (m div 2) (s @ t))"
    and "length (head d @ tail d) = min (length t) m"
proof -
  define hb tb where "hb = m div 2" and "tb = m - m div 2"
  have d: "head d = take hb t" "tail d = last_n tb (drop hb t)" and mt: "m = hb + tb"
    using assms by (simp_all add: represents_def hb_def tb_def)
  show "length (head d @ tail d) = min (length t) m" by (simp add: d mt)
  have "take hb (s @ head d @ tail d) = take hb (s @ t)"
    by (cases "length t \<le> hb") (auto simp: d last_n_def min_def)
  then show "take (m div 2) (s @ head d @ tail d) = take (m div 2) (s @ t)"
    by (simp add: hb_def)
  have "last_n tb (drop hb (s @ head d @ tail d)) = last_n tb (drop hb (s @ t))"
  proof (cases "length t \<le> hb + tb")
    case True
    then have "head d @ tail d = t" by (simp add: d last_n_def)
    then show ?thesis by simp
  next
    case False
    then have len: "length (tail d) = tb" "length (head d) = hb" by (simp_all add: d)
    have "last_n tb (drop hb (s @ head d @ tail d)) = tail d"
      by (simp add: len last_n_append [of tb "drop hb s @ drop (hb - length s) (head d)" "tail d",
            simplified] last_n_all)
    moreover have "last_n tb (drop hb (s @ t)) = last_n tb (drop hb t)"
      using False by (auto simp: last_n_def)
    ultimately show ?thesis by (simp add: d)
  qed
  then show "last_n (m - m div 2) (drop (m div 2) (s @ head d @ tail d)) =
      last_n (m - m div 2) (drop (m div 2) (s @ t))"
    by (simp add: hb_def tb_def)
qed

lemma push_buffer_represents:
  assumes "represents m b s" "represents m d t"
  shows "represents m (push_buffer d b) (s @ t)"
proof -
  define b2 where "b2 = push_chunk (tail d) (push_chunk (head d) b)"
  have b2: "represents m b2 (s @ head d @ tail d)"
    using push_chunk_represents [OF push_chunk_represents [OF assms(1)]]
    by (simp add: b2_def)
  have om: "omitted_bytes d = min (length t - m) usize_max"
    using assms(2) by (simp add: represents_def)
  have "length s + min (length t) m - m + (length t - m) = length s + length t - m"
    by auto
  moreover have "omitted_bytes b2 = min (length s + min (length t) m - m) usize_max"
    using b2 represents_retained(3) [OF assms(2)] by (simp add: represents_def)
  ultimately have "saturating_add (omitted_bytes b2) (omitted_bytes d) =
      min (length (s @ t) - m) usize_max"
    by (simp only: om saturating_min(3) length_append)
  then show ?thesis
    using b2 represents_retained(1,2) [OF assms(2), of s]
    by (simp add: represents_def push_buffer_def Let_def b2_def [symmetric])
qed

lemma represents_unique:
  assumes "represents m b s" "represents m d s"
  shows "b = d"
  using assms by (simp add: represents_def)

lemma represents_retained_bytes:
  assumes "represents m b s"
  shows "length (head b) + length (tail b) = min (length s) m"
  using represents_retained(3) [OF assms] by simp

lemma represents_short:
  assumes "represents m b s" "length s \<le> m"
  shows "to_bytes b = s" "omitted_bytes b = 0"
  using assms by (simp_all add: represents_def to_bytes_def last_n_def)

subsection \<open>The contract a collector relies on\<close>

locale byte_sink =
  fixes push :: "byte list \<Rightarrow> 'b \<Rightarrow> 'b"
    and merge :: "'b \<Rightarrow> 'b \<Rightarrow> 'b"
    and take_out :: "'b \<Rightarrow> 'b \<times> 'b"
    and saw :: "'b \<Rightarrow> byte list \<Rightarrow> bool"
  assumes push: "saw b s \<Longrightarrow> saw (push c b) (s @ c)"
    and merge: "saw b s \<Longrightarrow> saw d t \<Longrightarrow> saw (merge d b) (s @ t)"
    and take_out: "saw b s \<Longrightarrow> saw (fst (take_out b)) [] \<and> saw (snd (take_out b)) s"
begin

lemma push_all:
  assumes "saw b s"
  shows "saw (fold push cs b) (s @ concat cs)"
  using assms
proof (induction cs arbitrary: b s)
  case (Cons c cs)
  from Cons.IH [OF push [OF Cons.prems, of c]] show ?case by simp
qed simp

lemma move_over:
  assumes "saw b s" "saw d t"
  shows "saw (merge (snd (take_out b)) d) (t @ s)" "saw (fst (take_out b)) []"
  using merge take_out assms by blast+

end

interpretation htb: byte_sink push_chunk push_buffer drain "represents m" for m
  by unfold_locales
    (simp_all add: push_chunk_represents push_buffer_represents drain_represents)

text \<open>
  C23. Whatever the chunking of the stream, the buffer holds its first \<open>m div 2\<close> bytes
  and the last \<open>m - m div 2\<close> of the rest, never more than \<open>m\<close> bytes, and the
  number of bytes it left out.
\<close>

theorem buffer_keeps_head_and_tail:
  "let b = fold push_chunk cs (new_buffer m); s = concat cs
   in head b = take (m div 2) s \<and>
      tail b = last_n (m - m div 2) (drop (m div 2) s) \<and>
      length (to_bytes b) = min (length s) m \<and>
      omitted_bytes b = min (length s - m) usize_max"
proof -
  have r: "represents m (fold push_chunk cs (new_buffer m)) (concat cs)"
    using htb.push_all [OF represents_new] by simp
  then show ?thesis
    using represents_retained_bytes [OF r] by (simp add: Let_def represents_def to_bytes_def)
qed

text \<open>
  C21. Draining a buffer and merging what was drained into a collector of the same capacity
  is the same as having pushed every byte to the collector directly, also when bytes were
  omitted from the drained buffer.
\<close>

theorem merge_is_direct_push:
  "push_buffer (snd (drain (fold push_chunk later (new_buffer m))))
     (fold push_chunk earlier (new_buffer m)) =
   fold push_chunk (earlier @ later) (new_buffer m)"
proof (rule represents_unique)
  have "represents m (fold push_chunk xs (new_buffer m)) (concat xs)" for xs
    using htb.push_all [OF represents_new] by simp
  then show "represents m (push_buffer (snd (drain (fold push_chunk later (new_buffer m))))
        (fold push_chunk earlier (new_buffer m))) (concat (earlier @ later))"
    using htb.move_over(1) by simp
  show "represents m (fold push_chunk (earlier @ later) (new_buffer m))
      (concat (earlier @ later))"
    using htb.push_all [OF represents_new, where cs = "earlier @ later"] by simp
qed

end
