(* ===== verification/Exec_Process.thy ===== *)
theory Exec_Process
  imports Bytes
begin

section \<open>Processes of the exec server\<close>

text \<open>
  \<^verbatim>\<open>exec-server/src/local_process.rs\<close> and the event log of
  \<^verbatim>\<open>exec-server/src/process.rs\<close>. A running process numbers everything it publishes
  (output, exit, closed) with one counter, keeps a bounded tail of its output for
  \<^verbatim>\<open>process/read\<close>, and accepts every stdin write id once. The handlers run under the
  lock of the process table; each definition is one such critical section. Sequence
  numbers are natural numbers (the source counts in \<^verbatim>\<open>u64\<close>).

  The spawned child is abstract: what was written to its stdin, the signals it was sent,
  and whether it was told to terminate are fields of \<open>exec_session\<close>.
\<close>

definition RETAINED_OUTPUT_BYTES_PER_PROCESS :: nat where
  "RETAINED_OUTPUT_BYTES_PER_PROCESS = 1024 * 1024"
definition RETAINED_OUTPUT_CHUNKS_PER_PROCESS :: nat where
  "RETAINED_OUTPUT_CHUNKS_PER_PROCESS = 50000"
definition PROCESS_EVENT_CHANNEL_CAPACITY :: nat where
  "PROCESS_EVENT_CHANNEL_CAPACITY = 256"
definition RETAINED_STDIN_WRITE_IDS_PER_PROCESS :: nat where
  "RETAINED_STDIN_WRITE_IDS_PER_PROCESS = 4096"

type_synonym process_id = rstring

datatype exec_output_stream = Stdout | Stderr | Pty

record process_output_chunk =
  chunk_seq :: nat
  chunk_stream :: exec_output_stream
  chunk_data :: "byte list"

datatype exec_process_event =
    Output (event_chunk: process_output_chunk)
  | is_Exited: Exited (event_seq: nat) (event_code: int)
  | is_ClosedEvent: ClosedEvent (event_seq: nat)
  | Failed rstring

definition seq_of :: "exec_process_event \<Rightarrow> nat option" where
  "seq_of e =
     (case e of
        Output c \<Rightarrow> Some (chunk_seq c)
      | Exited seq _ \<Rightarrow> Some seq
      | ClosedEvent seq \<Rightarrow> Some seq
      | Failed _ \<Rightarrow> None)"

lemma seq_of_simps [simp]:
  "seq_of (Output c) = Some (chunk_seq c)" "seq_of (Exited s x) = Some s"
  "seq_of (ClosedEvent s) = Some s" "seq_of (Failed m) = None"
  by (simp_all add: seq_of_def)

definition retained_len :: "exec_process_event \<Rightarrow> nat" where
  "retained_len e =
     (case e of
        Output c \<Rightarrow> length (chunk_data c)
      | Failed m \<Rightarrow> utf8_len m
      | _ \<Rightarrow> 0)"

subsection \<open>Bounded histories\<close>

text \<open>
  \<^verbatim>\<open>while bytes > cap || len > cap { pop_front; bytes -= len }\<close>: the eviction loop of
  the event history and of the retained output.
\<close>

fun evict_front :: "('a \<Rightarrow> nat) \<Rightarrow> nat \<Rightarrow> nat \<Rightarrow> 'a list \<Rightarrow> nat \<Rightarrow> 'a list \<times> nat" where
  "evict_front size_of max_len max_bytes [] bytes = ([], bytes)"
| "evict_front size_of max_len max_bytes (x # xs) bytes =
     (if length (x # xs) > max_len \<or> bytes > max_bytes
      then evict_front size_of max_len max_bytes xs (bytes - size_of x)
      else (x # xs, bytes))"

text \<open>
  The event log. \<open>live\<close> is everything sent on the broadcast channel, in order; what a
  subscriber receives of it is up to the channel.
\<close>

record exec_process_event_log =
  history :: "exec_process_event list"
  history_bytes :: nat
  event_capacity :: nat
  byte_capacity :: nat
  live :: "exec_process_event list"

definition new_event_log :: "nat \<Rightarrow> nat \<Rightarrow> exec_process_event_log" where
  "new_event_log events bytes =
     \<lparr>history = [], history_bytes = 0, event_capacity = events, byte_capacity = bytes, live = []\<rparr>"

definition publish :: "exec_process_event \<Rightarrow> exec_process_event_log \<Rightarrow> exec_process_event_log" where
  "publish e log =
     (case evict_front retained_len (event_capacity log) (byte_capacity log)
             (history log @ [e]) (history_bytes log + retained_len e) of
        (h, n) \<Rightarrow> log\<lparr>history := h, history_bytes := n, live := live log @ [e]\<rparr>)"

text \<open>A new subscriber first replays the history, then follows the live channel.\<close>

definition subscribe :: "exec_process_event_log \<Rightarrow> exec_process_event list" where
  "subscribe log = history log"

subsection \<open>Accepted stdin writes\<close>

record accepted_stdin_write_ids =
  ids :: "rstring list"
  order :: "rstring list"

definition no_write_ids :: accepted_stdin_write_ids where
  "no_write_ids = \<lparr>ids = [], order = []\<rparr>"

definition write_id_contains :: "accepted_stdin_write_ids \<Rightarrow> rstring \<Rightarrow> bool" where
  "write_id_contains a w \<longleftrightarrow> w \<in> set (ids a)"

fun forget_oldest :: "nat \<Rightarrow> rstring list \<Rightarrow> rstring list \<Rightarrow> rstring list \<times> rstring list" where
  "forget_oldest cap known [] = (known, [])"
| "forget_oldest cap known (w # ws) =
     (if length (w # ws) > cap then forget_oldest cap (removeAll w known) ws
      else (known, w # ws))"

definition remember :: "rstring \<Rightarrow> accepted_stdin_write_ids \<Rightarrow> accepted_stdin_write_ids" where
  "remember w a =
     (if w \<in> set (ids a) then a
      else case forget_oldest RETAINED_STDIN_WRITE_IDS_PER_PROCESS (w # ids a) (order a @ [w]) of
             (known, ws) \<Rightarrow> \<lparr>ids = known, order = ws\<rparr>)"

subsection \<open>Running processes and the process table\<close>

record exec_session =
  stdin_written :: "byte list list"
  writer_open :: bool
  signalled :: nat
  session_terminated :: bool

record running_process =
  rp_session :: exec_session
  rp_tty :: bool
  rp_pipe_stdin :: bool
  rp_accepted :: accepted_stdin_write_ids
  rp_output :: "process_output_chunk list"
  rp_retained_bytes :: nat
  rp_next_seq :: nat
  rp_exit_code :: "int option"
  rp_wake :: nat
  rp_events :: exec_process_event_log
  rp_open_streams :: nat
  rp_closed :: bool
  rp_termination_requested :: bool

text \<open>A starting process is known by the token its start owns.\<close>

datatype process_entry = Starting nat | Running running_process

type_synonym process_table = "process_id \<Rightarrow> process_entry option"

datatype rpc_error = InvalidParams rstring | InvalidRequest rstring | InternalError rstring

definition new_running_process :: "exec_session \<Rightarrow> bool \<Rightarrow> bool \<Rightarrow> running_process" where
  "new_running_process session tty pipe_stdin =
     \<lparr>rp_session = session, rp_tty = tty, rp_pipe_stdin = pipe_stdin,
      rp_accepted = no_write_ids, rp_output = [], rp_retained_bytes = 0, rp_next_seq = 1,
      rp_exit_code = None, rp_wake = 0,
      rp_events = new_event_log PROCESS_EVENT_CHANNEL_CAPACITY RETAINED_OUTPUT_BYTES_PER_PROCESS,
      rp_open_streams = 2, rp_closed = False, rp_termination_requested = False\<rparr>"

text \<open>
  \<^verbatim>\<open>start_process\<close> holds the table's lock twice: to reserve the id before the spawn,
  and to install the process (or give up) after it. \<open>spawn\<close> is the result of
  \<^verbatim>\<open>codex_utils_pty::spawn_process\<close>.
\<close>

definition reserve_process ::
  "rstring list \<Rightarrow> process_id \<Rightarrow> nat \<Rightarrow> process_table \<Rightarrow>
   process_table \<times> (rpc_error, unit) result" where
  "reserve_process command pid token tab =
     (if command = [] then (tab, Inl (InvalidParams (str ''argv must not be empty'')))
      else case tab pid of
             Some _ \<Rightarrow>
               (tab, Inl (InvalidRequest (str ''process '' @ pid @ str '' already exists'')))
           | None \<Rightarrow> (tab(pid \<mapsto> Starting token), Inr ()))"

definition install_process ::
  "process_id \<Rightarrow> nat \<Rightarrow> bool \<Rightarrow> bool \<Rightarrow> (rstring, exec_session) result \<Rightarrow> process_table \<Rightarrow>
   process_table \<times> (rpc_error, unit) result" where
  "install_process pid token tty pipe_stdin spawn tab =
     (case spawn of
        Inl err \<Rightarrow>
          (if tab pid = Some (Starting token) then tab(pid := None) else tab,
           Inl (InternalError err))
      | Inr session \<Rightarrow>
          (if tab pid \<noteq> Some (Starting token)
           then (tab, Inl (InvalidRequest (str ''process '' @ pid @ str '' start was cancelled'')))
           else (tab(pid \<mapsto> Running (new_running_process session tty pipe_stdin)), Inr ())))"

subsection \<open>Publishing output, exit and closed\<close>

definition push_output :: "exec_output_stream \<Rightarrow> byte list \<Rightarrow> running_process \<Rightarrow> running_process" where
  "push_output stream data p =
     (let seq = rp_next_seq p;
          c = \<lparr>chunk_seq = seq, chunk_stream = stream, chunk_data = data\<rparr>
      in case evict_front (\<lambda>c. length (chunk_data c)) RETAINED_OUTPUT_CHUNKS_PER_PROCESS
                RETAINED_OUTPUT_BYTES_PER_PROCESS
                (rp_output p @ [c]) (rp_retained_bytes p + length data) of
           (out, n) \<Rightarrow>
             p\<lparr>rp_next_seq := seq + 1, rp_output := out, rp_retained_bytes := n, rp_wake := seq,
               rp_events := publish (Output c) (rp_events p)\<rparr>)"

definition record_exit :: "int \<Rightarrow> running_process \<Rightarrow> running_process" where
  "record_exit code p =
     (let seq = rp_next_seq p
      in p\<lparr>rp_next_seq := seq + 1, rp_exit_code := Some code, rp_wake := seq,
           rp_events := publish (Exited seq code) (rp_events p)\<rparr>)"

definition finish_stream :: "running_process \<Rightarrow> running_process" where
  "finish_stream p =
     (if rp_open_streams p > 0 then p\<lparr>rp_open_streams := rp_open_streams p - 1\<rparr> else p)"

definition emit_closed :: "running_process \<Rightarrow> running_process" where
  "emit_closed p =
     (if rp_closed p \<or> rp_open_streams p \<noteq> 0 \<or> rp_exit_code p = None then p
      else let seq = rp_next_seq p
           in p\<lparr>rp_closed := True, rp_next_seq := seq + 1, rp_wake := seq,
                rp_events := publish (ClosedEvent seq) (rp_events p)\<rparr>)"

text \<open>The tasks of a process, on the table; \<open>None\<close> when the task's loop breaks.\<close>

definition on_running ::
  "(running_process \<Rightarrow> running_process) \<Rightarrow> process_id \<Rightarrow> process_table \<Rightarrow> process_table" where
  "on_running f pid tab =
     (case tab pid of Some (Running p) \<Rightarrow> tab(pid \<mapsto> Running (f p)) | _ \<Rightarrow> tab)"

definition stream_output ::
  "process_id \<Rightarrow> exec_output_stream \<Rightarrow> byte list \<Rightarrow> process_table \<Rightarrow> process_table option" where
  "stream_output pid stream data tab =
     (case tab pid of
        Some (Running p) \<Rightarrow> Some (tab(pid \<mapsto> Running (push_output stream data p)))
      | _ \<Rightarrow> None)"

definition watch_exit :: "process_id \<Rightarrow> int option \<Rightarrow> process_table \<Rightarrow> process_table" where
  "watch_exit pid received tab =
     on_running (record_exit (case received of Some c \<Rightarrow> c | None \<Rightarrow> -1)) pid tab"

definition finish_output_stream :: "process_id \<Rightarrow> process_table \<Rightarrow> process_table" where
  "finish_output_stream pid tab = on_running finish_stream pid tab"

definition maybe_emit_closed :: "process_id \<Rightarrow> process_table \<Rightarrow> process_table" where
  "maybe_emit_closed pid tab = on_running emit_closed pid tab"

definition cleanup_closed :: "process_id \<Rightarrow> process_table \<Rightarrow> process_table" where
  "cleanup_closed pid tab =
     (case tab pid of
        Some (Running p) \<Rightarrow> if rp_closed p then tab(pid := None) else tab
      | _ \<Rightarrow> tab)"

subsection \<open>Reading retained output\<close>

record read_params =
  rd_process_id :: process_id
  rd_after_seq :: "nat option"
  rd_max_bytes :: "nat option"

record read_response =
  resp_chunks :: "process_output_chunk list"
  resp_next_seq :: nat
  resp_exited :: bool
  resp_exit_code :: "int option"
  resp_closed :: bool
  resp_failure :: "rstring option"

fun collect_page ::
  "nat \<Rightarrow> process_output_chunk list \<Rightarrow> process_output_chunk list \<Rightarrow> nat \<Rightarrow> nat \<Rightarrow>
   process_output_chunk list \<times> nat" where
  "collect_page max_bytes [] chunks total_bytes next_seq = (chunks, next_seq)"
| "collect_page max_bytes (c # cs) chunks total_bytes next_seq =
     (if chunks \<noteq> [] \<and> total_bytes + length (chunk_data c) > max_bytes then (chunks, next_seq)
      else if total_bytes + length (chunk_data c) \<ge> max_bytes then (chunks @ [c], chunk_seq c + 1)
      else collect_page max_bytes cs (chunks @ [c]) (total_bytes + length (chunk_data c))
             (chunk_seq c + 1))"

definition read_process :: "nat option \<Rightarrow> nat option \<Rightarrow> running_process \<Rightarrow> read_response" where
  "read_process after_seq max_bytes p =
     (let after = (case after_seq of None \<Rightarrow> 0 | Some s \<Rightarrow> s);
          cap = (case max_bytes of None \<Rightarrow> usize_max | Some b \<Rightarrow> b)
      in case collect_page cap (filter (\<lambda>c. chunk_seq c > after) (rp_output p)) [] 0 (rp_next_seq p) of
           (chunks, next) \<Rightarrow>
             \<lparr>resp_chunks = chunks,
              resp_next_seq = (if max_bytes = None then rp_next_seq p else next),
              resp_exited = (rp_exit_code p \<noteq> None), resp_exit_code = rp_exit_code p,
              resp_closed = rp_closed p, resp_failure = None\<rparr>)"

definition read_once :: "read_params \<Rightarrow> process_table \<Rightarrow> (rpc_error, read_response) result" where
  "read_once params tab =
     (case tab (rd_process_id params) of
        None \<Rightarrow> Inl (InvalidRequest (str ''unknown process id '' @ rd_process_id params))
      | Some (Starting _) \<Rightarrow>
          Inl (InvalidRequest (str ''process id '' @ rd_process_id params @ str '' is starting''))
      | Some (Running p) \<Rightarrow> Inr (read_process (rd_after_seq params) (rd_max_bytes params) p))"

definition read_is_ready :: "nat \<Rightarrow> read_response \<Rightarrow> bool" where
  "read_is_ready after_seq r \<longleftrightarrow>
     resp_chunks r \<noteq> [] \<or> resp_closed r \<or> (resp_exited r \<and> after_seq < resp_next_seq r - 1)"

text \<open>
  \<^verbatim>\<open>exec_read\<close>: one attempt per observed state of the table and clock, until there is
  something to report or the deadline has passed; \<open>None\<close> while it still waits.
\<close>

fun exec_read ::
  "read_params \<Rightarrow> nat \<Rightarrow> (process_table \<times> nat) list \<Rightarrow>
   (rpc_error, read_response) result option" where
  "exec_read params deadline [] = None"
| "exec_read params deadline ((tab, now) # later) =
     (case read_once params tab of
        Inl e \<Rightarrow> Some (Inl e)
      | Inr r \<Rightarrow>
          (if read_is_ready (case rd_after_seq params of None \<Rightarrow> 0 | Some s \<Rightarrow> s) r \<or> now \<ge> deadline
           then Some (Inr r) else exec_read params deadline later))"

subsection \<open>Writing to stdin, signals, termination\<close>

datatype write_status = Accepted | UnknownProcess | StdinClosed | StartingStatus

text \<open>
  \<^verbatim>\<open>exec_write\<close> up to the point where it waits for room in the writer's channel, and
  what it does once it has it. Both look the write id up.
\<close>

definition write_begin ::
  "process_id \<Rightarrow> rstring \<Rightarrow> process_table \<Rightarrow> (rpc_error, write_status) result option" where
  "write_begin pid write_id tab =
     (if write_id = [] then Some (Inl (InvalidParams (str ''writeId must not be empty'')))
      else case tab pid of
             None \<Rightarrow> Some (Inr UnknownProcess)
           | Some (Starting _) \<Rightarrow> Some (Inr StartingStatus)
           | Some (Running p) \<Rightarrow>
               (if \<not> rp_tty p \<and> \<not> rp_pipe_stdin p then Some (Inr StdinClosed)
                else if write_id_contains (rp_accepted p) write_id then Some (Inr Accepted)
                else None))"

definition write_commit ::
  "rstring \<Rightarrow> byte list \<Rightarrow> running_process \<Rightarrow>
   running_process \<times> (rpc_error, write_status) result" where
  "write_commit write_id data p =
     (if \<not> writer_open (rp_session p)
      then (p, Inl (InternalError (str ''failed to write to process stdin'')))
      else if write_id_contains (rp_accepted p) write_id then (p, Inr Accepted)
      else (p\<lparr>rp_session := (rp_session p)\<lparr>stdin_written := stdin_written (rp_session p) @ [data]\<rparr>,
              rp_accepted := remember write_id (rp_accepted p)\<rparr>, Inr Accepted))"

definition exec_write ::
  "process_id \<Rightarrow> rstring \<Rightarrow> byte list \<Rightarrow> process_table \<Rightarrow>
   process_table \<times> (rpc_error, write_status) result" where
  "exec_write pid write_id data tab =
     (case write_begin pid write_id tab of
        Some r \<Rightarrow> (tab, r)
      | None \<Rightarrow>
          (case tab pid of
             Some (Running p) \<Rightarrow>
               (case write_commit write_id data p of (p1, r) \<Rightarrow> (tab(pid \<mapsto> Running p1), r))
           | _ \<Rightarrow> (tab, Inr UnknownProcess)))"

text \<open>\<open>signal_result\<close> is the answer of the child's session to the signal.\<close>

definition signal_process ::
  "process_id \<Rightarrow> (rstring, unit) result \<Rightarrow> process_table \<Rightarrow>
   process_table \<times> (rpc_error, unit) result" where
  "signal_process pid signal_result tab =
     (case tab pid of
        Some (Running p) \<Rightarrow>
          (if rp_exit_code p \<noteq> None then (tab, Inr ())
           else case signal_result of
                  Inl err \<Rightarrow> (tab, Inl (InternalError (str ''failed to signal process: '' @ err)))
                | Inr _ \<Rightarrow>
                    (tab(pid \<mapsto> Running (p\<lparr>rp_session :=
                       (rp_session p)\<lparr>signalled := signalled (rp_session p) + 1\<rparr>\<rparr>)), Inr ()))
      | _ \<Rightarrow> (tab, Inr ()))"

definition terminate_process :: "process_id \<Rightarrow> process_table \<Rightarrow> process_table \<times> bool" where
  "terminate_process pid tab =
     (case tab pid of
        Some (Running p) \<Rightarrow>
          (if rp_exit_code p \<noteq> None then (tab, False)
           else (tab(pid \<mapsto> Running (p\<lparr>rp_termination_requested := True,
                   rp_session := (rp_session p)\<lparr>session_terminated := True\<rparr>\<rparr>)), True))
      | Some (Starting _) \<Rightarrow> (tab(pid := None), True)
      | None \<Rightarrow> (tab, False))"

subsection \<open>The numbering of events\<close>

text \<open>
  The steps of one process under its tasks and requests. Two stream tasks are open at the
  start; each pushes output until it finishes, once. \<open>watch_exit\<close> runs once.
\<close>

inductive process_step :: "running_process \<Rightarrow> running_process \<Rightarrow> bool" where
  step_output: "rp_open_streams p > 0 \<Longrightarrow> process_step p (push_output stream data p)"
| step_finish: "rp_open_streams p > 0 \<Longrightarrow> process_step p (finish_stream p)"
| step_exit: "rp_exit_code p = None \<Longrightarrow> process_step p (record_exit code p)"
| step_closed: "process_step p (emit_closed p)"
| step_write: "process_step p (fst (write_commit write_id data p))"
| step_signal: "process_step p (p\<lparr>rp_session := s\<rparr>)"
| step_terminate: "process_step p (p\<lparr>rp_termination_requested := True, rp_session := s\<rparr>)"

inductive process_reachable :: "running_process \<Rightarrow> bool" where
  reach_start: "process_reachable (new_running_process session tty pipe_stdin)"
| reach_step: "process_reachable p \<Longrightarrow> process_step p q \<Longrightarrow> process_reachable q"

inductive_cases process_stepE: "process_step p q"

definition outputs :: "exec_process_event list \<Rightarrow> process_output_chunk list" where
  "outputs es = [c. Output c \<leftarrow> es]"

text \<open>What a process keeps true of everything it has published.\<close>

definition log_ok :: "running_process \<Rightarrow> bool" where
  "log_ok p \<longleftrightarrow>
     (let es = live (rp_events p)
      in map seq_of es = map Some [1..<rp_next_seq p] \<and>
         (\<exists>k. rp_output p = drop k (outputs es)) \<and>
         (\<exists>k. history (rp_events p) = drop k es) \<and>
         (rp_exit_code p = None \<longrightarrow> (\<forall>e \<in> set es. \<not> is_Exited e)) \<and>
         (\<forall>s c. Exited s c \<in> set es \<longrightarrow> rp_exit_code p = Some c) \<and>
         (rp_exit_code p \<noteq> None \<longrightarrow> (\<exists>s c. Exited s c \<in> set es)) \<and>
         (if rp_closed p
          then rp_open_streams p = 0 \<and> rp_exit_code p \<noteq> None \<and> es \<noteq> [] \<and> is_ClosedEvent (last es) \<and>
               (\<forall>e \<in> set (butlast es). \<not> is_ClosedEvent e)
          else \<forall>e \<in> set es. \<not> is_ClosedEvent e))"

end
