(* ===== verification/Output_Task.thy ===== *)
theory Output_Task
  imports Head_Tail_Buffer Exec_Process
begin

section \<open>The output tasks of unified exec\<close>

text \<open>
  \<^verbatim>\<open>core/src/unified_exec/process.rs\<close> and \<^verbatim>\<open>process_state.rs\<close>: the background
  task that follows the events of an exec-server process and copies its output into the
  shared buffer, with recovery through \<^verbatim>\<open>process/read\<close> when events were lost; and the
  task of a locally spawned process. A task is the body of its loop, one call per value
  received; \<open>ot_done\<close> says that the loop has ended.
\<close>

record process_state =
  has_exited :: bool
  exit_code :: "int option"
  failure_message :: "rstring option"

definition default_process_state :: process_state where
  "default_process_state = \<lparr>has_exited = False, exit_code = None, failure_message = None\<rparr>"

definition exited :: "int option \<Rightarrow> process_state \<Rightarrow> process_state" where
  "exited code st = \<lparr>has_exited = True, exit_code = code, failure_message = failure_message st\<rparr>"

definition failed :: "rstring \<Rightarrow> process_state \<Rightarrow> process_state" where
  "failed message st = \<lparr>has_exited = True, exit_code = exit_code st, failure_message = Some message\<rparr>"

record output_task =
  ot_buffer :: head_tail_buffer
  ot_sent :: "byte list list"
  ot_closed :: bool
  ot_cancelled :: bool
  ot_state :: process_state
  ot_last_seq :: nat
  ot_done :: bool

definition new_output_task :: output_task where
  "new_output_task =
     \<lparr>ot_buffer = default_buffer, ot_sent = [], ot_closed = False, ot_cancelled = False,
      ot_state = default_process_state, ot_last_seq = 0, ot_done = False\<rparr>"

datatype 'e received = RecvEvent 'e | RecvLagged | RecvClosed

definition deliver :: "byte list \<Rightarrow> output_task \<Rightarrow> output_task" where
  "deliver bytes t = t\<lparr>ot_buffer := push_chunk bytes (ot_buffer t), ot_sent := ot_sent t @ [bytes]\<rparr>"

definition close_output :: "output_task \<Rightarrow> output_task" where
  "close_output t = t\<lparr>ot_closed := True, ot_cancelled := True, ot_done := True\<rparr>"

definition fail_output :: "rstring \<Rightarrow> output_task \<Rightarrow> output_task" where
  "fail_output message t = close_output (t\<lparr>ot_state := failed message (ot_state t)\<rparr>)"

definition recover ::
  "(rstring, read_response) result \<Rightarrow> output_task \<Rightarrow> output_task" where
  "recover read t =
     (case read of
        Inl err \<Rightarrow> fail_output err t
      | Inr r \<Rightarrow>
          (let new = filter (\<lambda>c. chunk_seq c > ot_last_seq t) (resp_chunks r);
               t1 = fold (\<lambda>c t. deliver (chunk_data c) t) new t;
               t2 = t1\<lparr>ot_last_seq := max (ot_last_seq t1) (resp_next_seq r - 1)\<rparr>
           in case resp_failure r of
                Some message \<Rightarrow> fail_output message t2
              | None \<Rightarrow>
                  (let t3 = (if resp_exited r
                             then t2\<lparr>ot_state := exited (resp_exit_code r) (ot_state t2)\<rparr> else t2)
                   in if resp_closed r then close_output t3 else t3)))"

definition handle_event :: "exec_process_event \<Rightarrow> output_task \<Rightarrow> output_task" where
  "handle_event e t =
     (case e of
        Output c \<Rightarrow>
          (if chunk_seq c \<le> ot_last_seq t then t
           else deliver (chunk_data c) (t\<lparr>ot_last_seq := chunk_seq c\<rparr>))
      | Exited seq code \<Rightarrow>
          (if seq \<le> ot_last_seq t then t
           else t\<lparr>ot_last_seq := seq, ot_state := exited (Some code) (ot_state t)\<rparr>)
      | ClosedEvent seq \<Rightarrow> if seq \<le> ot_last_seq t then t else close_output t
      | Failed message \<Rightarrow> fail_output message t)"

text \<open>
  One round of the exec-server output task. \<open>read\<close> is \<^verbatim>\<open>ExecProcess::read\<close> from
  the last number seen, with no byte limit and no wait.
\<close>

definition exec_server_output_step ::
  "(nat \<Rightarrow> (rstring, read_response) result) \<Rightarrow> exec_process_event received \<Rightarrow> output_task \<Rightarrow>
   output_task" where
  "exec_server_output_step read received t =
     (case received of
        RecvClosed \<Rightarrow> fail_output (str ''exec-server process event stream closed'') t
      | RecvLagged \<Rightarrow> recover (read (ot_last_seq t)) t
      | RecvEvent e \<Rightarrow>
          (case seq_of e of
             Some seq \<Rightarrow>
               if seq > saturating_add (ot_last_seq t) 1 then recover (read (ot_last_seq t)) t
               else handle_event e t
           | None \<Rightarrow> handle_event e t))"

text \<open>One round of the task of a locally spawned process.\<close>

definition local_output_step :: "byte list received \<Rightarrow> output_task \<Rightarrow> output_task" where
  "local_output_step received t =
     (case received of
        RecvEvent chunk \<Rightarrow> deliver chunk t
      | RecvLagged \<Rightarrow> t
      | RecvClosed \<Rightarrow> t\<lparr>ot_closed := True, ot_done := True\<rparr>)"

definition signal_exit :: "int option \<Rightarrow> output_task \<Rightarrow> output_task" where
  "signal_exit code t = t\<lparr>ot_state := exited code (ot_state t), ot_cancelled := True\<rparr>"

subsection \<open>What the tasks deliver\<close>

lemma deliver_sel [simp]:
  "ot_last_seq (deliver b t) = ot_last_seq t" "ot_state (deliver b t) = ot_state t"
  "ot_done (deliver b t) = ot_done t" "ot_closed (deliver b t) = ot_closed t"
  "ot_buffer (deliver b t) = push_chunk b (ot_buffer t)"
  "ot_sent (deliver b t) = ot_sent t @ [b]"
  by (simp_all add: deliver_def)

lemma deliver_all_sel:
  "ot_last_seq (fold (\<lambda>c t. deliver (chunk_data c) t) cs t) = ot_last_seq t"
  "ot_state (fold (\<lambda>c t. deliver (chunk_data c) t) cs t) = ot_state t"
  "ot_done (fold (\<lambda>c t. deliver (chunk_data c) t) cs t) = ot_done t"
  "ot_buffer (fold (\<lambda>c t. deliver (chunk_data c) t) cs t) =
     fold push_chunk (map chunk_data cs) (ot_buffer t)"
  by (induction cs arbitrary: t) simp_all

lemma close_output_sel [simp]:
  "ot_buffer (close_output t) = ot_buffer t" "ot_last_seq (close_output t) = ot_last_seq t"
  "ot_state (close_output t) = ot_state t" "ot_done (close_output t)"
  by (simp_all add: close_output_def)

lemma fail_output_sel [simp]:
  "ot_buffer (fail_output m t) = ot_buffer t" "ot_last_seq (fail_output m t) = ot_last_seq t"
  "ot_state (fail_output m t) = failed m (ot_state t)" "ot_done (fail_output m t)"
  by (simp_all add: fail_output_def)

lemma exited_sel [simp]:
  "exit_code (exited c st) = c" "failure_message (exited c st) = failure_message st"
  by (simp_all add: exited_def)

lemma failed_sel [simp]: "failure_message (failed m st) = Some m"
  by (simp add: failed_def)

end
