(* ===== verification/Exec_Process_Correct.thy ===== *)
theory Exec_Process_Correct
  imports Exec_Process
begin

section \<open>What a process publishes and retains\<close>

text \<open>
  The invariant of a process over all interleavings of its tasks: its events are numbered
  consecutively, its retained output is a tail of what it published, closed comes last and
  only after the exit and both streams. Then the paging of \<^verbatim>\<open>process/read\<close> and the
  idempotence of \<^verbatim>\<open>process/write\<close>.
\<close>

subsection \<open>Eviction\<close>

lemma evict_front_drop: "\<exists>k. fst (evict_front size_of ml mb xs n) = drop k xs"
proof (induction size_of ml mb xs n rule: evict_front.induct)
  case (2 size_of ml mb x xs n)
  show ?case
  proof (cases "length (x # xs) > ml \<or> n > mb")
    case True
    with 2 obtain k where "fst (evict_front size_of ml mb xs (n - size_of x)) = drop k xs" by blast
    with True show ?thesis by (intro exI [of _ "Suc k"]) simp
  qed (auto intro: exI [of _ 0])
qed simp

lemma evict_front_bytes:
  "n = sum_list (map size_of xs) \<Longrightarrow>
   snd (evict_front size_of ml mb xs n) = sum_list (map size_of (fst (evict_front size_of ml mb xs n)))"
  by (induction size_of ml mb xs n rule: evict_front.induct) auto

lemma evict_front_bounds:
  "n = sum_list (map size_of xs) \<Longrightarrow>
   length (fst (evict_front size_of ml mb xs n)) \<le> ml \<and> snd (evict_front size_of ml mb xs n) \<le> mb"
  by (induction size_of ml mb xs n rule: evict_front.induct) auto

lemma evict_front_none: "length xs \<le> ml \<Longrightarrow> n \<le> mb \<Longrightarrow> evict_front size_of ml mb xs n = (xs, n)"
  by (cases xs) auto

lemma live_publish [simp]: "live (publish e log) = live log @ [e]"
  by (simp add: publish_def split: prod.split)

lemma history_publish: "\<exists>k. history (publish e log) = drop k (history log @ [e])"
proof -
  have "history (publish e log) =
      fst (evict_front retained_len (event_capacity log) (byte_capacity log)
        (history log @ [e]) (history_bytes log + retained_len e))"
    by (simp add: publish_def split: prod.split)
  then show ?thesis by (metis evict_front_drop)
qed

lemma drop_snoc_drop: "\<exists>j. drop k (drop i xs @ [x]) = drop j (xs @ [x])"
proof (cases "i \<le> length xs")
  case True
  then have "drop i xs @ [x] = drop i (xs @ [x])" by simp
  then show ?thesis by (metis drop_drop)
next
  case False
  then have "drop k (drop i xs @ [x]) = drop (k + length xs) (xs @ [x])" by simp
  then show ?thesis by blast
qed

lemma outputs_append [simp]: "outputs (xs @ ys) = outputs xs @ outputs ys"
  by (simp add: outputs_def)

lemma outputs_simps [simp]:
  "outputs [] = []" "outputs (Output c # es) = c # outputs es"
  "outputs (Exited s x # es) = outputs es" "outputs (ClosedEvent s # es) = outputs es"
  "outputs (Failed m # es) = outputs es"
  by (simp_all add: outputs_def)

subsection \<open>The invariant\<close>

lemma log_ok_new: "log_ok (new_running_process session tty pipe_stdin)"
  by (auto simp: log_ok_def new_running_process_def new_event_log_def)

lemma log_ok_publish:
  assumes ok: "log_ok p" and q: "rp_next_seq q = Suc (rp_next_seq p)"
    "rp_events q = publish e (rp_events p)" "seq_of e = Some (rp_next_seq p)"
    and pos: "0 < rp_next_seq p"
  shows "map seq_of (live (rp_events q)) = map Some [1..<rp_next_seq q]"
    and "\<exists>k. history (rp_events q) = drop k (live (rp_events q))"
proof -
  show "map seq_of (live (rp_events q)) = map Some [1..<rp_next_seq q]"
    using assms by (simp add: log_ok_def Let_def)
  obtain i where "history (rp_events p) = drop i (live (rp_events p))"
    using ok by (auto simp: log_ok_def Let_def)
  moreover obtain k where "history (rp_events q) = drop k (history (rp_events p) @ [e])"
    using history_publish q(2) by metis
  ultimately show "\<exists>k. history (rp_events q) = drop k (live (rp_events q))"
    using drop_snoc_drop [of k i "live (rp_events p)" e] q(2) by (metis live_publish)
qed

lemma push_output_sel:
  fixes p stream data
  defines "q \<equiv> push_output stream data p"
    and "c \<equiv> \<lparr>chunk_seq = rp_next_seq p, chunk_stream = stream, chunk_data = data\<rparr>"
  shows "rp_next_seq q = Suc (rp_next_seq p)" "rp_events q = publish (Output c) (rp_events p)"
    "rp_exit_code q = rp_exit_code p" "rp_closed q = rp_closed p"
    "rp_open_streams q = rp_open_streams p" "rp_accepted q = rp_accepted p"
    "rp_session q = rp_session p"
    "(rp_output q, rp_retained_bytes q) =
       evict_front (\<lambda>c. length (chunk_data c)) RETAINED_OUTPUT_CHUNKS_PER_PROCESS
         RETAINED_OUTPUT_BYTES_PER_PROCESS (rp_output p @ [c]) (rp_retained_bytes p + length data)"
  unfolding q_def c_def by (simp_all add: push_output_def Let_def split: prod.split)

lemma log_ok_push_output:
  assumes ok: "log_ok p" and "rp_open_streams p > 0" "0 < rp_next_seq p"
  shows "log_ok (push_output stream data p)"
proof -
  let ?q = "push_output stream data p"
  let ?c = "\<lparr>chunk_seq = rp_next_seq p, chunk_stream = stream, chunk_data = data\<rparr>"
  note sel = push_output_sel [of stream data p]
  have nums: "map seq_of (live (rp_events ?q)) = map Some [1..<rp_next_seq ?q]"
    "\<exists>k. history (rp_events ?q) = drop k (live (rp_events ?q))"
    using log_ok_publish [OF ok sel(1,2) _ assms(3)] by (simp_all add: seq_of_def)
  obtain i where "rp_output p = drop i (outputs (live (rp_events p)))"
    using ok by (auto simp: log_ok_def Let_def)
  moreover obtain k where "rp_output ?q = drop k (rp_output p @ [?c])"
    using sel(8) evict_front_drop by (metis fst_conv)
  ultimately have "\<exists>k. rp_output ?q = drop k (outputs (live (rp_events ?q)))"
    using drop_snoc_drop [of k i "outputs (live (rp_events p))" ?c] by (simp add: sel(2))
  with nums ok assms(2) show ?thesis
    by (auto simp: log_ok_def Let_def sel)
qed

lemma log_ok_record_exit:
  assumes ok: "log_ok p" and "rp_exit_code p = None" "0 < rp_next_seq p"
  shows "log_ok (record_exit code p)"
proof -
  let ?q = "record_exit code p"
  have sel: "rp_next_seq ?q = Suc (rp_next_seq p)"
    "rp_events ?q = publish (Exited (rp_next_seq p) code) (rp_events p)"
    by (simp_all add: record_exit_def Let_def)
  have nums: "map seq_of (live (rp_events ?q)) = map Some [1..<rp_next_seq ?q]"
    "\<exists>k. history (rp_events ?q) = drop k (live (rp_events ?q))"
    using log_ok_publish [OF ok sel _ assms(3)] by (simp_all add: seq_of_def)
  with ok assms(2) show ?thesis
    by (auto simp: log_ok_def Let_def record_exit_def)
qed

lemma log_ok_emit_closed:
  assumes ok: "log_ok p" and "0 < rp_next_seq p"
  shows "log_ok (emit_closed p)"
proof (cases "rp_closed p \<or> rp_open_streams p \<noteq> 0 \<or> rp_exit_code p = None")
  case True
  with ok show ?thesis by (simp add: emit_closed_def)
next
  case False
  let ?q = "emit_closed p"
  have sel: "rp_next_seq ?q = Suc (rp_next_seq p)"
    "rp_events ?q = publish (ClosedEvent (rp_next_seq p)) (rp_events p)"
    using False by (auto simp: emit_closed_def Let_def)
  have nums: "map seq_of (live (rp_events ?q)) = map Some [1..<rp_next_seq ?q]"
    "\<exists>k. history (rp_events ?q) = drop k (live (rp_events ?q))"
    using log_ok_publish [OF ok sel _ assms(2)] by (simp_all add: seq_of_def)
  with ok False show ?thesis
    by (auto simp: log_ok_def Let_def emit_closed_def)
qed

lemma log_ok_same:
  assumes "log_ok p" "rp_events q = rp_events p" "rp_next_seq q = rp_next_seq p"
    "rp_output q = rp_output p" "rp_exit_code q = rp_exit_code p" "rp_closed q = rp_closed p"
    "rp_open_streams q = rp_open_streams p"
  shows "log_ok q"
  using assms(1) unfolding log_ok_def assms(2-) .

lemma write_commit_sel:
  "rp_events (fst (write_commit w d p)) = rp_events p"
  "rp_next_seq (fst (write_commit w d p)) = rp_next_seq p"
  "rp_output (fst (write_commit w d p)) = rp_output p"
  "rp_retained_bytes (fst (write_commit w d p)) = rp_retained_bytes p"
  "rp_exit_code (fst (write_commit w d p)) = rp_exit_code p"
  "rp_closed (fst (write_commit w d p)) = rp_closed p"
  "rp_open_streams (fst (write_commit w d p)) = rp_open_streams p"
  by (simp_all add: write_commit_def)

definition retention_ok :: "running_process \<Rightarrow> bool" where
  "retention_ok p \<longleftrightarrow>
     0 < rp_next_seq p \<and>
     rp_retained_bytes p = sum_list (map (\<lambda>c. length (chunk_data c)) (rp_output p)) \<and>
     rp_retained_bytes p \<le> RETAINED_OUTPUT_BYTES_PER_PROCESS \<and>
     length (rp_output p) \<le> RETAINED_OUTPUT_CHUNKS_PER_PROCESS"

lemma retention_push_output:
  assumes "retention_ok p"
  shows "retention_ok (push_output stream data p)"
proof -
  let ?q = "push_output stream data p"
  let ?c = "\<lparr>chunk_seq = rp_next_seq p, chunk_stream = stream, chunk_data = data\<rparr>"
  have n: "rp_retained_bytes p + length data =
      sum_list (map (\<lambda>c. length (chunk_data c)) (rp_output p @ [?c]))"
    using assms by (simp add: retention_ok_def)
  show ?thesis
    using evict_front_bytes [OF n] evict_front_bounds [OF n] push_output_sel [of stream data p]
    unfolding retention_ok_def by (metis fst_conv snd_conv zero_less_Suc)
qed

lemma process_step_ok:
  assumes "process_step p q" "log_ok p" "retention_ok p"
  shows "log_ok q \<and> retention_ok q"
  using assms(1)
proof cases
  case (step_output stream data)
  moreover have "0 < rp_next_seq p" using assms(3) by (simp add: retention_ok_def)
  ultimately show ?thesis
    using assms(2,3) by (simp add: log_ok_push_output retention_push_output)
next
  case step_finish
  moreover have "\<not> rp_closed p" using step_finish assms(2) by (auto simp: log_ok_def Let_def)
  ultimately show ?thesis
    using assms by (auto simp: finish_stream_def log_ok_def retention_ok_def Let_def)
next
  case (step_exit code)
  then show ?thesis
    using assms log_ok_record_exit
    by (auto simp: retention_ok_def record_exit_def Let_def)
next
  case step_closed
  then show ?thesis
    using assms log_ok_emit_closed
    by (auto simp: retention_ok_def emit_closed_def Let_def)
next
  case (step_write write_id data)
  then show ?thesis
    using assms log_ok_same [OF assms(2)] by (simp add: retention_ok_def write_commit_sel)
next
  case (step_signal s)
  then show ?thesis
    using assms log_ok_same [OF assms(2)] by (simp add: retention_ok_def)
next
  case (step_terminate s)
  then show ?thesis
    using assms log_ok_same [OF assms(2)] by (simp add: retention_ok_def)
qed

lemma reachable_ok:
  assumes "process_reachable p"
  shows "log_ok p \<and> retention_ok p"
  using assms
proof induction
  case (reach_start session tty pipe_stdin)
  have "retention_ok (new_running_process session tty pipe_stdin)"
    by (simp add: retention_ok_def new_running_process_def)
  with log_ok_new show ?case by blast
next
  case (reach_step p q)
  then show ?case using process_step_ok by blast
qed

text \<open>
  C16. Whatever the interleaving of its output streams, its exit watcher and its requests, a
  process numbers its events 1, 2, 3, ...; the output it retains is a tail of the output it
  published, at most 1 MiB and 50,000 chunks of it; and it announces that it is closed at
  most once, as its last event, after both streams have ended and the exit is published.
\<close>

theorem process_events_ordered:
  assumes "process_reachable p"
  shows "map seq_of (live (rp_events p)) = map Some [1..<rp_next_seq p] \<and>
    (\<exists>k. rp_output p = drop k (outputs (live (rp_events p)))) \<and>
    sum_list (map (\<lambda>c. length (chunk_data c)) (rp_output p)) \<le> RETAINED_OUTPUT_BYTES_PER_PROCESS \<and>
    length (rp_output p) \<le> RETAINED_OUTPUT_CHUNKS_PER_PROCESS \<and>
    (rp_closed p \<longrightarrow>
       is_ClosedEvent (last (live (rp_events p))) \<and>
       (\<forall>e \<in> set (butlast (live (rp_events p))). \<not> is_ClosedEvent e) \<and>
       (\<exists>s c. Exited s c \<in> set (live (rp_events p)) \<and> rp_exit_code p = Some c)) \<and>
    (\<not> rp_closed p \<longrightarrow> (\<forall>e \<in> set (live (rp_events p)). \<not> is_ClosedEvent e))"
proof -
  have "log_ok p" "retention_ok p" using reachable_ok [OF assms] by auto
  then show ?thesis
    by (auto simp: log_ok_def retention_ok_def Let_def)
qed

text \<open>A process that prints twice, exits and closes.\<close>

definition ex_process :: running_process where
  "ex_process =
     emit_closed (finish_stream (record_exit 0 (push_output Stderr [3]
       (finish_stream (push_output Stdout [1, 2]
         (new_running_process
           \<lparr>stdin_written = [], writer_open = True, signalled = 0, session_terminated = False\<rparr>
           False True))))))"

lemma ex_process_reachable: "process_reachable ex_process"
  unfolding ex_process_def
  by (intro reach_step [OF _ step_closed] reach_step [OF _ step_finish]
      reach_step [OF _ step_exit] reach_step [OF _ step_output] reach_start; code_simp)

theorem process_events_ordered_witness:
  "process_reachable ex_process \<and> rp_closed ex_process \<and> length (live (rp_events ex_process)) = 4 \<and>
   is_ClosedEvent (last (live (rp_events ex_process)))"
proof -
  have "rp_closed ex_process" "length (live (rp_events ex_process)) = 4" by code_simp+
  with process_events_ordered [OF ex_process_reachable] ex_process_reachable show ?thesis by simp
qed

subsection \<open>Paging\<close>

lemma collect_page_spec:
  assumes "collect_page m cs acc n s = (out, s')" "n = sum_list (map (\<lambda>c. length (chunk_data c)) acc)"
    and "n \<le> m \<or> length acc \<le> 1"
  shows "\<exists>new rest. cs = new @ rest \<and> out = acc @ new \<and>
    (new = [] \<and> s' = s \<or> new \<noteq> [] \<and> s' = chunk_seq (last new) + 1) \<and>
    (acc = [] \<and> cs \<noteq> [] \<longrightarrow> new \<noteq> []) \<and>
    (sum_list (map (\<lambda>c. length (chunk_data c)) out) \<le> m \<or> length out \<le> 1)"
  using assms
proof (induction m cs acc n s rule: collect_page.induct)
  case (2 m c cs acc n s)
  show ?case
  proof (cases "acc \<noteq> [] \<and> n + length (chunk_data c) > m")
    case True
    with 2(2-4) show ?thesis by (intro exI [of _ "[]"] exI [of _ "c # cs"]) auto
  next
    case False
    show ?thesis
    proof (cases "n + length (chunk_data c) \<ge> m")
      case stop: True
      with 2(2-4) False show ?thesis by (intro exI [of _ "[c]"] exI [of _ cs]) auto
    next
      case go: False
      have "\<exists>new rest. cs = new @ rest \<and> out = (acc @ [c]) @ new \<and>
          (new = [] \<and> s' = chunk_seq c + 1 \<or> new \<noteq> [] \<and> s' = chunk_seq (last new) + 1) \<and>
          (acc @ [c] = [] \<and> cs \<noteq> [] \<longrightarrow> new \<noteq> []) \<and>
          (sum_list (map (\<lambda>c. length (chunk_data c)) out) \<le> m \<or> length out \<le> 1)"
        using go False 2(2,3) by (intro 2(1)) auto
      then obtain new rest where "cs = new @ rest" "out = (acc @ [c]) @ new"
        "new = [] \<and> s' = chunk_seq c + 1 \<or> new \<noteq> [] \<and> s' = chunk_seq (last new) + 1"
        "sum_list (map (\<lambda>c. length (chunk_data c)) out) \<le> m \<or> length out \<le> 1"
        by blast
      then show ?thesis by (intro exI [of _ "c # new"] exI [of _ rest]) auto
    qed
  qed
qed auto

lemma outputs_seq_sorted:
  assumes "map seq_of es = map Some xs" "sorted_wrt (<) xs"
  shows "sorted_wrt (<) (map chunk_seq (outputs es)) \<and> set (map chunk_seq (outputs es)) \<subseteq> set xs"
  using assms
proof (induction es arbitrary: xs)
  case (Cons e es)
  then obtain x ys where xs: "xs = x # ys" "seq_of e = Some x" "map seq_of es = map Some ys"
    by (cases xs) auto
  with Cons.IH [of ys] Cons.prems(2) show ?case
    by (cases e) auto
qed simp

lemma reachable_output_sorted:
  assumes "process_reachable p"
  shows "sorted_wrt (<) (map chunk_seq (rp_output p))"
proof -
  obtain k where "rp_output p = drop k (outputs (live (rp_events p)))"
    "map seq_of (live (rp_events p)) = map Some [1..<rp_next_seq p]"
    using reachable_ok [OF assms] by (auto simp: log_ok_def Let_def)
  moreover from this(2) have "sorted_wrt (<) (map chunk_seq (outputs (live (rp_events p))))"
    using outputs_seq_sorted sorted_wrt_upt by blast
  ultimately show ?thesis by (simp add: sorted_wrt_drop flip: drop_map)
qed

text \<open>
  C36. Reading with a byte limit pages through the retained output: a page is the next run of
  chunks after the given number, it is not empty when there is anything left, it respects
  the limit unless it is a single chunk, and asking again from its \<open>next_seq - 1\<close> gives
  exactly the rest.
\<close>

theorem read_pages_output:
  assumes "process_reachable p"
  shows "let r = read_process (Some after) (Some m) p;
             left = \<lambda>n. filter (\<lambda>c. chunk_seq c > n) (rp_output p)
         in (left after \<noteq> [] \<longrightarrow> resp_chunks r \<noteq> [] \<and>
               left after = resp_chunks r @ left (resp_next_seq r - 1)) \<and>
            (sum_list (map (\<lambda>c. length (chunk_data c)) (resp_chunks r)) \<le> m \<or>
               length (resp_chunks r) \<le> 1)"
proof -
  define left where "left n = filter (\<lambda>c. chunk_seq c > n) (rp_output p)" for n
  obtain out s where page: "collect_page m (left after) [] 0 (rp_next_seq p) = (out, s)" by force
  have r: "resp_chunks (read_process (Some after) (Some m) p) = out"
    "resp_next_seq (read_process (Some after) (Some m) p) = s"
    using page by (simp_all add: read_process_def left_def)
  have "\<exists>rest. left after = out @ rest \<and>
      (out = [] \<and> s = rp_next_seq p \<or> out \<noteq> [] \<and> s = chunk_seq (last out) + 1) \<and>
      (left after \<noteq> [] \<longrightarrow> out \<noteq> []) \<and>
      (sum_list (map (\<lambda>c. length (chunk_data c)) out) \<le> m \<or> length out \<le> 1)"
    using collect_page_spec [OF page] by simp
  then obtain rest where spec: "left after = out @ rest"
    "out \<noteq> [] \<longrightarrow> s = chunk_seq (last out) + 1" "left after \<noteq> [] \<longrightarrow> out \<noteq> []"
    "sum_list (map (\<lambda>c. length (chunk_data c)) out) \<le> m \<or> length out \<le> 1"
    by blast
  have "left after = out @ left (s - 1)" if ne: "left after \<noteq> []"
  proof -
    obtain ini l where out: "out = ini @ [l]" using spec(3) ne by (metis rev_exhaust)
    have s: "s - 1 = chunk_seq (last out)" using spec(2) by (simp add: out)
    have "sorted_wrt (<) (map chunk_seq (left after))"
      using reachable_output_sorted [OF assms]
      by (simp add: left_def sorted_wrt_map sorted_wrt_filter)
    then have le: "\<forall>c \<in> set out. chunk_seq c \<le> chunk_seq (last out)"
      and gt: "\<forall>c \<in> set rest. chunk_seq (last out) < chunk_seq c"
      by (auto simp: spec(1) out sorted_wrt_append)
    have "last out \<in> set (left after)" using spec(1,3) ne by simp
    then have "after < chunk_seq (last out)" by (simp add: left_def)
    then have "left (s - 1) = filter (\<lambda>c. chunk_seq c > chunk_seq (last out)) (left after)"
      unfolding left_def s by (auto simp: filter_filter intro!: filter_cong)
    also have "\<dots> = rest" using le gt by (auto simp: spec(1) filter_id_conv filter_empty_conv)
    finally show ?thesis by (simp add: spec(1))
  qed
  then show ?thesis
    unfolding Let_def r using spec(3,4) unfolding left_def by blast
qed

theorem read_pages_output_witness:
  "process_reachable ex_process \<and>
   map chunk_seq (resp_chunks (read_process (Some 0) (Some 2) ex_process)) = [1] \<and>
   filter (\<lambda>c. chunk_seq c > 0) (rp_output ex_process) =
     resp_chunks (read_process (Some 0) (Some 2) ex_process) @
     filter (\<lambda>c. chunk_seq c > resp_next_seq (read_process (Some 0) (Some 2) ex_process) - 1)
       (rp_output ex_process)"
proof -
  have "map chunk_seq (resp_chunks (read_process (Some 0) (Some 2) ex_process)) = [1]"
    "filter (\<lambda>c. chunk_seq c > 0) (rp_output ex_process) \<noteq> []"
    by code_simp+
  with read_pages_output [OF ex_process_reachable, of 0 2] ex_process_reachable
  show ?thesis unfolding Let_def by blast
qed

subsection \<open>Stdin writes\<close>

definition write_ids_ok :: "accepted_stdin_write_ids \<Rightarrow> bool" where
  "write_ids_ok a \<longleftrightarrow>
     set (ids a) = set (order a) \<and> distinct (order a) \<and>
     length (order a) \<le> RETAINED_STDIN_WRITE_IDS_PER_PROCESS"

text \<open>
  A full cache forgets exactly the oldest id; the loop in \<^verbatim>\<open>remember\<close> runs at most
  once.
\<close>

lemma remember_fresh:
  assumes "write_ids_ok a" "w \<notin> set (ids a)"
  shows "write_ids_ok (remember w a) \<and>
    order (remember w a) =
      (if length (order a) < RETAINED_STDIN_WRITE_IDS_PER_PROCESS then order a @ [w]
       else tl (order a) @ [w])"
proof (cases "length (order a) < RETAINED_STDIN_WRITE_IDS_PER_PROCESS")
  case True
  then have "forget_oldest RETAINED_STDIN_WRITE_IDS_PER_PROCESS (w # ids a) (order a @ [w]) =
      (w # ids a, order a @ [w])"
    by (cases "order a") auto
  with True assms show ?thesis by (auto simp: remember_def write_ids_ok_def)
next
  case False
  then obtain x xs where o: "order a = x # xs"
    using assms(1)
    by (cases "order a") (auto simp: write_ids_ok_def RETAINED_STDIN_WRITE_IDS_PER_PROCESS_def)
  have len: "length (order a) = RETAINED_STDIN_WRITE_IDS_PER_PROCESS"
    using False assms(1) by (simp add: write_ids_ok_def)
  have "forget_oldest RETAINED_STDIN_WRITE_IDS_PER_PROCESS (removeAll x (w # ids a)) (xs @ [w]) =
      (removeAll x (w # ids a), xs @ [w])"
    using len by (cases xs) (auto simp: o)
  then have "remember w a = \<lparr>ids = removeAll x (w # ids a), order = xs @ [w]\<rparr>"
    using assms(2) len by (simp add: remember_def o)
  moreover have "set (removeAll x (w # ids a)) = set (xs @ [w])"
    using assms o by (auto simp: write_ids_ok_def)
  ultimately show ?thesis using assms len False by (auto simp: write_ids_ok_def o)
qed

lemma write_commit_ids_ok:
  assumes "write_ids_ok (rp_accepted p)"
  shows "write_ids_ok (rp_accepted (fst (write_commit w d p)))"
  using assms remember_fresh by (auto simp: write_commit_def write_id_contains_def)

lemma reachable_ids_ok:
  assumes "process_reachable p"
  shows "write_ids_ok (rp_accepted p)"
  using assms
proof induction
  case (reach_start session tty pipe_stdin)
  then show ?case by (simp add: new_running_process_def no_write_ids_def write_ids_ok_def)
next
  case (reach_step p q)
  from reach_step.hyps(2) reach_step.IH show ?case
    by cases (auto simp: push_output_sel finish_stream_def record_exit_def emit_closed_def Let_def
        write_commit_ids_ok)
qed

text \<open>At most \<open>n\<close> ids have been accepted after \<open>w\<close>.\<close>

definition recent :: "rstring \<Rightarrow> nat \<Rightarrow> running_process \<Rightarrow> bool" where
  "recent w n p \<longleftrightarrow>
     writer_open (rp_session p) \<and> write_ids_ok (rp_accepted p) \<and>
     (\<exists>us vs. order (rp_accepted p) = us @ w # vs \<and> length vs \<le> n)"

lemma recent_write:
  assumes "recent w n p" "n + 1 < RETAINED_STDIN_WRITE_IDS_PER_PROCESS"
  shows "recent w (Suc n) (fst (write_commit x d p))"
proof (cases "write_id_contains (rp_accepted p) x")
  case True
  with assms(1) show ?thesis by (auto simp: recent_def write_commit_def intro: le_SucI)
next
  case False
  let ?a = "rp_accepted p"
  from assms(1) obtain us vs where o: "order ?a = us @ w # vs" "length vs \<le> n"
    "write_ids_ok ?a" "writer_open (rp_session p)" by (auto simp: recent_def)
  have fresh: "x \<notin> set (ids ?a)" using False by (simp add: write_id_contains_def)
  note r = remember_fresh [OF o(3) fresh]
  have "\<exists>us'. order (remember x ?a) = us' @ w # (vs @ [x])"
  proof (cases "length (order ?a) < RETAINED_STDIN_WRITE_IDS_PER_PROCESS")
    case True
    then show ?thesis using r o(1) by auto
  next
    case full: False
    then have "us \<noteq> []" using o(1,2) assms(2) by auto
    then show ?thesis using r o(1) full by (auto simp: neq_Nil_conv)
  qed
  then obtain us' where "order (remember x ?a) = us' @ w # (vs @ [x])" by blast
  moreover have "length (vs @ [x]) \<le> Suc n" using o(2) by simp
  ultimately have "\<exists>us vs. order (remember x ?a) = us @ w # vs \<and> length vs \<le> Suc n" by blast
  moreover have "rp_accepted (fst (write_commit x d p)) = remember x ?a"
    "writer_open (rp_session (fst (write_commit x d p)))"
    using False o(4) by (simp_all add: write_commit_def)
  ultimately show ?thesis using r by (simp add: recent_def)
qed

lemma recent_writes:
  assumes "recent w n p" "n + length ws < RETAINED_STDIN_WRITE_IDS_PER_PROCESS"
  shows "recent w (n + length ws) (fold (\<lambda>(i, x) q. fst (write_commit i x q)) ws p)"
  using assms
proof (induction ws arbitrary: n p)
  case (Cons a ws)
  obtain i x where a: "a = (i, x)" by force
  have "recent w (Suc n) (fst (write_commit i x p))"
    using Cons.prems by (intro recent_write) auto
  from Cons.IH [OF this] Cons.prems(2) show ?case by (simp add: a)
qed simp

text \<open>
  C27. A retried stdin write is acknowledged without writing twice: once a write id has been
  accepted, a second request with the same id leaves the process as it is, as long as fewer
  than 4,096 writes were requested in between.
\<close>

theorem stdin_write_not_repeated:
  assumes "process_reachable p" "writer_open (rp_session p)"
    and "\<not> write_id_contains (rp_accepted p) w"
    and "length later < RETAINED_STDIN_WRITE_IDS_PER_PROCESS"
  shows "let p1 = fst (write_commit w d p);
             p2 = fold (\<lambda>(i, x) q. fst (write_commit i x q)) later p1
         in stdin_written (rp_session p1) = stdin_written (rp_session p) @ [d] \<and>
            write_commit w d2 p2 = (p2, Inr Accepted)"
proof -
  define p1 where "p1 = fst (write_commit w d p)"
  define p2 where "p2 = fold (\<lambda>(i, x) q. fst (write_commit i x q)) later p1"
  have p1: "stdin_written (rp_session p1) = stdin_written (rp_session p) @ [d]"
    "rp_accepted p1 = remember w (rp_accepted p)" "writer_open (rp_session p1)"
    using assms(2,3) by (simp_all add: p1_def write_commit_def)
  have "w \<notin> set (ids (rp_accepted p))" using assms(3) by (simp add: write_id_contains_def)
  note r = remember_fresh [OF reachable_ids_ok [OF assms(1)] this]
  have "\<exists>us. order (rp_accepted p1) = us @ w # []" using r p1(2) by (metis append_Nil)
  then have "recent w 0 p1" using r p1(2,3) unfolding recent_def by fastforce
  from recent_writes [OF this] assms(4) have "recent w (length later) p2" by (simp add: p2_def)
  then have "writer_open (rp_session p2)" "set (ids (rp_accepted p2)) = set (order (rp_accepted p2))"
    "w \<in> set (order (rp_accepted p2))"
    unfolding recent_def write_ids_ok_def by fastforce+
  then have "write_commit w d2 p2 = (p2, Inr Accepted)"
    by (simp add: write_commit_def write_id_contains_def)
  with p1(1) show ?thesis unfolding Let_def p1_def p2_def by blast
qed

theorem stdin_write_not_repeated_witness:
  "let p1 = fst (write_commit (str ''1'') [7] ex_process);
       p2 = fst (write_commit (str ''2'') [8] p1)
   in stdin_written (rp_session p2) = [[7], [8]] \<and>
      write_commit (str ''1'') [7] p2 = (p2, Inr Accepted)"
proof -
  have "writer_open (rp_session ex_process)"
    "\<not> write_id_contains (rp_accepted ex_process) (str ''1'')"
    "stdin_written (rp_session
       (fst (write_commit (str ''2'') [8] (fst (write_commit (str ''1'') [7] ex_process))))) =
     [[7], [8]]"
    by code_simp+
  with stdin_write_not_repeated [OF ex_process_reachable, of "str ''1''" "[(str ''2'', [8])]" "[7]" "[7]"]
  show ?thesis unfolding Let_def fold_simps prod.case
    by (simp only: RETAINED_STDIN_WRITE_IDS_PER_PROCESS_def list.size) simp
qed

end
