(* ===== verification/Output_Pipeline.thy ===== *)
theory Output_Pipeline
  imports Output_Task Exec_Process_Correct
begin

section \<open>From the process to the collector\<close>

text \<open>
  The exec-server process, the event channel, the output task and the collector of
  unified exec together, as a transition system: the server publishes, the channel may lose
  events (a subscriber that lags is told so and continues with a later event), the task
  follows and recovers, the collector drains the shared buffer, and a closed process is
  eventually dropped from the table. \<open>pl_log\<close> is a history variable: everything
  published.
\<close>

record pipeline =
  pl_process :: "running_process option"
  pl_queue :: "exec_process_event list"
  pl_task :: output_task
  pl_collected :: head_tail_buffer
  pl_log :: "exec_process_event list"

text \<open>\<^verbatim>\<open>process.read(Some(last_seq), None, Some(0))\<close>: no limit, no wait.\<close>

definition pl_read :: "pipeline \<Rightarrow> nat \<Rightarrow> (rstring, read_response) result" where
  "pl_read s last_seq =
     (case read_once \<lparr>rd_process_id = [], rd_after_seq = Some last_seq, rd_max_bytes = None\<rparr>
             (\<lambda>_. map_option Running (pl_process s)) of
        Inl (InvalidRequest m) \<Rightarrow> Inl (str ''exec-server rejected request (-32600): '' @ m)
      | Inl (InvalidParams m) \<Rightarrow> Inl (str ''exec-server rejected request (-32602): '' @ m)
      | Inl (InternalError m) \<Rightarrow> Inl (str ''exec-server rejected request (-32603): '' @ m)
      | Inr r \<Rightarrow> Inr r)"

inductive pipeline_step :: "pipeline \<Rightarrow> pipeline \<Rightarrow> bool" where
  server: "pl_process s = Some p \<Longrightarrow> process_step p q \<Longrightarrow>
    pipeline_step s (s\<lparr>pl_process := Some q, pl_log := live (rp_events q),
      pl_queue := pl_queue s @ drop (length (live (rp_events p))) (live (rp_events q))\<rparr>)"
| dropped: "pl_process s = Some p \<Longrightarrow> rp_closed p \<Longrightarrow> pipeline_step s (s\<lparr>pl_process := None\<rparr>)"
| event: "pl_queue s = e # rest \<Longrightarrow> \<not> ot_done (pl_task s) \<Longrightarrow>
    pipeline_step s (s\<lparr>pl_queue := rest,
      pl_task := exec_server_output_step (pl_read s) (RecvEvent e) (pl_task s)\<rparr>)"
| lagged: "pl_queue s = lost @ rest \<Longrightarrow> lost \<noteq> [] \<Longrightarrow> \<not> ot_done (pl_task s) \<Longrightarrow>
    pipeline_step s (s\<lparr>pl_queue := rest,
      pl_task := exec_server_output_step (pl_read s) RecvLagged (pl_task s)\<rparr>)"
| collect: "drain (ot_buffer (pl_task s)) = (left, taken) \<Longrightarrow>
    pipeline_step s (s\<lparr>pl_task := (pl_task s)\<lparr>ot_buffer := left\<rparr>,
      pl_collected := push_buffer taken (pl_collected s)\<rparr>)"

definition pipeline_start :: "running_process \<Rightarrow> pipeline" where
  "pipeline_start p =
     \<lparr>pl_process = Some p, pl_queue = subscribe (rp_events p), pl_task = new_output_task,
      pl_collected = default_buffer, pl_log = live (rp_events p)\<rparr>"

inductive pipeline_reachable :: "pipeline \<Rightarrow> bool" where
  start: "process_reachable p \<Longrightarrow> pipeline_reachable (pipeline_start p)"
| step: "pipeline_reachable s \<Longrightarrow> pipeline_step s t \<Longrightarrow> pipeline_reachable t"

definition output_bytes :: "exec_process_event list \<Rightarrow> byte list" where
  "output_bytes es = concat (map chunk_data (outputs es))"

text \<open>Little enough output that nothing is evicted anywhere.\<close>

definition small :: "exec_process_event list \<Rightarrow> bool" where
  "small es \<longleftrightarrow>
     length es \<le> RETAINED_OUTPUT_CHUNKS_PER_PROCESS \<and>
     length (output_bytes es) \<le> RETAINED_OUTPUT_BYTES_PER_PROCESS"

lemma exec_read_no_wait: "exec_read params now ((tab, now) # later) = Some (read_once params tab)"
  by (simp split: sum.split)

subsection \<open>Numbered logs\<close>

definition numbered :: "exec_process_event list \<Rightarrow> bool" where
  "numbered es \<longleftrightarrow> map seq_of es = map Some [1..<Suc (length es)]"

lemma numbered_append: "numbered (es @ [e]) \<longleftrightarrow> numbered es \<and> seq_of e = Some (Suc (length es))"
  by (simp add: numbered_def)

lemma numbered_nth:
  assumes "numbered es" "k < length es"
  shows "seq_of (es ! k) = Some (Suc k)"
proof -
  have "map seq_of es ! k = map Some [1..<Suc (length es)] ! k"
    using assms(1) by (simp only: numbered_def)
  then show ?thesis using assms(2) by (simp del: upt_Suc)
qed

lemma outputs_after:
  assumes "numbered es"
  shows "filter (\<lambda>c. chunk_seq c > n) (outputs es) = outputs (drop n es)"
  using assms
proof (induction es rule: rev_induct)
  case (snoc e es)
  then have e: "seq_of e = Some (Suc (length es))" "numbered es" by (simp_all add: numbered_append)
  show ?case
  proof (cases "n \<le> length es")
    case True
    with snoc.IH [OF e(2)] e(1) show ?thesis by (cases e) auto
  next
    case False
    with snoc.IH [OF e(2)] e(1) show ?thesis by (cases e) auto
  qed
qed simp

lemma output_bytes_append [simp]: "output_bytes (xs @ ys) = output_bytes xs @ output_bytes ys"
  by (simp add: output_bytes_def)

lemma output_bytes_split: "output_bytes es = output_bytes (take n es) @ output_bytes (drop n es)"
  by (metis append_take_drop_id output_bytes_append)

lemma small_prefix: "small (xs @ ys) \<Longrightarrow> small xs"
  by (simp add: small_def)

subsection \<open>An unlimited read\<close>

lemma collect_page_all:
  "n + sum_list (map (\<lambda>c. length (chunk_data c)) cs) < m \<Longrightarrow>
   fst (collect_page m cs acc n s) = acc @ cs"
  by (induction m cs acc n s rule: collect_page.induct) auto

lemma length_output_bytes:
  "length (output_bytes es) = sum_list (map (\<lambda>c. length (chunk_data c)) (outputs es))"
  by (simp add: output_bytes_def length_concat comp_def)

lemma read_process_all:
  assumes "rp_output p = outputs es" "numbered es" "small es"
  shows "resp_chunks (read_process (Some last_seq) None p) = outputs (drop last_seq es)"
proof -
  have "length (output_bytes (drop last_seq es)) \<le> length (output_bytes es)"
    by (subst output_bytes_split [of es last_seq]) simp
  then have "0 + sum_list (map (\<lambda>c. length (chunk_data c)) (outputs (drop last_seq es))) < usize_max"
    using assms(3)
    by (simp add: small_def usize_max_def RETAINED_OUTPUT_BYTES_PER_PROCESS_def
        flip: length_output_bytes)
  from collect_page_all [OF this, of "[]" "rp_next_seq p"] show ?thesis
    by (simp add: read_process_def assms(1) outputs_after [OF assms(2)] case_prod_beta)
qed

subsection \<open>The server under a small load\<close>

lemma process_step_log:
  assumes "process_step p q"
  shows "\<exists>new. live (rp_events q) = live (rp_events p) @ new"
  using assms
  by cases (auto simp: push_output_sel finish_stream_def record_exit_def emit_closed_def Let_def
      write_commit_sel)

lemma process_step_closed:
  assumes "process_step p q" "process_reachable p" "rp_closed p"
  shows "live (rp_events q) = live (rp_events p)"
proof -
  have "rp_open_streams p = 0" "rp_exit_code p \<noteq> None"
    using reachable_ok [OF assms(2)] assms(3) by (auto simp: log_ok_def Let_def)
  with assms(1,3) show ?thesis
    by cases (auto simp: emit_closed_def write_commit_sel)
qed

lemma length_outputs: "length (outputs es) \<le> length es"
  by (induction es rule: rev_induct) (simp_all add: outputs_def split: exec_process_event.splits)

lemma push_output_small:
  assumes "retention_ok p" "rp_output p = outputs (live (rp_events p))"
    and "small (live (rp_events (push_output stream data p)))"
  shows "rp_output (push_output stream data p) =
    outputs (live (rp_events (push_output stream data p)))"
proof -
  let ?es = "live (rp_events p)"
  let ?c = "\<lparr>chunk_seq = rp_next_seq p, chunk_stream = stream, chunk_data = data\<rparr>"
  note sel = push_output_sel [of stream data p]
  have sm: "small (?es @ [Output ?c])" using assms(3) by (simp add: sel(2))
  have len: "length (rp_output p @ [?c]) \<le> RETAINED_OUTPUT_CHUNKS_PER_PROCESS"
    using sm length_outputs [of ?es] by (simp add: small_def assms(2))
  have "rp_retained_bytes p + length data \<le> RETAINED_OUTPUT_BYTES_PER_PROCESS"
    using sm assms(1,2) by (simp add: small_def retention_ok_def length_output_bytes)
  from evict_front_none [OF len this] sel(8) show ?thesis
    by (simp add: sel(2) assms(2))
qed

lemma reachable_retains_all:
  assumes "process_reachable p" "small (live (rp_events p))"
  shows "rp_output p = outputs (live (rp_events p))"
  using assms
proof induction
  case (reach_start session tty pipe_stdin)
  then show ?case by (simp add: new_running_process_def new_event_log_def)
next
  case (reach_step p q)
  obtain new where "live (rp_events q) = live (rp_events p) @ new"
    using process_step_log [OF reach_step.hyps(2)] by blast
  then have "small (live (rp_events p))" using reach_step.prems small_prefix by metis
  then have p: "rp_output p = outputs (live (rp_events p))" by (rule reach_step.IH)
  have "retention_ok p" using reachable_ok [OF reach_step.hyps(1)] by blast
  from reach_step.hyps(2) show ?case
  proof cases
    case (step_output stream data)
    with push_output_small [OF \<open>retention_ok p\<close> p] reach_step.prems show ?thesis by simp
  qed (use p in \<open>auto simp: finish_stream_def record_exit_def emit_closed_def Let_def
      write_commit_sel\<close>)
qed

definition exit_of :: "exec_process_event list \<Rightarrow> int option" where
  "exit_of es = fold (\<lambda>e acc. case e of Exited _ c \<Rightarrow> Some c | _ \<Rightarrow> acc) es None"

lemma exit_of_snoc:
  "exit_of (es @ [e]) = (case e of Exited _ c \<Rightarrow> Some c | _ \<Rightarrow> exit_of es)"
  by (cases e) (simp_all add: exit_of_def)

lemma exit_of_Some: "exit_of es = Some c \<Longrightarrow> \<exists>s. Exited s c \<in> set es"
proof (induction es rule: rev_induct)
  case (snoc e es)
  then show ?case by (cases e) (auto simp: exit_of_snoc)
qed (simp add: exit_of_def)

lemma exit_of_None: "exit_of es = None \<Longrightarrow> Exited s c \<notin> set es"
proof (induction es rule: rev_induct)
  case (snoc e es)
  then show ?case by (cases e) (auto simp: exit_of_snoc)
qed simp

lemma reachable_exit:
  assumes "process_reachable p"
  shows "rp_exit_code p = exit_of (live (rp_events p))"
proof -
  let ?es = "live (rp_events p)"
  have ok: "rp_exit_code p = None \<longrightarrow> (\<forall>e \<in> set ?es. \<not> is_Exited e)"
    "\<forall>s c. Exited s c \<in> set ?es \<longrightarrow> rp_exit_code p = Some c"
    "rp_exit_code p \<noteq> None \<longrightarrow> (\<exists>s c. Exited s c \<in> set ?es)"
    using reachable_ok [OF assms] by (auto simp: log_ok_def Let_def)
  show ?thesis
  proof (cases "exit_of ?es")
    case None
    with exit_of_None ok(3) show ?thesis by metis
  next
    case (Some c)
    with exit_of_Some ok(2) show ?thesis by metis
  qed
qed

lemma reachable_log:
  assumes "process_reachable p"
  shows "numbered (live (rp_events p))" "rp_next_seq p = Suc (length (live (rp_events p)))"
    "\<exists>k. history (rp_events p) = drop k (live (rp_events p))"
    "\<forall>e \<in> set (butlast (live (rp_events p))). \<not> is_ClosedEvent e"
    "rp_closed p \<longleftrightarrow> live (rp_events p) \<noteq> [] \<and> is_ClosedEvent (last (live (rp_events p)))"
proof -
  have ok: "log_ok p" "0 < rp_next_seq p"
    using reachable_ok [OF assms] by (auto simp: retention_ok_def)
  from ok have "length (map seq_of (live (rp_events p))) = length (map Some [1..<rp_next_seq p])"
    by (simp add: log_ok_def Let_def)
  with ok(2) show n: "rp_next_seq p = Suc (length (live (rp_events p)))" by simp
  show "numbered (live (rp_events p))"
    using ok(1) unfolding numbered_def n [symmetric] by (simp add: log_ok_def Let_def)
  show "\<exists>k. history (rp_events p) = drop k (live (rp_events p))"
    "\<forall>e \<in> set (butlast (live (rp_events p))). \<not> is_ClosedEvent e"
    "rp_closed p \<longleftrightarrow> live (rp_events p) \<noteq> [] \<and> is_ClosedEvent (last (live (rp_events p)))"
    using ok(1) by (auto simp: log_ok_def Let_def dest: in_set_butlastD split: if_splits)
qed

subsection \<open>The invariant of the pipeline\<close>

definition closed_log :: "exec_process_event list \<Rightarrow> bool" where
  "closed_log es \<longleftrightarrow> es \<noteq> [] \<and> is_ClosedEvent (last es)"

text \<open>What holds of the log and the queue, whatever the load.\<close>

definition pl_log_ok :: "pipeline \<Rightarrow> bool" where
  "pl_log_ok s \<longleftrightarrow>
     numbered (pl_log s) \<and>
     (\<exists>k. pl_queue s = drop k (pl_log s)) \<and>
     (\<forall>e \<in> set (butlast (pl_log s)). \<not> is_ClosedEvent e) \<and>
     (case pl_process s of
        Some p \<Rightarrow> process_reachable p \<and> live (rp_events p) = pl_log s
      | None \<Rightarrow> closed_log (pl_log s))"

text \<open>
  The task and the collector hold, between them, the output up to the last number the task
  has seen; a task that has finished without failing has seen everything.
\<close>

definition task_ok :: "exec_process_event list \<Rightarrow> output_task \<Rightarrow> head_tail_buffer \<Rightarrow> bool" where
  "task_ok es t collected \<longleftrightarrow>
     ot_last_seq t \<le> length es \<and>
     (\<exists>a b. represents UNIFIED_EXEC_OUTPUT_MAX_BYTES collected a \<and>
        represents UNIFIED_EXEC_OUTPUT_MAX_BYTES (ot_buffer t) b \<and>
        a @ b = output_bytes (take (ot_last_seq t) es)) \<and>
     (failure_message (ot_state t) = None \<longrightarrow>
        exit_code (ot_state t) = exit_of (take (ot_last_seq t) es)) \<and>
     (ot_done t \<and> failure_message (ot_state t) = None \<longrightarrow>
        closed_log es \<and> length es \<le> Suc (ot_last_seq t))"

lemma represents_pushes:
  assumes "represents m b s"
  shows "represents m (fold push_chunk cs b) (s @ concat cs)"
  using htb.push_all [OF assms] .

lemma task_ok_deliver:
  assumes "represents M collected a" "represents M (ot_buffer t) b"
    and "a @ b = output_bytes (take n es)" "n \<le> k"
  shows "\<exists>a b'. represents M collected a \<and>
    represents M (fold push_chunk (map chunk_data (outputs (take (k - n) (drop n es)))) (ot_buffer t)) b' \<and>
    a @ b' = output_bytes (take k es)"
proof -
  let ?new = "take (k - n) (drop n es)"
  have "take k es = take n es @ ?new" using assms(4) by (metis le_add_diff_inverse take_add)
  then have "output_bytes (take k es) = output_bytes (take n es) @ output_bytes ?new" by simp
  with assms(3) have "a @ (b @ concat (map chunk_data (outputs ?new))) = output_bytes (take k es)"
    by (simp add: output_bytes_def)
  with represents_pushes [OF assms(2)] assms(1) show ?thesis by blast
qed

lemma exit_of_upto:
  assumes "exit_of es = None"
  shows "exit_of (take n es) = None"
proof (cases "exit_of (take n es)")
  case (Some c)
  then obtain s where "Exited s c \<in> set (take n es)" using exit_of_Some by blast
  with exit_of_None [OF assms] show ?thesis by (metis in_set_takeD)
qed

lemma recover_ok:
  assumes sm: "small (pl_log s)" and ok: "pl_log_ok s"
    and t: "task_ok (pl_log s) (pl_task s) (pl_collected s)"
  shows "task_ok (pl_log s) (recover (pl_read s (ot_last_seq (pl_task s))) (pl_task s)) (pl_collected s)"
proof (cases "pl_process s")
  case None
  then show ?thesis
    using t by (auto simp: pl_read_def read_once_def recover_def task_ok_def)
next
  case (Some p)
  let ?t = "pl_task s" and ?es = "pl_log s"
  let ?n = "ot_last_seq ?t"
  let ?r = "read_process (Some ?n) None p"
  have p: "process_reachable p" "live (rp_events p) = ?es" and num: "numbered ?es"
    using ok Some by (auto simp: pl_log_ok_def)
  have r: "pl_read s ?n = Inr ?r" using Some by (simp add: pl_read_def read_once_def)
  have "rp_output p = outputs ?es" using reachable_retains_all [OF p(1)] sm p(2) by simp
  then have chunks: "resp_chunks ?r = outputs (drop ?n ?es)"
    by (intro read_process_all num sm)
  have sel: "resp_next_seq ?r = Suc (length ?es)" "resp_failure ?r = None"
    "resp_exited ?r \<longleftrightarrow> exit_of ?es \<noteq> None" "resp_exit_code ?r = exit_of ?es"
    "resp_closed ?r \<longleftrightarrow> closed_log ?es"
    using reachable_log(2,5) [OF p(1)] reachable_exit [OF p(1)] p(2)
    by (simp_all add: read_process_def closed_log_def split: prod.split)
  have "filter (\<lambda>c. ?n < chunk_seq c) (outputs (drop ?n ?es)) = outputs (drop ?n ?es)"
    unfolding outputs_after [OF num, symmetric] by simp
  note new = this
  have le: "?n \<le> length ?es" using t by (simp add: task_ok_def)
  define t1 where "t1 = fold (\<lambda>c t. deliver (chunk_data c) t) (outputs (drop ?n ?es)) ?t"
  define t2 where "t2 = t1\<lparr>ot_last_seq := length ?es\<rparr>"
  define t3 where "t3 = (if exit_of ?es \<noteq> None then t2\<lparr>ot_state := exited (exit_of ?es) (ot_state t2)\<rparr>
    else t2)"
  have rec: "recover (pl_read s ?n) ?t = (if closed_log ?es then close_output t3 else t3)"
    using le by (simp add: recover_def r chunks sel new t1_def [symmetric] Let_def t2_def t3_def
        deliver_all_sel(1) [of "outputs (drop ?n ?es)" ?t, folded t1_def])
  have t1: "ot_state t1 = ot_state ?t" "ot_done t1 = ot_done ?t"
    "ot_buffer t1 = fold push_chunk (map chunk_data (outputs (drop ?n ?es))) (ot_buffer ?t)"
    by (simp_all add: t1_def deliver_all_sel)
  obtain a b where "represents UNIFIED_EXEC_OUTPUT_MAX_BYTES (pl_collected s) a"
    "represents UNIFIED_EXEC_OUTPUT_MAX_BYTES (ot_buffer ?t) b"
    "a @ b = output_bytes (take ?n ?es)"
    using t by (auto simp: task_ok_def)
  from task_ok_deliver [OF this le] have buf:
    "\<exists>a b. represents UNIFIED_EXEC_OUTPUT_MAX_BYTES (pl_collected s) a \<and>
       represents UNIFIED_EXEC_OUTPUT_MAX_BYTES (ot_buffer t1) b \<and> a @ b = output_bytes ?es"
    by (simp add: t1)
  have t3: "ot_last_seq t3 = length ?es" "ot_buffer t3 = ot_buffer t1" "ot_done t3 = ot_done ?t"
    "failure_message (ot_state t3) = failure_message (ot_state ?t)"
    by (simp_all add: t3_def t2_def t1)
  have "failure_message (ot_state ?t) = None \<longrightarrow> exit_code (ot_state t3) = exit_of ?es"
    using t exit_of_upto [of ?es ?n]
    by (auto simp: t3_def t2_def t1 task_ok_def)
  with buf t t3 show ?thesis
    unfolding rec by (auto simp: task_ok_def)
qed

lemma handle_next_ok:
  assumes t: "task_ok es t collected" and k: "ot_last_seq t < length es"
    and e: "e = es ! ot_last_seq t" "seq_of e = Some (Suc (ot_last_seq t))"
    and closed: "\<forall>e \<in> set (butlast es). \<not> is_ClosedEvent e" and "\<not> ot_done t"
  shows "task_ok es (handle_event e t) collected"
proof -
  let ?n = "ot_last_seq t"
  have take: "take (Suc ?n) es = take ?n es @ [e]" using k e(1) by (simp add: take_Suc_conv_app_nth)
  obtain a b where ab: "represents UNIFIED_EXEC_OUTPUT_MAX_BYTES collected a"
    "represents UNIFIED_EXEC_OUTPUT_MAX_BYTES (ot_buffer t) b" "a @ b = output_bytes (take ?n es)"
    using t by (auto simp: task_ok_def)
  have code: "failure_message (ot_state t) = None \<longrightarrow> exit_code (ot_state t) = exit_of (take ?n es)"
    using t by (simp add: task_ok_def)
  show ?thesis
  proof (cases e)
    case (Output c)
    have "represents UNIFIED_EXEC_OUTPUT_MAX_BYTES (push_chunk (chunk_data c) (ot_buffer t))
        (b @ chunk_data c)"
      by (rule push_chunk_represents [OF ab(2)])
    moreover have "a @ b @ chunk_data c = output_bytes (take (Suc ?n) es)"
      using ab(3) by (simp add: take Output) (simp add: output_bytes_def)
    moreover have "handle_event e t = deliver (chunk_data c) (t\<lparr>ot_last_seq := Suc ?n\<rparr>)"
      using e(2) by (simp add: handle_event_def Output)
    ultimately show ?thesis
      using k code ab(1) assms(6) by (auto simp: task_ok_def take exit_of_snoc Output)
  next
    case (Exited s c)
    then have "handle_event e t = t\<lparr>ot_last_seq := Suc ?n, ot_state := exited (Some c) (ot_state t)\<rparr>"
      using e(2) by (simp add: handle_event_def)
    moreover have "output_bytes (take (Suc ?n) es) = output_bytes (take ?n es)"
      by (simp add: take Exited) (simp add: output_bytes_def)
    ultimately show ?thesis
      using k code ab assms(6) by (auto simp: task_ok_def take exit_of_snoc Exited)
  next
    case (ClosedEvent s)
    have "Suc ?n = length es"
    proof (rule ccontr)
      assume "Suc ?n \<noteq> length es"
      then have "?n < length (butlast es)" using k by simp
      then have "e \<in> set (butlast es)" using e(1) by (metis nth_butlast nth_mem)
      with closed ClosedEvent show False by auto
    qed
    moreover from this have "last es = e"
      using e(1) k by (metis diff_Suc_1 last_conv_nth list.size(3) not_less0)
    ultimately have "closed_log es" using ClosedEvent k by (auto simp: closed_log_def)
    moreover have "handle_event e t = close_output t"
      using e(2) by (simp add: handle_event_def ClosedEvent)
    ultimately show ?thesis
      using k code ab \<open>Suc ?n = length es\<close> by (auto simp: task_ok_def)
  next
    case (Failed m)
    with e(2) show ?thesis by simp
  qed
qed

lemma event_ok:
  assumes sm: "small (pl_log s)" and ok: "pl_log_ok s"
    and t: "task_ok (pl_log s) (pl_task s) (pl_collected s)"
    and q: "pl_queue s = e # rest" "\<not> ot_done (pl_task s)"
  shows "task_ok (pl_log s) (exec_server_output_step (pl_read s) (RecvEvent e) (pl_task s))
    (pl_collected s)"
proof -
  let ?n = "ot_last_seq (pl_task s)" and ?es = "pl_log s"
  obtain k where k: "e # rest = drop k ?es" using ok q(1) by (auto simp: pl_log_ok_def)
  then have kl: "k < length ?es" by (metis drop_all leI list.simps(3))
  then have e: "e = ?es ! k" using k by (metis Cons_nth_drop_Suc list.inject)
  have seq: "seq_of e = Some (Suc k)"
    using ok kl numbered_nth by (auto simp: pl_log_ok_def e)
  have le: "?n \<le> length ?es" using t by (simp add: task_ok_def)
  have sat: "saturating_add ?n (Suc 0) = Suc ?n"
    using sm le
    by (simp add: saturating_add_def small_def usize_max_def RETAINED_OUTPUT_CHUNKS_PER_PROCESS_def)
  consider "?n < k" | "k = ?n" | "k < ?n" by linarith
  then show ?thesis
  proof cases
    case 1
    then show ?thesis using recover_ok [OF sm ok t]
      by (simp add: exec_server_output_step_def seq sat)
  next
    case 2
    then have "task_ok ?es (handle_event e (pl_task s)) (pl_collected s)"
      using kl e seq ok q(2) by (intro handle_next_ok [OF t]) (auto simp: pl_log_ok_def)
    then show ?thesis using 2 by (simp add: exec_server_output_step_def seq sat)
  next
    case 3
    then have "handle_event e (pl_task s) = pl_task s"
      using seq by (cases e) (auto simp: handle_event_def)
    then show ?thesis using 3 t by (simp add: exec_server_output_step_def seq sat)
  qed
qed

lemma pipeline_log_ok:
  assumes "pipeline_step s u" "pl_log_ok s"
  shows "pl_log_ok u \<and> (\<exists>new. pl_log u = pl_log s @ new) \<and>
    (closed_log (pl_log s) \<longrightarrow> pl_log u = pl_log s)"
  using assms(1)
proof cases
  case (server p q)
  have p: "process_reachable p" "live (rp_events p) = pl_log s"
    using assms(2) server by (auto simp: pl_log_ok_def)
  have q: "process_reachable q" by (rule reach_step [OF p(1) server(3)])
  obtain new where new: "live (rp_events q) = pl_log s @ new"
    using process_step_log [OF server(3)] p(2) by auto
  obtain k where k: "pl_queue s = drop k (pl_log s)" using assms(2) by (auto simp: pl_log_ok_def)
  have "\<exists>j. drop k (pl_log s) @ new = drop j (pl_log s @ new)"
  proof (cases "k \<le> length (pl_log s)")
    case False
    then have "drop k (pl_log s) @ new = drop (length (pl_log s)) (pl_log s @ new)" by simp
    then show ?thesis by blast
  qed (rule exI [of _ k], simp)
  then have "pl_log_ok u"
    using server q new p(2) k reachable_log [OF q] by (simp add: pl_log_ok_def)
  moreover have "closed_log (pl_log s) \<longrightarrow> live (rp_events q) = pl_log s"
    using process_step_closed [OF server(3) p(1)] reachable_log(5) [OF p(1)] p(2)
    by (simp add: closed_log_def)
  ultimately show ?thesis using server new by auto
next
  case (dropped p)
  then have "closed_log (pl_log s)"
    using assms(2) reachable_log(5) by (auto simp: pl_log_ok_def closed_log_def)
  with dropped assms(2) show ?thesis by (auto simp: pl_log_ok_def)
next
  case (event e rest)
  then have "\<exists>k. rest = drop k (pl_log s)"
    using assms(2) by (metis drop_Suc list.sel(3) pl_log_ok_def tl_drop)
  with event assms(2) show ?thesis by (auto simp: pl_log_ok_def split: option.splits)
next
  case (lagged lost rest)
  then have "\<exists>k. rest = drop k (pl_log s)"
    using assms(2) by (metis append_eq_conv_conj drop_drop pl_log_ok_def)
  with lagged assms(2) show ?thesis by (auto simp: pl_log_ok_def split: option.splits)
next
  case (collect left taken)
  with assms(2) show ?thesis by (auto simp: pl_log_ok_def split: option.splits)
qed

lemma task_ok_extend:
  assumes "task_ok es t collected" "closed_log es \<longrightarrow> new = []"
  shows "task_ok (es @ new) t collected"
proof -
  have "take (ot_last_seq t) (es @ new) = take (ot_last_seq t) es"
    using assms(1) by (simp add: task_ok_def)
  with assms show ?thesis by (auto simp: task_ok_def)
qed

lemma pipeline_task_ok:
  assumes step: "pipeline_step s u" and ok: "pl_log_ok s" and sm: "small (pl_log s)"
    and t: "task_ok (pl_log s) (pl_task s) (pl_collected s)"
  shows "task_ok (pl_log u) (pl_task u) (pl_collected u)"
  using step
proof cases
  case (server p q)
  obtain new where "pl_log u = pl_log s @ new" "closed_log (pl_log s) \<longrightarrow> new = []"
    using pipeline_log_ok [OF step ok] by auto
  with task_ok_extend [OF t] server show ?thesis by auto
next
  case (dropped p)
  with t show ?thesis by simp
next
  case (event e rest)
  with event_ok [OF sm ok t] show ?thesis by simp
next
  case (lagged lost rest)
  with recover_ok [OF sm ok t] show ?thesis by (simp add: exec_server_output_step_def)
next
  case (collect left taken)
  let ?M = UNIFIED_EXEC_OUTPUT_MAX_BYTES
  obtain a b where ab: "represents ?M (pl_collected s) a" "represents ?M (ot_buffer (pl_task s)) b"
    "a @ b = output_bytes (take (ot_last_seq (pl_task s)) (pl_log s))"
    using t by (auto simp: task_ok_def)
  have "represents ?M (push_buffer taken (pl_collected s)) (a @ b)" "represents ?M left []"
    using htb.move_over [OF ab(2,1)] collect(2) by simp_all
  with ab(3) t collect show ?thesis by (fastforce simp: task_ok_def)
qed

lemma reachable_pipeline_ok:
  assumes "pipeline_reachable s"
  shows "pl_log_ok s \<and> (small (pl_log s) \<longrightarrow> task_ok (pl_log s) (pl_task s) (pl_collected s))"
  using assms
proof induction
  case (start p)
  have "pl_log_ok (pipeline_start p)"
    using start reachable_log [OF start]
    by (simp add: pl_log_ok_def pipeline_start_def subscribe_def)
  moreover have "task_ok (live (rp_events p)) new_output_task default_buffer"
    using represents_new
    by (simp add: task_ok_def new_output_task_def default_buffer_def default_process_state_def
        output_bytes_def exit_of_def)
  ultimately show ?case by (simp add: pipeline_start_def)
next
  case (step s u)
  from step pipeline_log_ok [OF step.hyps(2)] obtain new where
    "pl_log_ok u" "pl_log u = pl_log s @ new" by blast
  with step pipeline_task_ok [OF step.hyps(2)] small_prefix show ?case by metis
qed

text \<open>
  C3. Lost events do not lose output: in every run of the pipeline in which the process
  publishes at most 1 MiB and 50,000 events, the collector and the shared buffer together
  hold exactly the output up to the last event the task has seen, each byte once and in
  order; and when the task has finished without a failure, all of the output of the
  process, and its exit code.
\<close>

theorem pipeline_delivers_output:
  assumes "pipeline_reachable s" "small (pl_log s)"
  shows "to_bytes (pl_collected s) @ to_bytes (ot_buffer (pl_task s)) =
           output_bytes (take (ot_last_seq (pl_task s)) (pl_log s)) \<and>
         (ot_done (pl_task s) \<and> failure_message (ot_state (pl_task s)) = None \<longrightarrow>
           to_bytes (pl_collected s) @ to_bytes (ot_buffer (pl_task s)) = output_bytes (pl_log s) \<and>
           exit_code (ot_state (pl_task s)) = exit_of (pl_log s) \<and> closed_log (pl_log s))"
proof -
  let ?t = "pl_task s" and ?es = "pl_log s"
  have t: "task_ok ?es ?t (pl_collected s)" using reachable_pipeline_ok assms by blast
  obtain a b where ab: "represents UNIFIED_EXEC_OUTPUT_MAX_BYTES (pl_collected s) a"
    "represents UNIFIED_EXEC_OUTPUT_MAX_BYTES (ot_buffer ?t) b"
    "a @ b = output_bytes (take (ot_last_seq ?t) ?es)"
    using t by (auto simp: task_ok_def)
  have "length (a @ b) \<le> length (output_bytes ?es)"
    unfolding ab(3) by (metis le_add1 length_append output_bytes_split)
  also have "\<dots> \<le> UNIFIED_EXEC_OUTPUT_MAX_BYTES"
    using assms(2)
    by (simp add: small_def RETAINED_OUTPUT_BYTES_PER_PROCESS_def UNIFIED_EXEC_OUTPUT_MAX_BYTES_def)
  finally have "to_bytes (pl_collected s) = a" "to_bytes (ot_buffer ?t) = b"
    using represents_short [OF ab(1)] represents_short [OF ab(2)] by simp_all
  then have bytes: "to_bytes (pl_collected s) @ to_bytes (ot_buffer ?t) =
      output_bytes (take (ot_last_seq ?t) ?es)"
    using ab(3) by simp
  show ?thesis
  proof (cases "ot_done ?t \<and> failure_message (ot_state ?t) = None")
    case True
    then have cl: "closed_log ?es" "length ?es \<le> Suc (ot_last_seq ?t)"
      "exit_code (ot_state ?t) = exit_of (take (ot_last_seq ?t) ?es)"
      using t by (auto simp: task_ok_def)
    obtain es s0 where es: "?es = es @ [ClosedEvent s0]"
      using cl(1) by (metis append_butlast_last_id closed_log_def is_ClosedEvent_def)
    then have "take (ot_last_seq ?t) ?es = es \<or> take (ot_last_seq ?t) ?es = ?es"
      using cl(2) by (cases "ot_last_seq ?t - length es") auto
    moreover have "output_bytes es = output_bytes ?es" "exit_of es = exit_of ?es"
      by (simp_all add: es exit_of_snoc) (simp add: output_bytes_def)
    ultimately have "output_bytes (take (ot_last_seq ?t) ?es) = output_bytes ?es"
      "exit_of (take (ot_last_seq ?t) ?es) = exit_of ?es"
      by auto
    with bytes cl show ?thesis by simp
  next
    case False
    with bytes show ?thesis by blast
  qed
qed

text \<open>The process of \<open>ex_process\<close>, whose first event the task never receives.\<close>

definition ex_lagged :: pipeline where
  "ex_lagged =
     (let s = pipeline_start ex_process
      in s\<lparr>pl_queue := tl (pl_queue s),
           pl_task := exec_server_output_step (pl_read s) RecvLagged (pl_task s)\<rparr>)"

definition ex_collected :: pipeline where
  "ex_collected =
     ex_lagged\<lparr>pl_task := (pl_task ex_lagged)\<lparr>ot_buffer := fst (drain (ot_buffer (pl_task ex_lagged)))\<rparr>,
       pl_collected := push_buffer (snd (drain (ot_buffer (pl_task ex_lagged)))) (pl_collected ex_lagged)\<rparr>"

lemma ex_collected_reachable: "pipeline_reachable ex_collected"
proof -
  let ?s = "pipeline_start ex_process"
  have "pl_queue ?s \<noteq> []" "\<not> ot_done (pl_task ?s)" by code_simp+
  then have "pipeline_step ?s ex_lagged"
    unfolding ex_lagged_def Let_def
    by (intro lagged [where lost = "[hd (pl_queue ?s)]"]) auto
  then have "pipeline_reachable ex_lagged"
    using pipeline_reachable.step [OF pipeline_reachable.start [OF ex_process_reachable]] by blast
  moreover have "pipeline_step ex_lagged ex_collected"
    unfolding ex_collected_def by (rule collect) simp
  ultimately show ?thesis by (rule pipeline_reachable.step)
qed

theorem pipeline_delivers_output_witness:
  "pipeline_reachable ex_collected \<and> ot_done (pl_task ex_collected) \<and>
   to_bytes (pl_collected ex_collected) @ to_bytes (ot_buffer (pl_task ex_collected)) = [1, 2, 3] \<and>
   exit_code (ot_state (pl_task ex_collected)) = Some 0"
proof -
  have "ot_done (pl_task ex_collected)" "failure_message (ot_state (pl_task ex_collected)) = None"
    "small (pl_log ex_collected)" "output_bytes (pl_log ex_collected) = [1, 2, 3]"
    "exit_of (pl_log ex_collected) = Some 0"
    by code_simp+
  with pipeline_delivers_output [OF ex_collected_reachable] ex_collected_reachable
  show ?thesis by metis
qed

end
