(* ===== verification/Output_Collector.thy ===== *)
theory Output_Collector
  imports Head_Tail_Buffer
begin

section \<open>Collecting output until a deadline\<close>

text \<open>
  \<^verbatim>\<open>collect_output_until_deadline\<close> and its helpers from
  \<^verbatim>\<open>core/src/unified_exec/process_manager.rs\<close>, with the constants and small functions
  of \<^verbatim>\<open>core/src/unified_exec/mod.rs\<close>. The loop runs against its environment: an
  \<open>observation\<close> is what one round sees of it (how long it was paused, the shared
  buffer, the flags, the clock, which branch of the \<^verbatim>\<open>select!\<close> it was woken by). Times
  are milliseconds.
\<close>

definition MIN_YIELD_TIME_MS :: nat where "MIN_YIELD_TIME_MS = 250"
definition MIN_EMPTY_YIELD_TIME_MS :: nat where "MIN_EMPTY_YIELD_TIME_MS = 5000"
definition MAX_YIELD_TIME_MS :: nat where "MAX_YIELD_TIME_MS = 30000"
definition DEFAULT_MAX_OUTPUT_TOKENS :: nat where "DEFAULT_MAX_OUTPUT_TOKENS = 10000"
definition POST_EXIT_CLOSE_WAIT_CAP :: nat where "POST_EXIT_CLOSE_WAIT_CAP = 50"

definition clamp_yield_time :: "nat \<Rightarrow> nat" where
  "clamp_yield_time ms = max MIN_YIELD_TIME_MS (min ms MAX_YIELD_TIME_MS)"

definition resolve_max_tokens :: "nat option \<Rightarrow> nat" where
  "resolve_max_tokens m = (case m of Some n \<Rightarrow> n | None \<Rightarrow> DEFAULT_MAX_OUTPUT_TOKENS)"

datatype wakeup = OutputNotified | CloseNotified | ExitNotified | TimedOut | PauseChanged

record observation =
  obs_paused_for :: nat
  obs_buffer :: head_tail_buffer
  obs_cancelled :: bool
  obs_closed :: bool
  obs_now :: nat
  obs_now_later :: nat
  obs_wakeup :: wakeup

record collector =
  collected :: head_tail_buffer
  exit_signal_received :: bool
  deadline :: nat
  post_exit_deadline :: "nat option"

definition extend_deadlines_while_paused :: "nat \<Rightarrow> collector \<Rightarrow> collector" where
  "extend_deadlines_while_paused paused_for c =
     c\<lparr>deadline := deadline c + paused_for,
       post_exit_deadline := map_option (\<lambda>d. d + paused_for) (post_exit_deadline c)\<rparr>"

text \<open>
  One round: the collector afterwards and whether the loop ends. A round that finds output
  takes it and checks the deadline; one that finds none decides whether to wait. The waits
  of the \<^verbatim>\<open>select!\<close> are what \<open>obs_wakeup\<close> reports.
\<close>

definition collect_round :: "observation \<Rightarrow> collector \<Rightarrow> collector \<times> bool" where
  "collect_round ob c0 =
     (let c = extend_deadlines_while_paused (obs_paused_for ob) c0;
          drained = snd (drain (obs_buffer ob));
          has_drained_output = (retained_bytes drained > 0 \<or> omitted_bytes drained > 0)
      in if has_drained_output then
           (c\<lparr>collected := push_buffer drained (collected c),
              exit_signal_received := exit_signal_received c \<or> obs_cancelled ob\<rparr>,
            obs_now ob \<ge> deadline c)
         else
           (let c1 = c\<lparr>exit_signal_received := exit_signal_received c \<or> obs_cancelled ob\<rparr>;
                remaining = deadline c1 - obs_now ob
            in if exit_signal_received c1 \<and> obs_closed ob then (c1, True)
               else if remaining = 0 then (c1, True)
               else if exit_signal_received c1 then
                 (let close_wait_deadline =
                        (case post_exit_deadline c1 of
                           Some d \<Rightarrow> d
                         | None \<Rightarrow> obs_now_later ob + min remaining POST_EXIT_CLOSE_WAIT_CAP);
                      c2 = c1\<lparr>post_exit_deadline := Some close_wait_deadline\<rparr>
                  in if close_wait_deadline - obs_now_later ob = 0 then (c2, True)
                     else (c2, obs_wakeup ob = TimedOut))
               else (case obs_wakeup ob of
                       TimedOut \<Rightarrow> (c1, True)
                     | ExitNotified \<Rightarrow> (c1\<lparr>exit_signal_received := True\<rparr>, False)
                     | _ \<Rightarrow> (c1, False))))"

text \<open>The loop over the rounds of its environment; \<open>None\<close> while it is still running.\<close>

fun collect_loop :: "observation list \<Rightarrow> collector \<Rightarrow> collector option" where
  "collect_loop [] c = None"
| "collect_loop (ob # obs) c =
     (case collect_round ob c of (c1, True) \<Rightarrow> Some c1 | (c1, False) \<Rightarrow> collect_loop obs c1)"

definition collect_output_until_deadline :: "bool \<Rightarrow> nat \<Rightarrow> observation list \<Rightarrow> collector option" where
  "collect_output_until_deadline cancelled until obs =
     collect_loop obs
       \<lparr>collected = default_buffer, exit_signal_received = cancelled, deadline = until,
        post_exit_deadline = None\<rparr>"

subsection \<open>Termination and conservation\<close>

lemma collect_round_deadline:
  "deadline (fst (collect_round ob c)) = deadline c + obs_paused_for ob"
  by (simp add: collect_round_def extend_deadlines_while_paused_def Let_def split: wakeup.split)

lemma collect_round_late:
  assumes "obs_now ob \<ge> deadline c + obs_paused_for ob"
  shows "snd (collect_round ob c)"
  using assms by (simp add: collect_round_def extend_deadlines_while_paused_def Let_def)

lemma represents_empty:
  assumes "represents m b s" "\<not> (retained_bytes b > 0 \<or> omitted_bytes b > 0)"
  shows "s = []"
proof -
  have "length (head b) + length (tail b) = 0"
    using assms(2) by (auto simp: retained_bytes_def saturating_add_def usize_max_def)
  moreover have "omitted_bytes b = min (length s - m) usize_max"
    using assms(1) by (simp add: represents_def)
  then have "min (length s - m) usize_max = 0" using assms(2) by linarith
  ultimately have "min (length s) m = 0" "length s \<le> m"
    using represents_retained_bytes [OF assms(1)] by (auto simp: usize_max_def)
  then show ?thesis by (cases m) auto
qed

lemma collect_round_saw:
  assumes "represents m (collected c) s" "represents m (obs_buffer ob) t"
  shows "represents m (collected (fst (collect_round ob c))) (s @ t)"
proof (cases "retained_bytes (snd (drain (obs_buffer ob))) > 0 \<or>
    omitted_bytes (snd (drain (obs_buffer ob))) > 0")
  case True
  then have "collected (fst (collect_round ob c)) =
      push_buffer (snd (drain (obs_buffer ob))) (collected c)"
    by (simp add: collect_round_def extend_deadlines_while_paused_def Let_def)
  with htb.move_over(1) [OF assms(2,1)] show ?thesis by simp
next
  case False
  then have "collected (fst (collect_round ob c)) = collected c"
    by (simp add: collect_round_def extend_deadlines_while_paused_def Let_def split: wakeup.split)
  moreover have "t = []"
    using represents_empty [OF drain_represents(2) [OF assms(2)] False] .
  ultimately show ?thesis using assms(1) by simp
qed

lemma collect_loop_ends:
  assumes "i < length obs"
    and "obs_now (obs ! i) \<ge> deadline c + sum_list (map obs_paused_for (take (Suc i) obs))"
    and "represents m (collected c) s" "list_all2 (represents m) (map obs_buffer obs) streams"
  shows "\<exists>c1 k. collect_loop obs c = Some c1 \<and> 0 < k \<and> k \<le> Suc i \<and>
    represents m (collected c1) (s @ concat (take k streams))"
  using assms
proof (induction obs arbitrary: i c s streams)
  case (Cons ob obs)
  from Cons.prems(4) obtain t ts where st: "streams = t # ts" "represents m (obs_buffer ob) t"
    "list_all2 (represents m) (map obs_buffer obs) ts"
    by (cases streams) auto
  obtain c1 ended where r: "collect_round ob c = (c1, ended)" by force
  have saw: "represents m (collected c1) (s @ t)"
    using collect_round_saw [OF Cons.prems(3) st(2)] r by simp
  show ?case
  proof (cases ended)
    case True
    with r saw show ?thesis by (intro exI [of _ c1] exI [of _ 1]) (simp add: st(1))
  next
    case False
    have "i \<noteq> 0"
    proof
      assume "i = 0"
      with Cons.prems(2) have "snd (collect_round ob c)" by (intro collect_round_late) simp
      with r False show False by simp
    qed
    then obtain j where j: "i = Suc j" by (cases i) auto
    have d: "deadline c1 = deadline c + obs_paused_for ob"
      using collect_round_deadline [of ob c] r by simp
    obtain c2 k where "collect_loop obs c1 = Some c2" "0 < k" "k \<le> Suc j"
      "represents m (collected c2) ((s @ t) @ concat (take k ts))"
      using Cons.IH [OF _ _ saw st(3), of j] Cons.prems(1,2) by (auto simp: j d add.assoc)
    with r False show ?thesis by (intro exI [of _ c2] exI [of _ "Suc k"]) (simp add: st(1) j)
  qed
qed simp


definition ex_observation :: "byte list \<Rightarrow> nat \<Rightarrow> observation" where
  "ex_observation bytes now =
     \<lparr>obs_paused_for = 5, obs_buffer = push_chunk bytes default_buffer, obs_cancelled = False,
      obs_closed = False, obs_now = now, obs_now_later = now, obs_wakeup = OutputNotified\<rparr>"


end
