(* ===== verification/Reorder_Buffer.thy ===== *)
theory Reorder_Buffer
  imports Prelude
begin

section \<open>Reorder buffers\<close>

text \<open>
  Two parts of exec-server put sequenced records back in order before they pass them on:
  the Noise relay (\<^verbatim>\<open>OrderedCiphertextFrames\<close>) and the client's process sessions
  (\<^verbatim>\<open>OrderedSessionEvents\<close>). This theory holds the contract they share, as the locale
  \<open>reorder_buffer\<close>, and what every such buffer delivers: from records that arrive in any
  order and any number of times, the original sequence up to the first gap.

  A \<^verbatim>\<open>BTreeMap\<close> of pending records is an association list with distinct keys; the
  sources never iterate over it.
\<close>

function release :: "nat \<Rightarrow> (nat \<times> 'a) list \<Rightarrow> 'a list \<times> nat \<times> (nat \<times> 'a) list" where
  "release n pend =
     (case map_of pend n of
        None \<Rightarrow> ([], n, pend)
      | Some x \<Rightarrow>
          (let (xs, n', pend') = release (Suc n) (filter (\<lambda>(k, _). k \<noteq> n) pend)
           in (x # xs, n', pend')))"
  by pat_completeness auto

termination
proof (relation "measure (\<lambda>(_, pend). length pend)")
  show "wf (measure (\<lambda>(_ :: nat, pend :: (nat \<times> 'a) list). length pend))" by simp
  fix n x and pend :: "(nat \<times> 'a) list"
  assume "map_of pend n = Some x"
  then show "((Suc n, filter (\<lambda>(k, _). k \<noteq> n) pend), n, pend) \<in>
      measure (\<lambda>(_, pend). length pend)"
    by (auto dest!: map_of_SomeD intro!: length_filter_less)
qed

declare release.simps [simp del]

text \<open>The arrivals of a whole run, and everything it released.\<close>

primrec feed ::
  "(nat \<Rightarrow> 'a \<Rightarrow> 's \<Rightarrow> ('s \<times> 'a list) option) \<Rightarrow> (nat \<times> 'a) list \<Rightarrow> 's \<Rightarrow>
   ('s \<times> 'a list) option" where
  "feed offer [] s = Some (s, [])"
| "feed offer (a # as) s =
     (case offer (fst a) (snd a) s of
        None \<Rightarrow> None
      | Some (s1, out) \<Rightarrow>
          (case feed offer as s1 of None \<Rightarrow> None | Some (s2, outs) \<Rightarrow> Some (s2, out @ outs)))"

lemma map_of_filter_other: "k \<noteq> n \<Longrightarrow> map_of (filter (\<lambda>(k, _). k \<noteq> n) p) k = map_of p k"
  by (induction p) auto

lemma release_None: "map_of p n = None \<Longrightarrow> release n p = ([], n, p)"
  by (simp add: release.simps)

lemma release_Some:
  "map_of p n = Some x \<Longrightarrow> release (Suc n) (filter (\<lambda>(k, _). k \<noteq> n) p) = (xs, m, p') \<Longrightarrow>
   release n p = (x # xs, m, p')"
  by (simp add: release.simps)

lemma release_spec:
  assumes "release n p = (xs, m, p')"
  shows "m = n + length xs \<and> (\<forall>i < length xs. map_of p (n + i) = Some (xs ! i)) \<and>
    map_of p m = None \<and> p' = filter (\<lambda>(k, _). k < n \<or> m \<le> k) p"
  using assms
proof (induction n p arbitrary: xs m p' rule: release.induct)
  case (1 n p)
  show ?case
  proof (cases "map_of p n")
    case None
    then show ?thesis using 1(2) by (auto simp: release_None intro!: filter_True [symmetric])
  next
    case (Some x)
    let ?p = "filter (\<lambda>(k, _). k \<noteq> n) p"
    obtain ys m1 p1 where r: "release (Suc n) ?p = (ys, m1, p1)" by (metis prod_cases3)
    have e: "xs = x # ys" "m = m1" "p' = p1"
      using 1(2) release_Some [OF Some r] by auto
    have ih: "m1 = Suc n + length ys" "\<forall>i < length ys. map_of ?p (Suc n + i) = Some (ys ! i)"
      "map_of ?p m1 = None" "p1 = filter (\<lambda>(k, _). k < Suc n \<or> m1 \<le> k) ?p"
      using 1(1) [OF Some r] by auto
    have nth: "map_of p (n + i) = Some (xs ! i)" if "i < length xs" for i
    proof (cases i)
      case (Suc j)
      then show ?thesis
        using ih(2) [rule_format, of j] that e(1)
        by (simp add: map_of_filter_other)
    qed (simp add: Some e)
    have none: "map_of p m = None"
      using ih(1,3) e(2) map_of_filter_other [of m n p] by simp
    have "p1 = filter (\<lambda>(k, _). k < n \<or> m \<le> k) p"
      using ih(1,4) e(2) by (auto simp: filter_filter intro!: filter_cong)
    with nth none ih(1) e show ?thesis by simp
  qed
qed

text \<open>
  A run over the sequence \<open>xs\<close>, numbered from \<open>base\<close>: everything below the next
  number has been released, everything pending is a record of \<open>xs\<close>.
\<close>

definition in_run :: "nat \<Rightarrow> 'a list \<Rightarrow> nat \<Rightarrow> (nat \<times> 'a) list \<Rightarrow> bool \<Rightarrow> bool" where
  "in_run base xs n pend st \<longleftrightarrow>
     base \<le> n \<and> n \<le> base + length xs \<and>
     (\<forall>(k, y) \<in> set pend. k - base < length xs \<and> xs ! (k - base) = y) \<and>
     (st \<longrightarrow> n = base + length xs)"

definition copies_of :: "nat \<Rightarrow> 'a list \<Rightarrow> (nat \<times> 'a) list \<Rightarrow> bool" where
  "copies_of base xs as \<longleftrightarrow>
     (\<forall>(q, x) \<in> set as. base \<le> q \<longrightarrow> q - base < length xs \<and> xs ! (q - base) = x)"

definition final_last :: "('a \<Rightarrow> bool) \<Rightarrow> 'a list \<Rightarrow> bool" where
  "final_last final xs \<longleftrightarrow> (\<forall>i < length xs. final (xs ! i) \<longrightarrow> Suc i = length xs)"

text \<open>Releasing hands on the next records of the sequence and loses none.\<close>

lemma release_keys:
  assumes "release n p = (out, m, p')" "\<forall>k \<in> fst ` set p. n \<le> k"
  shows "j < m \<or> j \<in> fst ` set p' \<longleftrightarrow> j < n \<or> j \<in> fst ` set p"
proof -
  note spec = release_spec [OF assms(1)]
  have m: "m = n + length out" and p': "p' = filter (\<lambda>(k, _). k < n \<or> m \<le> k) p"
    using spec by blast+
  have mid: "n + i \<in> fst ` set p" if "i < length out" for i
    using spec that by (metis (no_types) map_of_eq_None_iff option.distinct(1))
  show ?thesis
  proof (cases "n \<le> j \<and> j < m")
    case True
    then have "j - n < length out" using m by linarith
    from mid [OF this] True show ?thesis by simp
  next
    case False
    then show ?thesis using m by (auto simp: p')
  qed
qed

lemma release_in_run:
  assumes r: "release n p = (out, m, p')" and st: "in_run base xs n p st"
  shows "m = n + length out" "out = take (m - n) (drop (n - base) xs)" "in_run base xs m p' False"
proof -
  note spec = release_spec [OF r]
  show n1: "m = n + length out" using spec by blast
  have p1: "p' = filter (\<lambda>(k, _). k < n \<or> m \<le> k) p" using spec by blast
  have base: "base \<le> n" using st by (simp add: in_run_def)
  have p: "k - base < length xs \<and> xs ! (k - base) = y" if "(k, y) \<in> set p" for k y
    using that st by (auto simp: in_run_def)
  have nth: "n + i - base < length xs \<and> xs ! (n + i - base) = out ! i" if "i < length out" for i
    using p spec that by (meson map_of_SomeD)
  have len: "n + length out \<le> base + length xs"
  proof (cases "length out")
    case (Suc i)
    then show ?thesis using nth [of i] base by linarith
  qed (use st in \<open>simp add: in_run_def\<close>)
  have "out = take (length out) (drop (n - base) xs)"
    using nth len base by (intro nth_equalityI) auto
  then show "out = take (m - n) (drop (n - base) xs)" by (simp only: n1 diff_add_inverse)
  show "in_run base xs m p' False"
    using p base len n1 by (auto simp: in_run_def p1)
qed

locale reorder_buffer =
  fixes next_of :: "'s \<Rightarrow> nat"
    and pending_of :: "'s \<Rightarrow> (nat \<times> 'a) list"
    and stopped :: "'s \<Rightarrow> bool"
    and final :: "'a \<Rightarrow> bool"
    and inv :: "'s \<Rightarrow> bool"
    and offer :: "nat \<Rightarrow> 'a \<Rightarrow> 's \<Rightarrow> ('s \<times> 'a list) option"
  assumes inv_keys: "inv s \<Longrightarrow> k \<in> fst ` set (pending_of s) \<Longrightarrow> next_of s < k"
    and offer_inv: "inv s \<Longrightarrow> offer q x s = Some (s1, out) \<Longrightarrow> inv s1"
    and offer_ignored: "inv s \<Longrightarrow> offer q x s = Some (s1, out) \<Longrightarrow>
      q < next_of s \<or> q \<in> fst ` set (pending_of s) \<or> stopped s \<Longrightarrow>
      next_of s1 = next_of s \<and> pending_of s1 = pending_of s \<and> stopped s1 = stopped s \<and> out = []"
    and offer_taken: "inv s \<Longrightarrow> offer q x s = Some (s1, out) \<Longrightarrow>
      \<not> (q < next_of s \<or> q \<in> fst ` set (pending_of s) \<or> stopped s) \<Longrightarrow>
      (out, next_of s1, pending_of s1) = release (next_of s) ((q, x) # pending_of s) \<and>
      (stopped s1 \<longrightarrow> (\<exists>y \<in> set out. final y))"
begin

lemma offer_step:
  assumes "inv s" "offer q x s = Some (s1, out)"
    and src: "copies_of base xs [(q, x)]" and fin: "final_last final xs"
    and st: "in_run base xs (next_of s) (pending_of s) (stopped s)"
  shows "out = take (next_of s1 - next_of s) (drop (next_of s - base) xs) \<and>
    next_of s \<le> next_of s1 \<and> in_run base xs (next_of s1) (pending_of s1) (stopped s1) \<and>
    (base \<le> q \<longrightarrow> q < next_of s1 \<or> q \<in> fst ` set (pending_of s1)) \<and>
    (\<forall>k \<in> fst ` set (pending_of s). k < next_of s1 \<or> k \<in> fst ` set (pending_of s1))"
proof (cases "q < next_of s \<or> q \<in> fst ` set (pending_of s) \<or> stopped s")
  case True
  then have "next_of s1 = next_of s" "pending_of s1 = pending_of s" "stopped s1 = stopped s" "out = []"
    using offer_ignored [OF assms(1,2)] by auto
  with True st src show ?thesis by (fastforce simp: in_run_def copies_of_def)
next
  case False
  let ?p = "(q, x) # pending_of s"
  have r: "release (next_of s) ?p = (out, next_of s1, pending_of s1)"
    and stop: "stopped s1 \<Longrightarrow> \<exists>y \<in> set out. final y"
    using offer_taken [OF assms(1,2) False] by auto
  have base: "base \<le> next_of s" using st by (simp add: in_run_def)
  have run: "in_run base xs (next_of s) ?p False"
    using st src False by (auto simp: in_run_def copies_of_def)
  have keys: "\<forall>k \<in> fst ` set ?p. next_of s \<le> k"
    using False inv_keys [OF assms(1)] by (auto intro: less_imp_le)
  note rel = release_in_run [OF r run] and kept = release_keys [OF r keys]
  have "next_of s1 = base + length xs" if stp: "stopped s1"
  proof -
    obtain i where i: "i < length out" "final (out ! i)"
      using stop [OF stp] by (auto simp: in_set_conv_nth)
    have len: "next_of s + length out \<le> base + length xs"
      using rel(1,3) by (simp add: in_run_def)
    have "out ! i = xs ! (next_of s - base + i)"
      using i(1) rel(1) len base by (subst rel(2)) simp
    then have "Suc (next_of s - base + i) = length xs"
      using fin i len base by (simp add: final_last_def)
    with i(1) len rel(1) base show ?thesis by linarith
  qed
  with rel(3) have "in_run base xs (next_of s1) (pending_of s1) (stopped s1)"
    by (simp add: in_run_def)
  moreover have "q < next_of s1 \<or> q \<in> fst ` set (pending_of s1)"
    using kept [of q] by simp
  moreover have "\<forall>k \<in> fst ` set (pending_of s). k < next_of s1 \<or> k \<in> fst ` set (pending_of s1)"
    using kept by simp
  moreover have "next_of s \<le> next_of s1" by (simp add: rel(1))
  ultimately show ?thesis using rel(2) by (intro conjI impI) assumption+
qed

lemma feed_run:
  assumes "inv s" "feed offer as s = Some (s1, out)" "copies_of base xs as"
    and fin: "final_last final xs"
    and "in_run base xs (next_of s) (pending_of s) (stopped s)"
  shows "inv s1 \<and> out = take (next_of s1 - next_of s) (drop (next_of s - base) xs) \<and>
    next_of s \<le> next_of s1 \<and> in_run base xs (next_of s1) (pending_of s1) (stopped s1) \<and>
    (\<forall>q. base \<le> q \<and> q \<in> fst ` set as \<union> fst ` set (pending_of s) \<longrightarrow>
       q < next_of s1 \<or> q \<in> fst ` set (pending_of s1))"
  using assms(1,2,3,5)
proof (induction as arbitrary: s out)
  case Nil
  then show ?case by auto
next
  case (Cons a as)
  obtain q x where a: "a = (q, x)" by force
  from Cons.prems(2) obtain s0 o0 o1 where o: "offer q x s = Some (s0, o0)"
    "feed offer as s0 = Some (s1, o1)" "out = o0 @ o1"
    by (auto simp: a split: option.splits prod.splits)
  have c: "copies_of base xs [(q, x)]" "copies_of base xs as"
    using Cons.prems(3) by (auto simp: copies_of_def a)
  note step = offer_step [OF Cons.prems(1) o(1) c(1) fin Cons.prems(4)]
  note inv0 = offer_inv [OF Cons.prems(1) o(1)]
  have in0: "in_run base xs (next_of s0) (pending_of s0) (stopped s0)" using step by simp
  note ih = Cons.IH [OF inv0 o(2) c(2) in0]
  have "out = take (next_of s1 - next_of s) (drop (next_of s - base) xs)"
  proof -
    have n: "next_of s1 - next_of s = (next_of s0 - next_of s) + (next_of s1 - next_of s0)"
      "(next_of s0 - next_of s) + (next_of s - base) = next_of s0 - base"
      using step ih Cons.prems(4) by (auto simp: in_run_def)
    have o0: "o0 = take (next_of s0 - next_of s) (drop (next_of s - base) xs)"
      using step by simp
    have "o1 = take (next_of s1 - next_of s0) (drop (next_of s0 - base) xs)"
      using ih by simp
    then have "o1 = take (next_of s1 - next_of s0)
        (drop (next_of s0 - next_of s) (drop (next_of s - base) xs))"
      by (simp only: drop_drop n(2))
    with o0 show ?thesis by (simp only: n(1) take_add o(3))
  qed
  moreover have "q' < next_of s1 \<or> q' \<in> fst ` set (pending_of s1)"
    if "base \<le> q'" "q' \<in> fst ` set (a # as) \<union> fst ` set (pending_of s)" for q'
  proof -
    have "q' \<in> fst ` set as \<or> q' < next_of s0 \<or> q' \<in> fst ` set (pending_of s0)"
      using that step unfolding a by (metis UnE fst_conv image_insert insertE list.simps(15))
    moreover have "next_of s0 \<le> next_of s1" using ih by blast
    ultimately show ?thesis using ih that(1) by (metis UnI1 UnI2 less_le_trans)
  qed
  moreover have "next_of s \<le> next_of s1" using ih step by (meson le_trans)
  ultimately show ?case using ih by blast
qed

text \<open>
  From an empty buffer, a run releases the sequence up to the first record that has not
  arrived, and all of it once every record has arrived.
\<close>

lemma feed_from_start:
  assumes "inv s" "next_of s = base" "pending_of s = []" "\<not> stopped s"
    and "feed offer as s = Some (s1, out)" "copies_of base xs as" "final_last final xs"
  shows "out = take (next_of s1 - base) xs"
    and "next_of s1 - base < length xs \<Longrightarrow> next_of s1 \<notin> fst ` set as"
proof -
  have "in_run base xs (next_of s) (pending_of s) (stopped s)"
    using assms(2-4) by (simp add: in_run_def)
  note run = feed_run [OF assms(1,5,6,7) this]
  then show "out = take (next_of s1 - base) xs" using assms(2) by simp
  show "next_of s1 \<notin> fst ` set as" if "next_of s1 - base < length xs"
    using run inv_keys [of s1 "next_of s1"] assms(2) by auto
qed

end

end
