(* ===== verification/Noise_Relay.thy ===== *)
theory Noise_Relay
  imports Bytes Reorder_Buffer
begin

section \<open>The Noise relay of exec-server\<close>

text \<open>
  \<^verbatim>\<open>exec-server/src/noise_relay\<close> and the transport half of
  \<^verbatim>\<open>exec-server/src/noise_channel.rs\<close>: JSON-RPC messages are framed by a length, split
  into records, numbered and encrypted by the writer; the reader puts the records back in
  order, decrypts them and cuts the plaintext into messages again. The cipher (the crate
  \<^verbatim>\<open>clatter\<close>) and the JSON codec (\<^verbatim>\<open>serde_json\<close>) are parameters: the record
  \<open>noise_cipher\<close>, and the functions \<open>to_json\<close> and \<open>from_json\<close>.
\<close>

datatype exec_server_error = Protocol rstring | Json | Closed

definition u32_max :: nat where "u32_max = 2 ^ 32 - 1"

subsection \<open>Ordering of ciphertext frames\<close>

definition MAX_REORDER_DISTANCE :: nat where "MAX_REORDER_DISTANCE = 64"
definition MAX_PENDING_BYTES :: nat where "MAX_PENDING_BYTES = 1024 * 1024"

record ordered_ciphertext_frames =
  frames_next_seq :: nat
  frames_pending :: "(nat \<times> byte list) list"
  frames_pending_bytes :: nat

definition frames_default :: ordered_ciphertext_frames where
  "frames_default = \<lparr>frames_next_seq = 0, frames_pending = [], frames_pending_bytes = 0\<rparr>"

definition frames_advance ::
  "ordered_ciphertext_frames \<Rightarrow> ordered_ciphertext_frames \<times> (exec_server_error, unit) result"
where
  "frames_advance f =
     (if frames_next_seq f + 1 > u32_max
      then (f, Inl (Protocol (str ''Noise relay sequence number exhausted'')))
      else (f\<lparr>frames_next_seq := frames_next_seq f + 1\<rparr>, Inr ()))"

function release_ready ::
  "ordered_ciphertext_frames \<Rightarrow> byte list list \<Rightarrow>
   ordered_ciphertext_frames \<times> (exec_server_error, byte list list) result" where
  "release_ready f ready =
     (case map_of (frames_pending f) (frames_next_seq f) of
        None \<Rightarrow> (f, Inr ready)
      | Some payload \<Rightarrow>
          (let f1 = f\<lparr>frames_pending := filter (\<lambda>(k, _). k \<noteq> frames_next_seq f) (frames_pending f),
                      frames_pending_bytes := frames_pending_bytes f - length payload\<rparr>
           in case frames_advance f1 of
                (f2, Inl e) \<Rightarrow> (f2, Inl e)
              | (f2, Inr _) \<Rightarrow> release_ready f2 (ready @ [payload])))"
  by pat_completeness auto

lemma frames_advance_Inr:
  "frames_advance f = (f1, Inr u) \<Longrightarrow> f1 = f\<lparr>frames_next_seq := frames_next_seq f + 1\<rparr>"
  by (auto simp: frames_advance_def split: if_splits)

termination release_ready
proof (relation "measure (\<lambda>(f, _). length (frames_pending f))", goal_cases)
  case (2 f ready payload)
  then have "length (filter (\<lambda>(k, _). k \<noteq> frames_next_seq f) (frames_pending f)) <
      length (frames_pending f)"
    by (auto dest!: map_of_SomeD intro!: length_filter_less)
  with 2 show ?case by (auto dest!: frames_advance_Inr [OF sym])
qed simp

declare release_ready.simps [simp del]

definition frames_push ::
  "nat \<Rightarrow> byte list \<Rightarrow> ordered_ciphertext_frames \<Rightarrow>
   ordered_ciphertext_frames \<times> (exec_server_error, byte list list) result" where
  "frames_push seq payload f =
     (if seq < frames_next_seq f \<or> seq \<in> fst ` set (frames_pending f) then (f, Inr [])
      else if seq > frames_next_seq f then
        (if seq - frames_next_seq f > MAX_REORDER_DISTANCE
         then (f, Inl (Protocol (str ''Noise relay ciphertext exceeds reorder window'')))
         else let pending_bytes = frames_pending_bytes f + length payload
              in if pending_bytes > MAX_PENDING_BYTES
                 then (f, Inl (Protocol (str ''Noise relay pending ciphertext buffer is full'')))
                 else (f\<lparr>frames_pending := (seq, payload) # frames_pending f,
                         frames_pending_bytes := pending_bytes\<rparr>, Inr []))
      else case frames_advance f of
             (f1, Inl e) \<Rightarrow> (f1, Inl e)
           | (f1, Inr _) \<Rightarrow> release_ready f1 [payload])"

definition take_next_sequence :: "nat \<Rightarrow> nat \<times> (exec_server_error, nat) result" where
  "take_next_sequence next_seq =
     (if next_seq + 1 > u32_max
      then (next_seq, Inl (Protocol (str ''Noise relay sequence number exhausted'')))
      else (next_seq + 1, Inr next_seq))"

subsection \<open>Message framing\<close>

definition LENGTH_PREFIX_BYTES :: nat where "LENGTH_PREFIX_BYTES = 4"
definition MAX_NOISE_JSONRPC_MESSAGE_LEN :: nat where
  "MAX_NOISE_JSONRPC_MESSAGE_LEN = 64 * 1024 * 1024"
definition NOISE_RECORD_PLAINTEXT_LEN :: nat where
  "NOISE_RECORD_PLAINTEXT_LEN = 60 * 1024"

definition frame_jsonrpc_message ::
  "('m \<Rightarrow> byte list) \<Rightarrow> 'm \<Rightarrow> (exec_server_error, byte list) result" where
  "frame_jsonrpc_message to_json message =
     (let message_len = length (to_json message)
      in if message_len > MAX_NOISE_JSONRPC_MESSAGE_LEN
         then Inl (Protocol (str ''Noise relay JSON-RPC message exceeds maximum length''))
         else Inr (be_bytes LENGTH_PREFIX_BYTES message_len @ to_json message))"

function decode_messages ::
  "(byte list \<Rightarrow> 'm option) \<Rightarrow> byte list \<Rightarrow> 'm list \<Rightarrow>
   byte list \<times> (exec_server_error, 'm list) result" where
  "decode_messages from_json buffered messages =
     (if length buffered < LENGTH_PREFIX_BYTES then (buffered, Inr messages)
      else let message_len = be_value (take LENGTH_PREFIX_BYTES buffered);
               framed_len = LENGTH_PREFIX_BYTES + message_len
           in if message_len = 0 \<or> message_len > MAX_NOISE_JSONRPC_MESSAGE_LEN
              then (buffered, Inl (Protocol (str ''Noise relay JSON-RPC message has invalid length'')))
              else if length buffered < framed_len then (buffered, Inr messages)
              else case from_json (drop LENGTH_PREFIX_BYTES (take framed_len buffered)) of
                     None \<Rightarrow> (buffered, Inl Json)
                   | Some m \<Rightarrow>
                       decode_messages from_json (drop framed_len buffered) (messages @ [m]))"
  by pat_completeness auto

termination
  by (relation "measure (\<lambda>(_, buffered, _). length buffered)") (auto simp: LENGTH_PREFIX_BYTES_def)

declare decode_messages.simps [simp del]

text \<open>\<^verbatim>\<open>JsonRpcMessageDecoder::push\<close>, over the buffered bytes of the decoder.\<close>

definition decoder_push ::
  "(byte list \<Rightarrow> 'm option) \<Rightarrow> byte list \<Rightarrow> byte list \<Rightarrow>
   byte list \<times> (exec_server_error, 'm list) result" where
  "decoder_push from_json plaintext_record buffered =
     (if length plaintext_record > NOISE_RECORD_PLAINTEXT_LEN
      then (buffered, Inl (Protocol (str ''Noise relay plaintext record exceeds maximum length'')))
      else case decode_messages from_json (buffered @ plaintext_record) [] of
             (b1, Inl e) \<Rightarrow> (b1, Inl e)
           | (b1, Inr messages) \<Rightarrow>
               if length b1 > LENGTH_PREFIX_BYTES + MAX_NOISE_JSONRPC_MESSAGE_LEN
               then (b1, Inl (Protocol
                      (str ''Noise relay JSON-RPC reassembly buffer exceeds maximum length'')))
               else (b1, Inr messages))"

subsection \<open>The transport\<close>

datatype noise_channel_error =
    KeyGeneration rstring
  | InvalidPublicKey rstring
  | InvalidMessage rstring
  | Handshake rstring
  | Transport rstring

definition display_noise_channel_error :: "noise_channel_error \<Rightarrow> rstring" where
  "display_noise_channel_error e =
     (case e of
        KeyGeneration m \<Rightarrow> str ''Noise channel key generation failed: '' @ m
      | InvalidPublicKey m \<Rightarrow> str ''invalid Noise channel public key: '' @ m
      | InvalidMessage m \<Rightarrow> str ''invalid Noise channel message: '' @ m
      | Handshake m \<Rightarrow> str ''Noise channel handshake failed: '' @ m
      | Transport m \<Rightarrow> str ''Noise channel transport failed: '' @ m)"

record 't noise_cipher =
  max_message_len :: nat
  tag_len :: nat
  send_vec :: "'t \<Rightarrow> byte list \<Rightarrow> (rstring, 't \<times> byte list) result"
  receive_vec :: "'t \<Rightarrow> byte list \<Rightarrow> (rstring, 't \<times> byte list) result"

definition ensure_noise_frame_len ::
  "'t noise_cipher \<Rightarrow> nat \<Rightarrow> rstring \<Rightarrow> (noise_channel_error, unit) result" where
  "ensure_noise_frame_len nc frame_len message =
     (if frame_len > max_message_len nc then Inl (InvalidMessage message) else Inr ())"

definition noise_encrypt ::
  "'t noise_cipher \<Rightarrow> 't \<Rightarrow> byte list \<Rightarrow> (noise_channel_error, 't \<times> byte list) result" where
  "noise_encrypt nc t plaintext =
     (if length plaintext + tag_len nc > usize_max
      then Inl (InvalidMessage (str ''transport plaintext is too large''))
      else case ensure_noise_frame_len nc (length plaintext + tag_len nc)
                  (str ''transport plaintext is too large'') of
             Inl e \<Rightarrow> Inl e
           | Inr _ \<Rightarrow>
               (case send_vec nc t plaintext of Inl m \<Rightarrow> Inl (Transport m) | Inr r \<Rightarrow> Inr r))"

definition noise_decrypt ::
  "'t noise_cipher \<Rightarrow> 't \<Rightarrow> byte list \<Rightarrow> (noise_channel_error, 't \<times> byte list) result" where
  "noise_decrypt nc t ciphertext =
     (if length ciphertext < tag_len nc
      then Inl (InvalidMessage (str ''transport ciphertext is too short''))
      else case ensure_noise_frame_len nc (length ciphertext)
                  (str ''transport ciphertext is too large'') of
             Inl e \<Rightarrow> Inl e
           | Inr _ \<Rightarrow>
               (case receive_vec nc t ciphertext of Inl m \<Rightarrow> Inl (Transport m) | Inr r \<Rightarrow> Inr r))"

text \<open>
  The prologue that binds a handshake to one registration and one stream: every part is
  preceded by its length.
\<close>

definition PROLOGUE_DOMAIN :: "byte list" where
  "PROLOGUE_DOMAIN = ascii_bytes (str ''codex-exec-server-relay-noise/v1'')"

definition append_prologue_part :: "byte list \<Rightarrow> byte list \<Rightarrow> byte list" where
  "append_prologue_part prologue part = prologue @ be_bytes 8 (length part) @ part"

definition noise_channel_prologue :: "byte list \<Rightarrow> byte list \<Rightarrow> byte list \<Rightarrow> byte list" where
  "noise_channel_prologue environment_id executor_registration_id stream_id =
     append_prologue_part
       (append_prologue_part
         (append_prologue_part (append_prologue_part [] PROLOGUE_DOMAIN) environment_id)
         executor_registration_id)
       stream_id"

subsection \<open>The writer task and the reader of a virtual stream\<close>

text \<open>
  The writer: every record takes a sequence number and is encrypted once. The result is the
  state the task ends in, the frames it sent, and whether it is still running (an error
  breaks out of the loop, what was sent stays sent).
\<close>

primrec write_records ::
  "'t noise_cipher \<Rightarrow> byte list list \<Rightarrow> nat \<times> 't \<Rightarrow>
   (nat \<times> 't) \<times> (nat \<times> byte list) list \<times> bool" where
  "write_records nc [] st = (st, [], True)"
| "write_records nc (r # rs) st =
     (case take_next_sequence (fst st) of
        (n, Inl _) \<Rightarrow> ((n, snd st), [], False)
      | (n, Inr seq) \<Rightarrow>
          (case noise_encrypt nc (snd st) r of
             Inl _ \<Rightarrow> ((n, snd st), [], False)
           | Inr (t, c) \<Rightarrow>
               (case write_records nc rs (n, t) of
                  (st1, fs, ok) \<Rightarrow> (st1, (seq, c) # fs, ok))))"

primrec write_messages ::
  "'t noise_cipher \<Rightarrow> ('m \<Rightarrow> byte list) \<Rightarrow> 'm list \<Rightarrow> nat \<times> 't \<Rightarrow>
   (nat \<times> 't) \<times> (nat \<times> byte list) list \<times> bool" where
  "write_messages nc to_json [] st = (st, [], True)"
| "write_messages nc to_json (m # ms) st =
     (case frame_jsonrpc_message to_json m of
        Inl _ \<Rightarrow> (st, [], False)
      | Inr framed \<Rightarrow>
          (case write_records nc (slice_chunks NOISE_RECORD_PLAINTEXT_LEN framed) st of
             (st1, fs, ok) \<Rightarrow>
               if ok then (case write_messages nc to_json ms st1 of
                             (st2, gs, ok2) \<Rightarrow> (st2, fs @ gs, ok2))
               else (st1, fs, False)))"

text \<open>
  The reader. \<open>incoming\<close> is the bounded channel to the connection processor: the
  messages delivered so far, and \<open>room\<close>, how many more the channel takes before a
  \<^verbatim>\<open>try_send\<close> fails.
\<close>

record ('t, 'm) noise_virtual_stream =
  transport :: 't
  inbound_ciphertexts :: ordered_ciphertext_frames
  inbound_decoder :: "byte list"
  incoming :: "'m list"
  room :: nat

primrec queue_messages ::
  "'m list \<Rightarrow> ('t, 'm) noise_virtual_stream \<Rightarrow>
   ('t, 'm) noise_virtual_stream \<times> (exec_server_error, unit) result" where
  "queue_messages [] s = (s, Inr ())"
| "queue_messages (m # ms) s =
     (if room s = 0
      then (s, Inl (Protocol (str ''Noise virtual stream inbound queue is full or closed'')))
      else queue_messages ms (s\<lparr>incoming := incoming s @ [m], room := room s - 1\<rparr>))"

primrec open_ciphertexts ::
  "'t noise_cipher \<Rightarrow> (byte list \<Rightarrow> 'm option) \<Rightarrow> byte list list \<Rightarrow>
   ('t, 'm) noise_virtual_stream \<Rightarrow>
   ('t, 'm) noise_virtual_stream \<times> (exec_server_error, unit) result" where
  "open_ciphertexts nc from_json [] s = (s, Inr ())"
| "open_ciphertexts nc from_json (c # cs) s =
     (case noise_decrypt nc (transport s) c of
        Inl e \<Rightarrow>
          (s, Inl (Protocol (str ''Noise relay decryption failed: '' @ display_noise_channel_error e)))
      | Inr (t, plaintext) \<Rightarrow>
          (case decoder_push from_json plaintext (inbound_decoder s) of
             (b, Inl e) \<Rightarrow> (s\<lparr>transport := t, inbound_decoder := b\<rparr>, Inl e)
           | (b, Inr ms) \<Rightarrow>
               (case queue_messages ms (s\<lparr>transport := t, inbound_decoder := b\<rparr>) of
                  (s1, Inl e) \<Rightarrow> (s1, Inl e)
                | (s1, Inr _) \<Rightarrow> open_ciphertexts nc from_json cs s1)))"

definition receive_data ::
  "'t noise_cipher \<Rightarrow> (byte list \<Rightarrow> 'm option) \<Rightarrow> nat \<times> byte list \<Rightarrow>
   ('t, 'm) noise_virtual_stream \<Rightarrow>
   ('t, 'm) noise_virtual_stream \<times> (exec_server_error, unit) result" where
  "receive_data nc from_json data s =
     (case frames_push (fst data) (snd data) (inbound_ciphertexts s) of
        (f, Inl e) \<Rightarrow> (s\<lparr>inbound_ciphertexts := f\<rparr>, Inl e)
      | (f, Inr cs) \<Rightarrow> open_ciphertexts nc from_json cs (s\<lparr>inbound_ciphertexts := f\<rparr>))"

text \<open>The frames of a stream as they come in; the stream is dropped at the first error.\<close>

primrec receive_all ::
  "'t noise_cipher \<Rightarrow> (byte list \<Rightarrow> 'm option) \<Rightarrow> (nat \<times> byte list) list \<Rightarrow>
   ('t, 'm) noise_virtual_stream \<Rightarrow>
   ('t, 'm) noise_virtual_stream \<times> (exec_server_error, unit) result" where
  "receive_all nc from_json [] s = (s, Inr ())"
| "receive_all nc from_json (d # ds) s =
     (case receive_data nc from_json d s of
        (s1, Inl e) \<Rightarrow> (s1, Inl e)
      | (s1, Inr _) \<Rightarrow> receive_all nc from_json ds s1)"

definition new_virtual_stream :: "'t \<Rightarrow> nat \<Rightarrow> ('t, 'm) noise_virtual_stream" where
  "new_virtual_stream t capacity =
     \<lparr>transport = t, inbound_ciphertexts = frames_default, inbound_decoder = [],
      incoming = [], room = capacity\<rparr>"

end
