(* ===== verification/Noise_Relay_Correct.thy ===== *)
theory Noise_Relay_Correct
  imports Noise_Relay
begin

section \<open>What the Noise relay delivers\<close>

text \<open>
  The frame order is an instance of \<open>reorder_buffer\<close>; decoding undoes framing whatever
  the record boundaries; together a virtual stream hands its processor the messages of the
  writer, in order and each once, for every order and multiplicity in which the relay
  delivers the frames.
\<close>

subsection \<open>The frame order\<close>

definition frames_inv :: "ordered_ciphertext_frames \<Rightarrow> bool" where
  "frames_inv f \<longleftrightarrow>
     distinct (map fst (frames_pending f)) \<and>
     (\<forall>k \<in> fst ` set (frames_pending f).
        frames_next_seq f < k \<and> k \<le> frames_next_seq f + MAX_REORDER_DISTANCE) \<and>
     frames_pending_bytes f = sum_list (map (\<lambda>a. length (snd a)) (frames_pending f)) \<and>
     frames_pending_bytes f \<le> MAX_PENDING_BYTES"

definition offer_frame ::
  "nat \<Rightarrow> byte list \<Rightarrow> ordered_ciphertext_frames \<Rightarrow>
   (ordered_ciphertext_frames \<times> byte list list) option" where
  "offer_frame q x f = (case frames_push q x f of (f1, Inr out) \<Rightarrow> Some (f1, out) | _ \<Rightarrow> None)"

lemma sum_filter_key:
  assumes "distinct (map fst p)" "map_of p n = Some x"
  shows "sum_list (map (\<lambda>a. length (snd a)) p) =
    length x + sum_list (map (\<lambda>a. length (snd a)) (filter (\<lambda>(k, _). k \<noteq> n) p))"
  using assms
proof (induction p)
  case (Cons a p)
  obtain k y where a: "a = (k, y)" by force
  show ?case
  proof (cases "k = n")
    case True
    then have "filter (\<lambda>(k, _). k \<noteq> n) p = p"
      using Cons.prems(1) by (force simp: a filter_id_conv)
    with True Cons.prems show ?thesis by (simp add: a)
  next
    case False
    with Cons show ?thesis by (simp add: a)
  qed
qed simp

lemma frames_inv_remove:
  assumes "distinct (map fst (frames_pending f))"
    "\<forall>k \<in> fst ` set (frames_pending f).
       frames_next_seq f \<le> k \<and> k \<le> frames_next_seq f + MAX_REORDER_DISTANCE"
    "frames_pending_bytes f = sum_list (map (\<lambda>a. length (snd a)) (frames_pending f))"
    "frames_pending_bytes f \<le> MAX_PENDING_BYTES"
    and "release_ready f ready = (f1, Inr out)"
  shows "frames_inv f1 \<and> (\<exists>xs. out = ready @ xs \<and>
    release (frames_next_seq f) (frames_pending f) = (xs, frames_next_seq f1, frames_pending f1))"
  using assms
proof (induction f ready arbitrary: f1 out rule: release_ready.induct)
  case (1 f ready)
  show ?case
  proof (cases "map_of (frames_pending f) (frames_next_seq f)")
    case None
    then have "frames_next_seq f \<notin> fst ` set (frames_pending f)" by (simp add: map_of_eq_None_iff)
    then have "\<forall>k \<in> fst ` set (frames_pending f). frames_next_seq f < k"
      using 1(3) by (metis le_neq_implies_less)
    then show ?thesis
      using 1(2-6) None by (auto simp: release_ready.simps release_None frames_inv_def)
  next
    case (Some payload)
    define g where "g = f\<lparr>frames_pending := filter (\<lambda>(k, _). k \<noteq> frames_next_seq f) (frames_pending f),
      frames_pending_bytes := frames_pending_bytes f - length payload\<rparr>"
    from 1(6) Some obtain u g2 where adv: "frames_advance g = (g2, Inr u)"
      and rr: "release_ready g2 (ready @ [payload]) = (f1, Inr out)"
      by (auto simp: release_ready.simps [of f] g_def [symmetric] Let_def
          split: prod.splits sum.splits)
    note g2 = frames_advance_Inr [OF adv]
    have bytes: "frames_pending_bytes g2 = sum_list (map (\<lambda>a. length (snd a)) (frames_pending g2))"
      using sum_filter_key [OF 1(2) Some] 1(4) by (simp add: g2 g_def)
    have keys: "\<forall>k \<in> fst ` set (frames_pending g2).
        frames_next_seq g2 \<le> k \<and> k \<le> frames_next_seq g2 + MAX_REORDER_DISTANCE"
      using 1(3) by (fastforce simp: g2 g_def)
    have dist: "distinct (map fst (frames_pending g2))"
      using 1(2) by (simp add: g2 g_def distinct_map_filter)
    have le: "frames_pending_bytes g2 \<le> MAX_PENDING_BYTES" using 1(5) by (simp add: g2 g_def)
    obtain xs where xs: "out = (ready @ [payload]) @ xs" "frames_inv f1"
      "release (frames_next_seq g2) (frames_pending g2) =
        (xs, frames_next_seq f1, frames_pending f1)"
      using 1(1) [OF Some g_def adv [symmetric] refl dist keys bytes le rr] by force
    have "release (frames_next_seq f) (frames_pending f) =
        (payload # xs, frames_next_seq f1, frames_pending f1)"
      using xs(3) by (intro release_Some [OF Some]) (simp add: g2 g_def)
    with xs show ?thesis by simp
  qed
qed

lemma frames_push_fresh:
  assumes inv: "frames_inv f" and push: "frames_push q x f = (f1, Inr out)"
    and fresh: "\<not> (q < frames_next_seq f \<or> q \<in> fst ` set (frames_pending f))"
  shows "frames_inv f1 \<and>
    (out, frames_next_seq f1, frames_pending f1) =
    release (frames_next_seq f) ((q, x) # frames_pending f)"
proof (cases "q > frames_next_seq f")
  case True
  have none: "map_of (frames_pending f) (frames_next_seq f) = None"
    using inv by (force simp: frames_inv_def map_of_eq_None_iff)
  from push fresh True have
    "q - frames_next_seq f \<le> MAX_REORDER_DISTANCE"
    "frames_pending_bytes f + length x \<le> MAX_PENDING_BYTES"
    "f1 = f\<lparr>frames_pending := (q, x) # frames_pending f,
            frames_pending_bytes := frames_pending_bytes f + length x\<rparr>" "out = []"
    by (auto simp: frames_push_def Let_def split: if_splits)
  with True inv fresh none show ?thesis
    by (auto simp: frames_inv_def release_None)
next
  case False
  then have q: "q = frames_next_seq f" using fresh by simp
  from push fresh q obtain g u where adv: "frames_advance f = (g, Inr u)"
    and rr: "release_ready g [x] = (f1, Inr out)"
    by (auto simp: frames_push_def split: prod.splits sum.splits)
  note g = frames_advance_Inr [OF adv]
  have "frames_inv f1 \<and> (\<exists>xs. out = [x] @ xs \<and>
      release (frames_next_seq g) (frames_pending g) = (xs, frames_next_seq f1, frames_pending f1))"
    using inv by (intro frames_inv_remove [OF _ _ _ _ rr]) (auto simp: g frames_inv_def)
  then obtain xs where xs: "frames_inv f1" "out = x # xs"
    "release (Suc q) (frames_pending f) = (xs, frames_next_seq f1, frames_pending f1)"
    by (auto simp: g q)
  have "filter (\<lambda>(k, _). k \<noteq> q) ((q, x) # frames_pending f) = frames_pending f"
    using fresh by (force simp: filter_id_conv)
  then have "release q ((q, x) # frames_pending f) =
      (x # xs, frames_next_seq f1, frames_pending f1)"
    using xs(3) by (intro release_Some) simp_all
  with xs show ?thesis by (simp add: q)
qed

interpretation frames: reorder_buffer frames_next_seq frames_pending "\<lambda>_. False" "\<lambda>_. False"
  frames_inv offer_frame
proof
  show "frames_next_seq f < k" if "frames_inv f" "k \<in> fst ` set (frames_pending f)" for f k
    using that by (force simp: frames_inv_def)
  show "frames_inv f1" if "frames_inv f" "offer_frame q x f = Some (f1, out)" for f q x f1 out
  proof (cases "q < frames_next_seq f \<or> q \<in> fst ` set (frames_pending f)")
    case True
    with that show ?thesis by (auto simp: offer_frame_def frames_push_def)
  next
    case False
    have "frames_push q x f = (f1, Inr out)"
      using that(2) by (auto simp: offer_frame_def split: prod.splits sum.splits)
    with that False show ?thesis using frames_push_fresh by blast
  qed
  show "frames_next_seq f1 = frames_next_seq f \<and> frames_pending f1 = frames_pending f \<and>
      False = False \<and> out = []" if "frames_inv f" "offer_frame q x f = Some (f1, out)"
    "q < frames_next_seq f \<or> q \<in> fst ` set (frames_pending f) \<or> False" for f q x f1 out
    using that by (auto simp: offer_frame_def frames_push_def)
  show "(out, frames_next_seq f1, frames_pending f1) =
      release (frames_next_seq f) ((q, x) # frames_pending f) \<and>
      (False \<longrightarrow> (\<exists>y \<in> set out. False))"
    if "frames_inv f" "offer_frame q x f = Some (f1, out)"
    "\<not> (q < frames_next_seq f \<or> q \<in> fst ` set (frames_pending f) \<or> False)" for f q x f1 out
  proof -
    have "frames_push q x f = (f1, Inr out)"
      using that(2) by (auto simp: offer_frame_def split: prod.splits sum.splits)
    with that show ?thesis using frames_push_fresh by blast
  qed
qed

text \<open>The window is bounded in entries and in bytes.\<close>

lemma frames_inv_bounds:
  assumes "frames_inv f"
  shows "length (frames_pending f) \<le> MAX_REORDER_DISTANCE"
proof -
  have "length (frames_pending f) = card (fst ` set (frames_pending f))"
    using assms by (metis distinct_card frames_inv_def length_map set_map)
  also have "\<dots> \<le> card {frames_next_seq f <.. frames_next_seq f + MAX_REORDER_DISTANCE}"
    using assms by (intro card_mono) (auto simp: frames_inv_def)
  finally show ?thesis by simp
qed

subsection \<open>Decoding undoes framing\<close>

definition framed :: "('m \<Rightarrow> byte list) \<Rightarrow> 'm \<Rightarrow> byte list" where
  "framed to_json m = be_bytes LENGTH_PREFIX_BYTES (length (to_json m)) @ to_json m"

definition message_fits :: "('m \<Rightarrow> byte list) \<Rightarrow> (byte list \<Rightarrow> 'm option) \<Rightarrow> 'm \<Rightarrow> bool" where
  "message_fits to_json from_json m \<longleftrightarrow>
     from_json (to_json m) = Some m \<and> to_json m \<noteq> [] \<and>
     length (to_json m) \<le> MAX_NOISE_JSONRPC_MESSAGE_LEN"

text \<open>The decoder is waiting for the rest of the first of the messages \<open>ms\<close>.\<close>

definition waits_for :: "('m \<Rightarrow> byte list) \<Rightarrow> 'm list \<Rightarrow> byte list \<Rightarrow> bool" where
  "waits_for to_json ms buf \<longleftrightarrow>
     (case ms of [] \<Rightarrow> buf = [] | m # _ \<Rightarrow> length buf < length (framed to_json m))"

lemma length_framed: "length (framed to_json m) = LENGTH_PREFIX_BYTES + length (to_json m)"
  by (simp add: framed_def)

lemma framed_prefix:
  assumes "length (to_json m) \<le> MAX_NOISE_JSONRPC_MESSAGE_LEN"
    and "LENGTH_PREFIX_BYTES \<le> length buf" "buf @ rest = framed to_json m @ tl1"
  shows "be_value (take LENGTH_PREFIX_BYTES buf) = length (to_json m)"
proof -
  have "take LENGTH_PREFIX_BYTES buf = take LENGTH_PREFIX_BYTES (buf @ rest)"
    using assms(2) by simp
  also have "\<dots> = be_bytes LENGTH_PREFIX_BYTES (length (to_json m))"
    by (simp add: assms(3) framed_def)
  finally show ?thesis
    using assms(1)
    by (simp add: be_value_be_bytes LENGTH_PREFIX_BYTES_def MAX_NOISE_JSONRPC_MESSAGE_LEN_def)
qed

lemma decode_waits:
  assumes "message_fits to_json from_json m" "buf @ rest = framed to_json m @ tl1"
    and "length buf < length (framed to_json m)"
  shows "decode_messages from_json buf acc = (buf, Inr acc)"
proof (cases "length buf < LENGTH_PREFIX_BYTES")
  case False
  then have v: "be_value (take LENGTH_PREFIX_BYTES buf) = length (to_json m)"
    using assms(1,2) by (intro framed_prefix) (auto simp: message_fits_def)
  have "to_json m \<noteq> []" "\<not> MAX_NOISE_JSONRPC_MESSAGE_LEN < length (to_json m)"
    using assms(1) by (auto simp: message_fits_def)
  then show ?thesis
    using assms(3) by (subst decode_messages.simps) (simp add: Let_def v length_framed)
qed (simp add: decode_messages.simps)

lemma decode_one:
  assumes "message_fits to_json from_json m" and b: "b = framed to_json m @ buf"
  shows "decode_messages from_json b acc = decode_messages from_json buf (acc @ [m])"
proof -
  have "be_value (take LENGTH_PREFIX_BYTES b) = length (to_json m)"
    using assms by (intro framed_prefix [where rest = "[]"])
      (auto simp: message_fits_def length_framed)
  moreover have "drop LENGTH_PREFIX_BYTES (take (LENGTH_PREFIX_BYTES + length (to_json m)) b) =
      to_json m"
    "drop (LENGTH_PREFIX_BYTES + length (to_json m)) b = buf"
    "\<not> length b < LENGTH_PREFIX_BYTES" "\<not> length b < LENGTH_PREFIX_BYTES + length (to_json m)"
    by (simp_all add: b framed_def)
  moreover have "to_json m \<noteq> []" "\<not> MAX_NOISE_JSONRPC_MESSAGE_LEN < length (to_json m)"
    "from_json (to_json m) = Some m"
    using assms by (auto simp: message_fits_def)
  ultimately show ?thesis
    by (subst decode_messages.simps) (simp add: Let_def)
qed

lemma decode_messages_spec:
  assumes "\<forall>m \<in> set ms. message_fits to_json from_json m"
    and "buf @ rest = concat (map (framed to_json) ms)"
  shows "\<exists>done todo buf'. decode_messages from_json buf acc = (buf', Inr (acc @ done)) \<and>
    ms = done @ todo \<and> buf = concat (map (framed to_json) done) @ buf' \<and>
    waits_for to_json todo buf'"
  using assms
proof (induction ms arbitrary: buf acc)
  case Nil
  then show ?case by (simp add: decode_messages.simps LENGTH_PREFIX_BYTES_def waits_for_def)
next
  case (Cons m ms)
  show ?case
  proof (cases "length buf < length (framed to_json m)")
    case True
    then have "decode_messages from_json buf acc = (buf, Inr acc)"
      using Cons.prems by (intro decode_waits) auto
    with True show ?thesis
      by (metis append_Nil append_Nil2 concat.simps(1) list.map(1) list.simps(5) waits_for_def)
  next
    case False
    then have "take (length (framed to_json m)) buf = framed to_json m"
      using arg_cong [OF Cons.prems(2), of "take (length (framed to_json m))"] by simp
    then obtain b where b: "buf = framed to_json m @ b" by (metis append_take_drop_id)
    then have "b @ rest = concat (map (framed to_json) ms)" using Cons.prems(2) by simp
    from Cons.IH [OF _ this, of "acc @ [m]"] Cons.prems(1) obtain xs ys buf' where
      d: "decode_messages from_json b (acc @ [m]) = (buf', Inr ((acc @ [m]) @ xs))"
      "ms = xs @ ys" "b = concat (map (framed to_json) xs) @ buf'" "waits_for to_json ys buf'"
      by auto
    have "decode_messages from_json buf acc = (buf', Inr (acc @ m # xs))"
      using d(1) Cons.prems(1) decode_one [OF _ b, of from_json acc] by simp
    moreover have "m # ms = (m # xs) @ ys" "buf = concat (map (framed to_json) (m # xs)) @ buf'"
      by (simp_all add: d(2) b, simp add: d(3))
    ultimately show ?thesis using d(4) by blast
  qed
qed

lemma decoder_push_spec:
  assumes fits: "\<forall>m \<in> set ms. message_fits to_json from_json m"
    and "buffered @ r @ rest = concat (map (framed to_json) ms)"
    and "length r \<le> NOISE_RECORD_PLAINTEXT_LEN"
  shows "\<exists>done todo b. decoder_push from_json r buffered = (b, Inr done) \<and>
    ms = done @ todo \<and> buffered @ r = concat (map (framed to_json) done) @ b \<and>
    waits_for to_json todo b"
proof -
  obtain "done" todo b where d: "decode_messages from_json (buffered @ r) [] = (b, Inr ([] @ done))"
    "ms = done @ todo" "buffered @ r = concat (map (framed to_json) done) @ b"
    "waits_for to_json todo b"
    using decode_messages_spec [of ms to_json from_json "buffered @ r" rest "[]"] assms by auto
  have "length b \<le> LENGTH_PREFIX_BYTES + MAX_NOISE_JSONRPC_MESSAGE_LEN"
    using d(2,4) fits
    by (auto simp: waits_for_def length_framed message_fits_def split: list.splits)
  with d assms(3) show ?thesis by (auto simp: decoder_push_def)
qed

subsection \<open>The writer\<close>

text \<open>
  What the cipher promises: a record sealed by one end is opened by the other when both are
  at the same nonce, and then both are at the next one; sealing adds the tag.
\<close>

definition cipher_pair :: "'t noise_cipher \<Rightarrow> ('t \<Rightarrow> 't \<Rightarrow> bool) \<Rightarrow> bool" where
  "cipher_pair nc synced \<longleftrightarrow>
     (\<forall>s r p s1 c. synced s r \<and> send_vec nc s p = Inr (s1, c) \<longrightarrow>
        length c = length p + tag_len nc \<and>
        (\<exists>r1. receive_vec nc r c = Inr (r1, p) \<and> synced s1 r1))"

primrec seal_all ::
  "'t noise_cipher \<Rightarrow> 't \<Rightarrow> byte list list \<Rightarrow> ('t \<times> byte list list) option" where
  "seal_all nc t [] = Some (t, [])"
| "seal_all nc t (r # rs) =
     (case noise_encrypt nc t r of
        Inl _ \<Rightarrow> None
      | Inr (t1, c) \<Rightarrow>
          (case seal_all nc t1 rs of None \<Rightarrow> None | Some (t2, cs) \<Rightarrow> Some (t2, c # cs)))"

lemma seal_all_append:
  "seal_all nc t (rs @ qs) =
     (case seal_all nc t rs of
        None \<Rightarrow> None
      | Some (t1, cs) \<Rightarrow>
          (case seal_all nc t1 qs of None \<Rightarrow> None | Some (t2, ds) \<Rightarrow> Some (t2, cs @ ds)))"
  by (induction rs arbitrary: t) (auto split: sum.splits prod.splits option.splits)

lemma seal_all_length: "seal_all nc t rs = Some (t1, cs) \<Longrightarrow> length cs = length rs"
  by (induction rs arbitrary: t cs) (auto split: sum.splits prod.splits option.splits)

lemma seal_all_take:
  assumes sealed: "seal_all nc t rs = Some (t1, cs)"
  shows "\<exists>tk. seal_all nc t (take k rs) = Some (tk, take k cs)"
proof -
  obtain tk ds es where ds: "seal_all nc t (take k rs) = Some (tk, ds)" "cs = ds @ es"
    using sealed seal_all_append [of nc t "take k rs" "drop k rs"]
    by (auto split: option.splits prod.splits)
  then have "length ds = min k (length cs)"
    using seal_all_length [OF ds(1)] seal_all_length [OF sealed] by simp
  with ds show ?thesis
    by (metis append_eq_conv_conj min.cobounded2 take_all take_take min_def)
qed

lemma decrypt_sealed:
  assumes "cipher_pair nc synced" "synced s r" "noise_encrypt nc s p = Inr (s1, c)"
  shows "\<exists>r1. noise_decrypt nc r c = Inr (r1, p) \<and> synced s1 r1"
proof -
  from assms(3) have "send_vec nc s p = Inr (s1, c)" "length p + tag_len nc \<le> max_message_len nc"
    by (auto simp: noise_encrypt_def ensure_noise_frame_len_def split: if_splits sum.splits)
  then obtain r1 where "length c = length p + tag_len nc" "receive_vec nc r c = Inr (r1, p)"
    "synced s1 r1" "length c \<le> max_message_len nc"
    using assms(1,2) unfolding cipher_pair_def by metis
  then show ?thesis by (simp add: noise_decrypt_def ensure_noise_frame_len_def)
qed

lemma write_records_seal:
  assumes "write_records nc rs (n, t) = (st, fs, True)"
  shows "\<exists>cs. seal_all nc t rs = Some (snd st, cs) \<and> fst st = n + length rs \<and>
    fs = zip [n..<n + length rs] cs"
  using assms
proof (induction rs arbitrary: n t fs)
  case (Cons r rs)
  from Cons.prems obtain t1 c gs where s: "noise_encrypt nc t r = Inr (t1, c)"
    "write_records nc rs (Suc n, t1) = (st, gs, True)" "fs = (n, c) # gs"
    by (auto simp: take_next_sequence_def split: if_splits sum.splits prod.splits)
  from Cons.IH [OF s(2)] obtain cs where "seal_all nc t1 rs = Some (snd st, cs)"
    "fst st = Suc n + length rs" "gs = zip [Suc n..<Suc n + length rs] cs"
    by blast
  then show ?case using s(1,3) by (simp add: upt_conv_Cons del: upt_Suc)
qed auto

lemma write_messages_seal:
  assumes "write_messages nc to_json ms (n, t) = (st, fs, True)"
  shows "\<exists>rs cs. seal_all nc t rs = Some (snd st, cs) \<and> fst st = n + length rs \<and>
    fs = zip [n..<n + length rs] cs \<and> concat rs = concat (map (framed to_json) ms) \<and>
    (\<forall>r \<in> set rs. length r \<le> NOISE_RECORD_PLAINTEXT_LEN) \<and>
    (\<forall>m \<in> set ms. length (to_json m) \<le> MAX_NOISE_JSONRPC_MESSAGE_LEN)"
  using assms
proof (induction ms arbitrary: n t fs)
  case Nil
  then show ?case by (intro exI [of _ "[]"]) auto
next
  case (Cons m ms)
  let ?rs = "slice_chunks NOISE_RECORD_PLAINTEXT_LEN (framed to_json m)"
  from Cons.prems obtain st1 f1 f2 where
    len: "length (to_json m) \<le> MAX_NOISE_JSONRPC_MESSAGE_LEN"
    and w: "write_records nc ?rs (n, t) = (st1, f1, True)"
      "write_messages nc to_json ms st1 = (st, f2, True)" "fs = f1 @ f2"
    by (auto simp: frame_jsonrpc_message_def framed_def Let_def split: if_splits prod.splits)
  from write_records_seal [OF w(1)] obtain cs where cs: "seal_all nc t ?rs = Some (snd st1, cs)"
    "fst st1 = n + length ?rs" "f1 = zip [n..<n + length ?rs] cs" by blast
  from Cons.IH [of "fst st1" "snd st1" f2] w(2) obtain qs ds where
    qs: "seal_all nc (snd st1) qs = Some (snd st, ds)" "fst st = fst st1 + length qs"
    "f2 = zip [fst st1..<fst st1 + length qs] ds" "concat qs = concat (map (framed to_json) ms)"
    "\<forall>r \<in> set qs. length r \<le> NOISE_RECORD_PLAINTEXT_LEN"
    "\<forall>m \<in> set ms. length (to_json m) \<le> MAX_NOISE_JSONRPC_MESSAGE_LEN" by auto
  have "[n..<n + length (?rs @ qs)] = [n..<n + length ?rs] @ [fst st1..<fst st1 + length qs]"
    using upt_add_eq_append [of n "n + length ?rs" "length qs"] cs(2) by (simp add: add.assoc)
  then have "fs = zip [n..<n + length (?rs @ qs)] (cs @ ds)"
    using cs(3) qs(3) w(3) seal_all_length [OF cs(1)] by simp
  moreover have "seal_all nc t (?rs @ qs) = Some (snd st, cs @ ds)"
    using cs(1) qs(1) by (simp add: seal_all_append)
  moreover have "concat ?rs = framed to_json m"
    by (simp add: concat_chunks NOISE_RECORD_PLAINTEXT_LEN_def)
  ultimately show ?case
    using cs(2) qs(2,4,5,6) len
    by (intro exI [of _ "?rs @ qs"] exI [of _ "cs @ ds"]) (auto dest: chunks_length)
qed

subsection \<open>The reader\<close>

lemma queue_messages_Inr:
  "queue_messages ms s = (s1, Inr u) \<Longrightarrow>
   s1 = s\<lparr>incoming := incoming s @ ms, room := room s - length ms\<rparr> \<and> length ms \<le> room s"
proof (induction ms arbitrary: s)
  case (Cons m ms)
  then have "queue_messages ms (s\<lparr>incoming := incoming s @ [m], room := room s - 1\<rparr>) = (s1, Inr u)"
    "room s \<noteq> 0"
    by (auto split: if_splits)
  from Cons.IH [OF this(1)] this(2) show ?case by auto
qed simp

lemma queue_messages_fits:
  "length ms \<le> room s \<Longrightarrow>
   queue_messages ms s = (s\<lparr>incoming := incoming s @ ms, room := room s - length ms\<rparr>, Inr ())"
  by (induction ms arbitrary: s) auto

text \<open>
  The reader has opened everything the writer sealed up to the state \<open>t\<close> of its cipher,
  and still expects the records \<open>rs\<close>.
\<close>

definition reader_at ::
  "('t \<Rightarrow> 't \<Rightarrow> bool) \<Rightarrow> ('m \<Rightarrow> byte list) \<Rightarrow> 't \<Rightarrow> 'm list \<Rightarrow> byte list list \<Rightarrow> byte list \<Rightarrow> 't \<Rightarrow>
   bool" where
  "reader_at synced to_json t todo rs buf r \<longleftrightarrow>
     synced t r \<and> buf @ concat rs = concat (map (framed to_json) todo) \<and>
     waits_for to_json todo buf"

lemma open_ciphertexts_spec:
  assumes "cipher_pair nc synced" "seal_all nc t rs = Some (t1, cs)"
    and "\<forall>m \<in> set todo. message_fits to_json from_json m"
    and "\<forall>r \<in> set rs. length r \<le> NOISE_RECORD_PLAINTEXT_LEN"
    and "reader_at synced to_json t todo (rs @ qs) (inbound_decoder s) (transport s)"
    and "open_ciphertexts nc from_json cs s = (s1, Inr u)"
  shows "\<exists>new rest. todo = new @ rest \<and> incoming s1 = incoming s @ new \<and>
    inbound_ciphertexts s1 = inbound_ciphertexts s \<and>
    reader_at synced to_json t1 rest qs (inbound_decoder s1) (transport s1)"
  using assms(2-6)
proof (induction rs arbitrary: t cs s todo)
  case Nil
  then show ?case by (intro exI [of _ "[]"] exI [of _ todo]) auto
next
  case (Cons r rs)
  from Cons.prems(1) obtain t0 c ds where e: "noise_encrypt nc t r = Inr (t0, c)"
    "seal_all nc t0 rs = Some (t1, ds)" "cs = c # ds"
    by (auto split: sum.splits prod.splits option.splits)
  from decrypt_sealed [OF assms(1) _ e(1)] Cons.prems(4) obtain r1 where
    r1: "noise_decrypt nc (transport s) c = Inr (r1, r)" "synced t0 r1"
    by (auto simp: reader_at_def)
  obtain ms1 ms2 b where d: "decoder_push from_json r (inbound_decoder s) = (b, Inr ms1)"
    "todo = ms1 @ ms2" "inbound_decoder s @ r = concat (map (framed to_json) ms1) @ b"
    "waits_for to_json ms2 b"
    using decoder_push_spec [of todo to_json from_json "inbound_decoder s" r "concat (rs @ qs)"]
      Cons.prems(2,3,4) by (auto simp: reader_at_def)
  define s0 where "s0 = s\<lparr>transport := r1, inbound_decoder := b\<rparr>"
  from Cons.prems(5) obtain s2 v where q: "queue_messages ms1 s0 = (s2, Inr v)"
    "open_ciphertexts nc from_json ds s2 = (s1, Inr u)"
    by (auto simp: e(3) r1(1) d(1) s0_def split: prod.splits sum.splits)
  note s2 = queue_messages_Inr [OF q(1), THEN conjunct1]
  have "b @ concat (rs @ qs) = concat (map (framed to_json) ms2)"
  proof -
    have "inbound_decoder s @ r @ concat (rs @ qs) = concat (map (framed to_json) todo)"
      using Cons.prems(4) by (simp add: reader_at_def)
    then have "(inbound_decoder s @ r) @ concat (rs @ qs) = concat (map (framed to_json) todo)"
      by simp
    then show ?thesis unfolding d(2,3) by simp
  qed
  then have at: "reader_at synced to_json t0 ms2 (rs @ qs) (inbound_decoder s2) (transport s2)"
    using r1(2) d(4) by (simp add: reader_at_def s2 s0_def)
  have "\<exists>new rest. ms2 = new @ rest \<and> incoming s1 = incoming s2 @ new \<and>
      inbound_ciphertexts s1 = inbound_ciphertexts s2 \<and>
      reader_at synced to_json t1 rest qs (inbound_decoder s1) (transport s1)"
    using Cons.IH [OF e(2) _ _ at q(2)] Cons.prems(2,3) d(2) by auto
  then obtain new rest where "ms2 = new @ rest" "incoming s1 = incoming s2 @ new"
      "inbound_ciphertexts s1 = inbound_ciphertexts s2"
      "reader_at synced to_json t1 rest qs (inbound_decoder s1) (transport s1)" by blast
  then show ?case
    by (intro exI [of _ "ms1 @ new"] exI [of _ rest]) (simp add: d(2) s2 s0_def)
qed

text \<open>
  One stream: records \<open>rs\<close> sealed as \<open>cs\<close> by a writer that started at \<open>t\<close>. The
  reader has opened the first records, as many as its frame order has released.
\<close>

definition stream_at ::
  "'t noise_cipher \<Rightarrow> ('t \<Rightarrow> 't \<Rightarrow> bool) \<Rightarrow> ('m \<Rightarrow> byte list) \<Rightarrow> 't \<Rightarrow> byte list list \<Rightarrow>
   byte list list \<Rightarrow> 'm list \<Rightarrow> ('t, 'm) noise_virtual_stream \<Rightarrow> bool" where
  "stream_at nc synced to_json t rs cs ms s \<longleftrightarrow>
     (let f = inbound_ciphertexts s; j = frames_next_seq f
      in frames_inv f \<and> in_run 0 cs j (frames_pending f) False \<and>
         (\<exists>tj todo. seal_all nc t (take j rs) = Some (tj, take j cs) \<and> ms = incoming s @ todo \<and>
            reader_at synced to_json tj todo (drop j rs) (inbound_decoder s) (transport s)))"

lemma receive_data_step:
  assumes pair: "cipher_pair nc synced" and sealed: "seal_all nc t rs = Some (t1, cs)"
    and fits: "\<forall>m \<in> set ms. message_fits to_json from_json m"
    and small: "\<forall>r \<in> set rs. length r \<le> NOISE_RECORD_PLAINTEXT_LEN"
    and at: "stream_at nc synced to_json t rs cs ms s"
    and copy: "copies_of 0 cs [d]"
    and recv: "receive_data nc from_json d s = (s1, Inr u)"
  shows "stream_at nc synced to_json t rs cs ms s1"
    and "\<exists>out. offer_frame (fst d) (snd d) (inbound_ciphertexts s) =
      Some (inbound_ciphertexts s1, out)"
proof -
  define f where "f = inbound_ciphertexts s"
  define j where "j = frames_next_seq f"
  from recv obtain f1 out where push: "frames_push (fst d) (snd d) f = (f1, Inr out)"
    and opened: "open_ciphertexts nc from_json out (s\<lparr>inbound_ciphertexts := f1\<rparr>) = (s1, Inr u)"
    by (auto simp: receive_data_def f_def split: prod.splits sum.splits)
  then have offer: "offer_frame (fst d) (snd d) f = Some (f1, out)" by (simp add: offer_frame_def)
  from at obtain tj todo where st: "frames_inv f" "in_run 0 cs j (frames_pending f) False"
    "seal_all nc t (take j rs) = Some (tj, take j cs)" "ms = incoming s @ todo"
    "reader_at synced to_json tj todo (drop j rs) (inbound_decoder s) (transport s)"
    by (auto simp: stream_at_def Let_def f_def j_def)
  define k where "k = frames_next_seq f1"
  have step: "out = take (k - j) (drop j cs)" "j \<le> k" "in_run 0 cs k (frames_pending f1) False"
    using frames.offer_step [OF st(1) offer, of 0 cs] copy st(2)
    by (auto simp: final_last_def j_def k_def)
  have inv1: "frames_inv f1" by (rule frames.offer_inv [OF st(1) offer])
  have take_k: "take k xs = take j xs @ take (k - j) (drop j xs)" for xs :: "byte list list"
    using step(2) by (metis le_add_diff_inverse take_add)
  obtain tk where tk: "seal_all nc t (take k rs) = Some (tk, take k cs)"
    using seal_all_take [OF sealed] by blast
  then have seg: "seal_all nc tj (take (k - j) (drop j rs)) = Some (tk, out)"
    using st(3) unfolding take_k [of rs] take_k [of cs] seal_all_append step(1)
    by (auto split: option.splits prod.splits)
  have dropj: "drop j rs = take (k - j) (drop j rs) @ drop k rs"
    using step(2) by (metis append_take_drop_id drop_drop le_add_diff_inverse2)
  define s0 where "s0 = s\<lparr>inbound_ciphertexts := f1\<rparr>"
  have "\<exists>new rest. todo = new @ rest \<and> incoming s1 = incoming s0 @ new \<and>
      inbound_ciphertexts s1 = inbound_ciphertexts s0 \<and>
      reader_at synced to_json tk rest (drop k rs) (inbound_decoder s1) (transport s1)"
    using fits small st(4,5) opened dropj
    by (intro open_ciphertexts_spec [OF pair seg]) (auto simp: s0_def dest: in_set_takeD in_set_dropD)
  then obtain new rest where n: "todo = new @ rest" "incoming s1 = incoming s @ new"
    "inbound_ciphertexts s1 = f1"
    "reader_at synced to_json tk rest (drop k rs) (inbound_decoder s1) (transport s1)"
    by (auto simp: s0_def)
  show "stream_at nc synced to_json t rs cs ms s1"
    using n tk inv1 step(3) st(4) by (auto simp: stream_at_def Let_def k_def)
  show "\<exists>out. offer_frame (fst d) (snd d) (inbound_ciphertexts s) =
      Some (inbound_ciphertexts s1, out)"
    using offer n(3) by (auto simp: f_def)
qed

lemma receive_all_run:
  assumes pair: "cipher_pair nc synced" and sealed: "seal_all nc t rs = Some (t1, cs)"
    and fits: "\<forall>m \<in> set ms. message_fits to_json from_json m"
    and small: "\<forall>r \<in> set rs. length r \<le> NOISE_RECORD_PLAINTEXT_LEN"
    and "stream_at nc synced to_json t rs cs ms s" "copies_of 0 cs ds"
    and "receive_all nc from_json ds s = (s1, Inr u)"
  shows "stream_at nc synced to_json t rs cs ms s1 \<and>
    (\<exists>out. feed offer_frame ds (inbound_ciphertexts s) = Some (inbound_ciphertexts s1, out))"
  using assms(5-7)
proof (induction ds arbitrary: s)
  case (Cons d ds)
  then obtain s2 v where r: "receive_data nc from_json d s = (s2, Inr v)"
    "receive_all nc from_json ds s2 = (s1, Inr u)"
    by (auto split: prod.splits sum.splits)
  have c: "copies_of 0 cs [d]" "copies_of 0 cs ds"
    using Cons.prems(2) by (auto simp: copies_of_def)
  note step = receive_data_step [OF pair sealed fits small Cons.prems(1) c(1) r(1)]
  from Cons.IH [OF step(1) c(2) r(2)] step(2) show ?case by (auto split: option.splits)
qed simp

lemma stream_at_start:
  assumes "\<forall>m \<in> set ms. message_fits to_json from_json m" "synced t r"
    and "concat rs = concat (map (framed to_json) ms)"
  shows "stream_at nc synced to_json t rs cs ms (new_virtual_stream r capacity)"
  using assms
  by (auto simp: stream_at_def new_virtual_stream_def frames_default_def frames_inv_def in_run_def
      reader_at_def waits_for_def length_framed LENGTH_PREFIX_BYTES_def split: list.splits)


text \<open>A cipher with a counter as its nonce, for the example.\<close>

definition counter_cipher :: "nat noise_cipher" where
  "counter_cipher =
     \<lparr>max_message_len = 65535, tag_len = 2,
      send_vec = (\<lambda>n p. Inr (n + 1, p @ be_bytes 2 n)),
      receive_vec = (\<lambda>n c.
        if drop (length c - 2) c = be_bytes 2 n then Inr (n + 1, take (length c - 2) c)
        else Inl [])\<rparr>"

lemma counter_cipher_pair: "cipher_pair counter_cipher (=)"
  by (simp add: cipher_pair_def counter_cipher_def)


subsection \<open>The handshake prologue\<close>

lemma prologue_part_split:
  assumes "be_bytes 8 (length a) @ a @ x = be_bytes 8 (length b) @ b @ y"
    and "length a < 256 ^ 8" "length b < 256 ^ 8"
  shows "a = b \<and> x = y"
proof -
  have "be_bytes 8 (length a) = be_bytes 8 (length b)" "a @ x = b @ y"
    using assms(1) by (simp_all add: append_eq_append_conv)
  moreover from this(1) assms(2,3) have "length a = length b" by (rule be_bytes_inj)
  ultimately show ?thesis by (simp add: append_eq_append_conv)
qed

text \<open>
  C39. The prologue of a handshake determines the environment, the registration and the
  stream it was made for: no two different triples of identifiers share one, so a handshake
  cannot be spliced onto another stream.
\<close>

theorem noise_prologue_injective:
  assumes "noise_channel_prologue e1 r1 s1 = noise_channel_prologue e2 r2 s2"
    and "length e1 < 2 ^ 64" "length r1 < 2 ^ 64" "length s1 < 2 ^ 64"
    and "length e2 < 2 ^ 64" "length r2 < 2 ^ 64" "length s2 < 2 ^ 64"
  shows "e1 = e2 \<and> r1 = r2 \<and> s1 = s2"
proof -
  note len = assms(2-)
  have "be_bytes 8 (length e1) @ e1 @ be_bytes 8 (length r1) @ r1 @ be_bytes 8 (length s1) @ s1 @ [] =
      be_bytes 8 (length e2) @ e2 @ be_bytes 8 (length r2) @ r2 @ be_bytes 8 (length s2) @ s2 @ []"
    using assms(1) by (simp add: noise_channel_prologue_def append_prologue_part_def)
  from prologue_part_split [OF this] len have e: "e1 = e2" and
    "be_bytes 8 (length r1) @ r1 @ be_bytes 8 (length s1) @ s1 @ [] =
     be_bytes 8 (length r2) @ r2 @ be_bytes 8 (length s2) @ s2 @ []" by simp_all
  from prologue_part_split [OF this(2)] len have r: "r1 = r2" and
    "be_bytes 8 (length s1) @ s1 @ [] = be_bytes 8 (length s2) @ s2 @ []" by simp_all
  from prologue_part_split [OF this(2)] len e r show ?thesis by simp
qed

theorem noise_prologue_injective_witness:
  "noise_channel_prologue [1] [2, 3] [4] = noise_channel_prologue [1] [2, 3] [4] \<and>
   noise_channel_prologue [1, 2] [3] [4] \<noteq> noise_channel_prologue [1] [2, 3] [4]"
  using noise_prologue_injective [of "[1, 2]" "[3]" "[4]" "[1]" "[2, 3]" "[4]"] by auto

end
