(* ===== verification/Session_Events.thy ===== *)
theory Session_Events
  imports Exec_Process Reorder_Buffer
begin

section \<open>Process sessions of the exec-server client\<close>

text \<open>
  The ordered event publisher of \<^verbatim>\<open>exec-server/src/client.rs\<close> and the recovery after
  a reconnect of \<^verbatim>\<open>exec-server/src/client_recovery.rs\<close>. Notifications of one process
  come from different server tasks and can arrive out of order; a session publishes them in
  order, and after a reconnect fills the gap from one \<^verbatim>\<open>process/read\<close>, working out
  the number of an exit event it never saw.
\<close>

definition MAX_PENDING_PROCESS_EVENTS :: nat where "MAX_PENDING_PROCESS_EVENTS = 256"
definition MAX_PENDING_PROCESS_EVENT_BYTES :: nat where
  "MAX_PENDING_PROCESS_EVENT_BYTES = 1024 * 1024"
definition PROCESS_EVENT_RETAINED_BYTES :: nat where
  "PROCESS_EVENT_RETAINED_BYTES = 1024 * 1024"

record ordered_session_events =
  last_published_seq :: nat
  exit_published :: bool
  closed_published :: bool
  pending :: "(nat \<times> exec_process_event) list"
  pending_bytes :: nat
  failure :: "rstring option"

record session_state =
  wake :: nat
  events :: exec_process_event_log
  ordered_events :: ordered_session_events
  recoverable :: bool
  write_counter :: nat

definition no_ordered_events :: ordered_session_events where
  "no_ordered_events =
     \<lparr>last_published_seq = 0, exit_published = False, closed_published = False,
      pending = [], pending_bytes = 0, failure = None\<rparr>"

definition new_session_state :: "bool \<Rightarrow> session_state" where
  "new_session_state recov =
     \<lparr>wake = 0,
      events = new_event_log PROCESS_EVENT_CHANNEL_CAPACITY PROCESS_EVENT_RETAINED_BYTES,
      ordered_events = no_ordered_events, recoverable = recov, write_counter = 1\<rparr>"

definition next_write_id :: "session_state \<Rightarrow> session_state \<times> rstring" where
  "next_write_id s =
     (s\<lparr>write_counter := (write_counter s + 1) mod 2 ^ 64\<rparr>, dec (write_counter s))"

definition note_change :: "nat \<Rightarrow> session_state \<Rightarrow> session_state" where
  "note_change seq s = s\<lparr>wake := max (wake s) seq\<rparr>"

definition pending_process_event_bytes :: "exec_process_event \<Rightarrow> nat" where
  "pending_process_event_bytes e =
     (case e of
        Output c \<Rightarrow> length (chunk_data c)
      | Failed m \<Rightarrow> utf8_len m
      | Exited _ _ \<Rightarrow> 0
      | ClosedEvent _ \<Rightarrow> 0)"

definition insert_pending ::
  "exec_process_event \<Rightarrow> ordered_session_events \<Rightarrow> (rstring, ordered_session_events) result" where
  "insert_pending e oe =
     (case seq_of e of
        None \<Rightarrow> Inl (str ''cannot reorder an unsequenced process event'')
      | Some seq \<Rightarrow>
          (if seq \<in> fst ` set (pending oe) then Inr oe
           else let next_seq = saturating_add (last_published_seq oe) 1;
                    closes_gap = (seq = next_seq)
                in if \<not> closes_gap \<and> length (pending oe) \<ge> MAX_PENDING_PROCESS_EVENTS
                   then Inl (str ''process event reorder buffer exceeds ''
                          @ dec MAX_PENDING_PROCESS_EVENTS @ str '' entries'')
                   else let event_bytes = pending_process_event_bytes e
                        in if event_bytes > MAX_PENDING_PROCESS_EVENT_BYTES
                           then Inl (str ''process event exceeds ''
                                  @ dec MAX_PENDING_PROCESS_EVENT_BYTES @ str '' bytes'')
                           else let bytes = saturating_add (pending_bytes oe) event_bytes
                                in if \<not> closes_gap \<and> bytes > MAX_PENDING_PROCESS_EVENT_BYTES
                                   then Inl (str ''process event reorder buffer exceeds ''
                                          @ dec MAX_PENDING_PROCESS_EVENT_BYTES @ str '' bytes'')
                                   else Inr (oe\<lparr>pending := (seq, e) # pending oe,
                                                 pending_bytes := bytes\<rparr>)))"

text \<open>
  The loop removes the next event as long as it is pending; the result says whether the
  closed event was among those published.
\<close>

function publish_ready :: "session_state \<Rightarrow> session_state \<times> bool" where
  "publish_ready s =
     (let oe = ordered_events s; next_seq = saturating_add (last_published_seq oe) 1
      in case map_of (pending oe) next_seq of
           None \<Rightarrow> (s, False)
         | Some e \<Rightarrow>
             (let oe1 = oe\<lparr>pending := filter (\<lambda>(k, _). k \<noteq> next_seq) (pending oe),
                           pending_bytes := pending_bytes oe - pending_process_event_bytes e,
                           last_published_seq := next_seq,
                           exit_published := exit_published oe \<or> is_Exited e,
                           closed_published := closed_published oe \<or> is_ClosedEvent e\<rparr>
              in case publish_ready (s\<lparr>ordered_events := oe1, events := publish e (events s)\<rparr>) of
                   (s2, later_closed) \<Rightarrow> (s2, is_ClosedEvent e \<or> later_closed)))"
  by pat_completeness auto

termination
proof (relation "measure (\<lambda>s. length (pending (ordered_events s)))", goal_cases)
  case (2 s oe next_seq e)
  then have "length (filter (\<lambda>(k, _). k \<noteq> next_seq) (pending oe)) < length (pending oe)"
    by (auto dest!: map_of_SomeD intro!: length_filter_less)
  with 2 show ?case by simp
qed simp

declare publish_ready.simps [simp del]

text \<open>\<^verbatim>\<open>insert_pending(e)?; Ok(publish_ready())\<close>, as all callers but one pair them.\<close>

definition insert_and_publish ::
  "exec_process_event \<Rightarrow> session_state \<Rightarrow> session_state \<times> (rstring, bool) result" where
  "insert_and_publish e s =
     (case insert_pending e (ordered_events s) of
        Inl m \<Rightarrow> (s, Inl m)
      | Inr oe \<Rightarrow>
          (case publish_ready (s\<lparr>ordered_events := oe\<rparr>) of (s1, was_closed) \<Rightarrow> (s1, Inr was_closed)))"

definition publish_ordered_event ::
  "exec_process_event \<Rightarrow> session_state \<Rightarrow> session_state \<times> (rstring, bool) result" where
  "publish_ordered_event e s =
     (case seq_of e of
        None \<Rightarrow> (s\<lparr>events := publish e (events s)\<rparr>, Inr False)
      | Some seq \<Rightarrow>
          (let oe = ordered_events s
           in if failure oe \<noteq> None \<or> closed_published oe \<or> seq \<le> last_published_seq oe
              then (s, Inr False)
              else insert_and_publish e s))"

definition set_failure :: "rstring \<Rightarrow> session_state \<Rightarrow> session_state" where
  "set_failure message s =
     (let oe = ordered_events s
      in if failure oe \<noteq> None \<or> closed_published oe then s
         else s\<lparr>ordered_events := oe\<lparr>failure := Some message, pending := [], pending_bytes := 0\<rparr>,
                events := publish (Failed message) (events s),
                wake := saturating_add (wake s) 1\<rparr>)"

definition synthesized_failure :: "rstring \<Rightarrow> session_state \<Rightarrow> read_response" where
  "synthesized_failure message s =
     \<lparr>resp_chunks = [], resp_next_seq = saturating_add (wake s) 1, resp_exited = True,
      resp_exit_code = None, resp_closed = True, resp_failure = Some message\<rparr>"

definition failed_response :: "session_state \<Rightarrow> read_response option" where
  "failed_response s =
     map_option (\<lambda>message. synthesized_failure message s) (failure (ordered_events s))"

text \<open>
  The effect on the session of the result of one notification; the flag says that its route
  is removed.
\<close>

definition finish_process_event ::
  "(rstring, bool) result \<Rightarrow> session_state \<Rightarrow> session_state \<times> bool" where
  "finish_process_event result s =
     (case result of
        Inr was_closed \<Rightarrow> (s, was_closed)
      | Inl message \<Rightarrow> (set_failure message s, True))"

text \<open>The three process notifications; their events carry the sequence number \<open>seq\<close>.\<close>

definition handle_process_notification ::
  "nat \<Rightarrow> exec_process_event \<Rightarrow> session_state \<Rightarrow> session_state \<times> bool" where
  "handle_process_notification seq e s =
     (case publish_ordered_event e s of
        (s1, result) \<Rightarrow>
          finish_process_event result
            (case result of Inr _ \<Rightarrow> note_change seq s1 | Inl _ \<Rightarrow> s1))"

subsection \<open>Recovery\<close>

text \<open>
  A recovery in progress: the session, whether the exit event is known, whether the closed
  event was published. An error leaves what was done so far in place.
\<close>

type_synonym recovery = "session_state \<times> bool \<times> bool"

definition recovery_gap_error :: "nat \<Rightarrow> rstring" where
  "recovery_gap_error target_seq =
     str ''process events are no longer retained while recovering through sequence '' @ dec target_seq"

fun missing_from :: "nat \<Rightarrow> nat list \<Rightarrow> nat" where
  "missing_from expected [] = expected"
| "missing_from expected (seq # seqs) =
     (if seq \<noteq> expected then expected else missing_from (saturating_add expected 1) seqs)"

definition first_missing_seq :: "ordered_session_events \<Rightarrow> nat \<Rightarrow> nat" where
  "first_missing_seq oe target_seq =
     (let expected = saturating_add (last_published_seq oe) 1
      in missing_from expected
           (sort (filter (\<lambda>k. expected \<le> k \<and> k \<le> target_seq) (map fst (pending oe)))))"

definition no_exit_code :: rstring where
  "no_exit_code = str ''recovering exited process did not include its exit code''"

definition recover_event :: "exec_process_event \<Rightarrow> bool \<Rightarrow> recovery \<Rightarrow> recovery \<times> rstring option" where
  "recover_event e known_after st =
     (case st of (s, exit_known, published_closed) \<Rightarrow>
        (case insert_and_publish e s of
           (s1, Inl m) \<Rightarrow> ((s1, exit_known, published_closed), Some m)
         | (s1, Inr was_closed) \<Rightarrow> ((s1, known_after, published_closed \<or> was_closed), None)))"

text \<open>
  One chunk: a gap before it is taken for the exit event, when that is the one still unknown.
\<close>

definition recover_exit_before ::
  "bool \<Rightarrow> int option \<Rightarrow> process_output_chunk \<Rightarrow> recovery \<Rightarrow> recovery \<times> rstring option" where
  "recover_exit_before was_exited code c st =
     (let next_seq = saturating_add (last_published_seq (ordered_events (fst st))) 1
      in if was_exited \<and> \<not> fst (snd st) \<and> chunk_seq c > next_seq
         then (case code of
                 None \<Rightarrow> (st, Some no_exit_code)
               | Some x \<Rightarrow> recover_event (Exited next_seq x) True st)
         else (st, None))"

definition recover_output ::
  "process_output_chunk \<Rightarrow> recovery \<Rightarrow> recovery \<times> rstring option" where
  "recover_output c st =
     (if chunk_seq c > last_published_seq (ordered_events (fst st))
      then recover_event (Output c) (fst (snd st)) st
      else (st, None))"

definition recover_chunk ::
  "bool \<Rightarrow> int option \<Rightarrow> nat \<Rightarrow> process_output_chunk \<Rightarrow> recovery \<Rightarrow> recovery \<times> rstring option" where
  "recover_chunk was_exited code target_seq c st =
     (if chunk_seq c > target_seq
      then (st, Some (str ''recovered process output sequence '' @ dec (chunk_seq c)
                 @ str '' exceeds target sequence '' @ dec target_seq))
      else case recover_exit_before was_exited code c st of
             (st1, Some m) \<Rightarrow> (st1, Some m)
           | (st1, None) \<Rightarrow> recover_output c st1)"

primrec recover_chunks ::
  "bool \<Rightarrow> int option \<Rightarrow> nat \<Rightarrow> process_output_chunk list \<Rightarrow> recovery \<Rightarrow>
   recovery \<times> rstring option" where
  "recover_chunks was_exited code target_seq [] st = (st, None)"
| "recover_chunks was_exited code target_seq (c # cs) st =
     (case recover_chunk was_exited code target_seq c st of
        (st1, Some m) \<Rightarrow> (st1, Some m)
      | (st1, None) \<Rightarrow> recover_chunks was_exited code target_seq cs st1)"

definition recover_closed ::
  "bool \<Rightarrow> nat \<Rightarrow> ordered_session_events \<Rightarrow> (rstring, ordered_session_events) result" where
  "recover_closed was_closed target_seq oe =
     (if was_closed \<and> \<not> closed_published oe \<and>
         \<not> (case map_of (pending oe) target_seq of Some e \<Rightarrow> is_ClosedEvent e | None \<Rightarrow> False)
      then insert_pending (ClosedEvent target_seq) oe else Inr oe)"

definition missing_count :: "nat \<Rightarrow> ordered_session_events \<Rightarrow> nat" where
  "missing_count target_seq oe =
     (let event_count = target_seq - last_published_seq oe;
          first_unpublished = saturating_add (last_published_seq oe) 1;
          retained_count = (if first_unpublished \<le> target_seq
            then length (filter (\<lambda>(k, _). first_unpublished \<le> k \<and> k \<le> target_seq) (pending oe))
            else 0)
      in event_count - retained_count)"

definition recover_missing ::
  "bool \<Rightarrow> int option \<Rightarrow> nat \<Rightarrow> bool \<Rightarrow> ordered_session_events \<Rightarrow>
   (rstring, ordered_session_events) result" where
  "recover_missing was_exited code target_seq exit_known oe =
     (if was_exited \<and> \<not> exit_known
      then (if missing_count target_seq oe \<noteq> 1 then Inl (recovery_gap_error target_seq)
            else case code of
                   None \<Rightarrow> Inl no_exit_code
                 | Some x \<Rightarrow> insert_pending (Exited (first_missing_seq oe target_seq) x) oe)
      else if missing_count target_seq oe \<noteq> 0 then Inl (recovery_gap_error target_seq)
      else Inr oe)"

definition recover_rest ::
  "read_response \<Rightarrow> nat \<Rightarrow> recovery \<Rightarrow> session_state \<times> (rstring, bool) result" where
  "recover_rest r target_seq st =
     (case st of (s, exit_known, published_closed) \<Rightarrow>
        (case recover_closed (resp_closed r) target_seq (ordered_events s) of
           Inl m \<Rightarrow> (s, Inl m)
         | Inr oe1 \<Rightarrow>
             (case recover_missing (resp_exited r) (resp_exit_code r) target_seq exit_known oe1 of
                Inl m \<Rightarrow> (s\<lparr>ordered_events := oe1\<rparr>, Inl m)
              | Inr oe2 \<Rightarrow>
                  (case publish_ready (s\<lparr>ordered_events := oe2\<rparr>) of
                     (s3, was_closed) \<Rightarrow>
                       (note_change target_seq s3, Inr (published_closed \<or> was_closed))))))"

definition close_conflict :: "read_response \<Rightarrow> nat \<Rightarrow> ordered_session_events \<Rightarrow> bool" where
  "close_conflict r target_seq oe \<longleftrightarrow>
     resp_closed r \<and>
     ((case map_of (pending oe) target_seq of Some e \<Rightarrow> \<not> is_ClosedEvent e | None \<Rightarrow> False) \<or>
      (\<exists>c \<in> set (resp_chunks r). chunk_seq c = target_seq))"

definition exit_pending :: "nat \<Rightarrow> ordered_session_events \<Rightarrow> bool" where
  "exit_pending target_seq oe \<longleftrightarrow>
     (\<exists>(k, e) \<in> set (pending oe). k \<le> target_seq \<and> is_Exited e)"

definition recover_events ::
  "read_response \<Rightarrow> session_state \<Rightarrow> session_state \<times> (rstring, bool) result" where
  "recover_events r s =
     (case resp_failure r of
        Some m \<Rightarrow> (s, Inl (str ''process failed while recovering: '' @ m))
      | None \<Rightarrow>
          (let target_seq = resp_next_seq r - 1; oe = ordered_events s
           in if failure oe \<noteq> None \<or> closed_published oe \<or> target_seq \<le> last_published_seq oe
              then (s, Inr False)
              else if close_conflict r target_seq oe
              then (s, Inl (str ''process close sequence '' @ dec target_seq
                     @ str '' conflicts with recovered output''))
              else case recover_chunks (resp_exited r) (resp_exit_code r) target_seq (resp_chunks r)
                          (s, exit_published oe \<or> exit_pending target_seq oe, False) of
                     (st, Some m) \<Rightarrow> (fst st, Inl m)
                   | (st, None) \<Rightarrow> recover_rest r target_seq st))"

text \<open>
  The body of the loop of \<^verbatim>\<open>recover_processes\<close> once the read has been answered and, on
  an error, the server has answered the request to terminate the process; the flag says that
  the route of the session is removed.
\<close>

definition recover_process ::
  "process_id \<Rightarrow> read_response \<Rightarrow> session_state \<Rightarrow> session_state \<times> bool" where
  "recover_process pid r s =
     (if \<not> recoverable s then (s, False)
      else case recover_events r s of
             (s1, Inr was_closed) \<Rightarrow> (s1, was_closed)
           | (s1, Inl m) \<Rightarrow>
               (set_failure (str ''failed to recover process '' @ pid @ str '': ''
                  @ str ''exec-server protocol error: '' @ m) s1, True))"

text \<open>
  A client session beside the server's process. The server's events reach the session in any
  order and any number of times, or not at all; replies to reads are delayed at will; the
  connection may be given up at any time.
\<close>

record remote_process =
  rm_process :: running_process
  rm_replies :: "read_response list"
  rm_session :: session_state

inductive remote_step :: "remote_process \<Rightarrow> remote_process \<Rightarrow> bool" where
  remote_server: "process_step (rm_process y) p \<Longrightarrow> remote_step y (y\<lparr>rm_process := p\<rparr>)"
| remote_notify: "e \<in> set (live (rp_events (rm_process y))) \<Longrightarrow> seq_of e = Some seq \<Longrightarrow>
    remote_step y (y\<lparr>rm_session := fst (handle_process_notification seq e (rm_session y))\<rparr>)"
| remote_read: "remote_step y (y\<lparr>rm_replies :=
    read_process (Some after) None (rm_process y) # rm_replies y\<rparr>)"
| remote_recover: "r \<in> set (rm_replies y) \<Longrightarrow>
    remote_step y (y\<lparr>rm_session := fst (recover_process pid r (rm_session y))\<rparr>)"
| remote_fail: "remote_step y (y\<lparr>rm_session := set_failure m (rm_session y)\<rparr>)"

inductive remote_reachable :: "remote_process \<Rightarrow> bool" where
  remote_start: "process_reachable p \<Longrightarrow>
    remote_reachable \<lparr>rm_process = p, rm_replies = [], rm_session = new_session_state recov\<rparr>"
| remote_next: "remote_reachable y \<Longrightarrow> remote_step y z \<Longrightarrow> remote_reachable z"

end
