(* ===== verification/Session_Events_Correct.thy ===== *)
theory Session_Events_Correct
  imports Session_Events Output_Pipeline
begin

section \<open>A client session publishes the server's log\<close>

text \<open>
  The client's session is a second reorder buffer, so the laws of \<open>reorder_buffer\<close> hold for
  its notifications. For recovery the theory shows that the exit event the client makes up
  either has the number the server gave it or leaves a gap that makes the recovery fail.
\<close>

definition stopped_session :: "session_state \<Rightarrow> bool" where
  "stopped_session s \<longleftrightarrow>
     failure (ordered_events s) \<noteq> None \<or> closed_published (ordered_events s)"

abbreviation published_seq :: "session_state \<Rightarrow> nat" where
  "published_seq s \<equiv> last_published_seq (ordered_events s)"

abbreviation pending_of_session :: "session_state \<Rightarrow> (nat \<times> exec_process_event) list" where
  "pending_of_session s \<equiv> pending (ordered_events s)"

abbreviation pending_keys :: "session_state \<Rightarrow> nat set" where
  "pending_keys s \<equiv> fst ` set (pending_of_session s)"

definition session_inv :: "session_state \<Rightarrow> bool" where
  "session_inv s \<longleftrightarrow>
     distinct (map fst (pending_of_session s)) \<and> published_seq s < usize_max \<and>
     (\<forall>k \<in> pending_keys s. Suc (published_seq s) < k \<and> k < usize_max)"

text \<open>One notification, unless it makes the session fail.\<close>

definition offer_event ::
  "nat \<Rightarrow> exec_process_event \<Rightarrow> session_state \<Rightarrow>
   (session_state \<times> exec_process_event list) option" where
  "offer_event q e s =
     (let s1 = fst (handle_process_notification q e s)
      in if seq_of e = Some q \<and> q < usize_max \<and>
            failure (ordered_events s1) = failure (ordered_events s)
         then Some (s1, drop (length (live (events s))) (live (events s1))) else None)"

subsection \<open>Publishing\<close>

lemma publish_ready_release:
  assumes "publish_ready s = (s1, c)" "published_seq s < usize_max"
    and "\<forall>k \<in> pending_keys s. k < usize_max"
  shows "\<exists>xs. release (Suc (published_seq s)) (pending_of_session s) =
      (xs, Suc (published_seq s1), pending_of_session s1) \<and>
    live (events s1) = live (events s) @ xs \<and>
    exit_published (ordered_events s1) =
      (exit_published (ordered_events s) \<or> (\<exists>e \<in> set xs. is_Exited e)) \<and>
    closed_published (ordered_events s1) =
      (closed_published (ordered_events s) \<or> (\<exists>e \<in> set xs. is_ClosedEvent e)) \<and>
    failure (ordered_events s1) = failure (ordered_events s) \<and> published_seq s1 < usize_max"
  using assms
proof (induction s arbitrary: s1 c rule: publish_ready.induct)
  case (1 s)
  let ?oe = "ordered_events s" and ?n = "Suc (published_seq s)"
  have n: "saturating_add (published_seq s) 1 = ?n" "saturating_add (published_seq s) (Suc 0) = ?n"
    using 1(3) by (simp_all add: saturating_add_def)
  show ?case
  proof (cases "map_of (pending ?oe) ?n")
    case None
    then have "publish_ready s = (s, False)"
      by (subst publish_ready.simps) (simp add: n Let_def)
    with None 1(2,3) show ?thesis by (auto simp: release_None)
  next
    case (Some e)
    let ?s = "s\<lparr>ordered_events := ?oe\<lparr>pending := filter (\<lambda>(k, _). k \<noteq> ?n) (pending ?oe),
        pending_bytes := pending_bytes ?oe - pending_process_event_bytes e,
        last_published_seq := ?n, exit_published := exit_published ?oe \<or> is_Exited e,
        closed_published := closed_published ?oe \<or> is_ClosedEvent e\<rparr>,
      events := publish e (events s)\<rparr>"
    obtain s2 c2 where r: "publish_ready ?s = (s2, c2)" by force
    have s1: "s1 = s2"
      using 1(2) Some r by (subst (asm) publish_ready.simps) (simp add: n Let_def)
    have key: "?n < usize_max" using map_of_SomeD [OF Some] 1(4) by force
    have "\<forall>k \<in> pending_keys ?s. k < usize_max" using 1(4) by auto
    from 1(1) [OF refl refl, unfolded n, OF Some refl _ _ this] r key
    obtain xs where xs: "release (Suc ?n) (filter (\<lambda>(k, _). k \<noteq> ?n) (pending ?oe)) =
        (xs, Suc (published_seq s2), pending_of_session s2)"
      "live (events s2) = live (events s) @ e # xs"
      "exit_published (ordered_events s2) =
        ((exit_published ?oe \<or> is_Exited e) \<or> (\<exists>e \<in> set xs. is_Exited e))"
      "closed_published (ordered_events s2) =
        ((closed_published ?oe \<or> is_ClosedEvent e) \<or> (\<exists>e \<in> set xs. is_ClosedEvent e))"
      "failure (ordered_events s2) = failure ?oe" "published_seq s2 < usize_max"
      by (auto simp: live_publish)
    from release_Some [OF Some xs(1)] xs(2-) show ?thesis
      by (intro exI [of _ "e # xs"]) (auto simp: s1)
  qed
qed

lemma insert_pending_Inr:
  assumes "insert_pending e oe = Inr oe1" "seq_of e = Some k"
  shows "oe1 = oe\<lparr>pending := (if k \<in> fst ` set (pending oe) then pending oe else (k, e) # pending oe),
    pending_bytes := pending_bytes oe1\<rparr>"
  using assms by (auto simp: insert_pending_def Let_def split: if_splits)

text \<open>What one event does to a session that accepts it.\<close>

lemma insert_and_publish_release:
  assumes "insert_and_publish e s = (s1, Inr c)" "seq_of e = Some k" "session_inv s"
    and "published_seq s < k" "k < usize_max"
  shows "\<exists>xs. release (Suc (published_seq s))
      (if k \<in> pending_keys s then pending_of_session s else (k, e) # pending_of_session s) =
      (xs, Suc (published_seq s1), pending_of_session s1) \<and>
    live (events s1) = live (events s) @ xs \<and>
    exit_published (ordered_events s1) =
      (exit_published (ordered_events s) \<or> (\<exists>e \<in> set xs. is_Exited e)) \<and>
    closed_published (ordered_events s1) =
      (closed_published (ordered_events s) \<or> (\<exists>e \<in> set xs. is_ClosedEvent e)) \<and>
    failure (ordered_events s1) = failure (ordered_events s) \<and> session_inv s1"
proof -
  from assms(1) obtain oe where oe: "insert_pending e (ordered_events s) = Inr oe"
    "publish_ready (s\<lparr>ordered_events := oe\<rparr>) = (s1, c)"
    by (auto simp: insert_and_publish_def split: sum.splits prod.splits)
  define p where
    "p = (if k \<in> pending_keys s then pending_of_session s else (k, e) # pending_of_session s)"
  note ins = insert_pending_Inr [OF oe(1) assms(2)]
  have oe_sel: "pending oe = p" "last_published_seq oe = published_seq s"
    "exit_published oe = exit_published (ordered_events s)"
    "closed_published oe = closed_published (ordered_events s)"
    "failure oe = failure (ordered_events s)"
    by (subst ins; simp add: p_def)+
  have keys: "\<forall>k \<in> fst ` set p. k < usize_max" "distinct (map fst p)"
    "\<forall>k \<in> fst ` set p. published_seq s < k"
    using assms(3-5) by (auto simp: session_inv_def p_def)
  have "published_seq s < usize_max" using assms(3) by (simp add: session_inv_def)
  then obtain xs where xs: "release (Suc (published_seq s)) p =
      (xs, Suc (published_seq s1), pending_of_session s1)"
    "live (events s1) = live (events s) @ xs"
    "exit_published (ordered_events s1) =
      (exit_published (ordered_events s) \<or> (\<exists>e \<in> set xs. is_Exited e))"
    "closed_published (ordered_events s1) =
      (closed_published (ordered_events s) \<or> (\<exists>e \<in> set xs. is_ClosedEvent e))"
    "failure (ordered_events s1) = failure (ordered_events s)" "published_seq s1 < usize_max"
    using publish_ready_release [OF oe(2)] keys(1) by (auto simp: oe_sel)
  note spec = release_spec [OF xs(1)]
  have p1: "pending_of_session s1 =
      filter (\<lambda>(k, _). k < Suc (published_seq s) \<or> Suc (published_seq s1) \<le> k) p"
    and none: "map_of p (Suc (published_seq s1)) = None"
    using spec by blast+
  have "Suc (published_seq s1) < q \<and> q < usize_max" if "q \<in> pending_keys s1" for q
  proof -
    from that p1 have q: "q \<in> fst ` set p" "q < Suc (published_seq s) \<or> Suc (published_seq s1) \<le> q"
      by auto
    moreover have "q \<noteq> Suc (published_seq s1)" using q(1) none by (metis map_of_eq_None_iff)
    ultimately show ?thesis using keys(1,3) by (metis Suc_leI le_neq_implies_less not_less)
  qed
  moreover have "distinct (map fst (pending_of_session s1))"
    unfolding p1 using keys(2) by (rule distinct_map_filter)
  ultimately have "session_inv s1" using xs(6) by (simp add: session_inv_def)
  with xs show ?thesis unfolding p_def [symmetric] by blast
qed

text \<open>Everything up to a number is published, and whatever else has arrived is pending.\<close>

definition covered :: "ordered_session_events \<Rightarrow> nat \<Rightarrow> bool" where
  "covered oe j \<longleftrightarrow> j \<le> last_published_seq oe \<or> j \<in> fst ` set (pending oe)"

lemma publish_ordered_accepts:
  assumes "seq_of e = Some q" "\<not> stopped_session s" "published_seq s < q"
  shows "publish_ordered_event e s = insert_and_publish e s"
  using assms by (simp add: publish_ordered_event_def stopped_session_def Let_def)

lemma publish_ordered_ignores:
  assumes "seq_of e = Some q" "stopped_session s \<or> q \<le> published_seq s"
  shows "publish_ordered_event e s = (s, Inr False)"
  using assms by (auto simp: publish_ordered_event_def stopped_session_def Let_def)

lemma note_change_sel [simp]:
  "events (note_change n s) = events s" "ordered_events (note_change n s) = ordered_events s"
  by (simp_all add: note_change_def)

lemma notification_ignored:
  assumes "seq_of e = Some q" "stopped_session s \<or> q \<le> published_seq s"
  shows "fst (handle_process_notification q e s) = note_change q s"
  by (simp add: handle_process_notification_def publish_ordered_ignores [OF assms]
      finish_process_event_def)

lemma notification_taken:
  assumes "seq_of e = Some q" "\<not> stopped_session s" "published_seq s < q"
  shows "fst (handle_process_notification q e s) =
    (case insert_and_publish e s of
       (s1, Inr _) \<Rightarrow> note_change q s1 | (s1, Inl m) \<Rightarrow> set_failure m s1)"
  by (auto simp: handle_process_notification_def publish_ordered_accepts [OF assms]
      finish_process_event_def split: prod.splits sum.splits)

lemma insert_refused: "insert_and_publish e s = (s1, Inl m) \<Longrightarrow> s1 = s"
  by (auto simp: insert_and_publish_def split: sum.splits prod.splits)

lemma offer_event_cases:
  assumes "offer_event q e s = Some (s1, out)"
  obtains (ignored) "seq_of e = Some q" "stopped_session s \<or> q \<le> published_seq s"
      "s1 = note_change q s" "out = []"
    | (taken) c s0 where "seq_of e = Some q" "q < usize_max" "\<not> stopped_session s"
      "published_seq s < q" "insert_and_publish e s = (s0, Inr c)" "s1 = note_change q s0"
      "out = drop (length (live (events s))) (live (events s0))"
proof -
  have s1: "s1 = fst (handle_process_notification q e s)"
    "out = drop (length (live (events s))) (live (events s1))" and q: "seq_of e = Some q" "q < usize_max"
    and same: "failure (ordered_events s1) = failure (ordered_events s)"
    using assms by (auto simp: offer_event_def Let_def split: if_splits)
  show thesis
  proof (cases "stopped_session s \<or> q \<le> published_seq s")
    case True
    with notification_ignored [OF q(1)] s1 q show ?thesis by (intro ignored) simp_all
  next
    case False
    then have st: "\<not> stopped_session s" "published_seq s < q" by auto
    obtain s0 res where ins: "insert_and_publish e s = (s0, res)" by (metis surj_pair)
    note s1 = s1 [unfolded notification_taken [OF q(1) st] ins]
    show ?thesis
    proof (cases res)
      case (Inl m)
      have "failure (ordered_events s) = None" "\<not> closed_published (ordered_events s)"
        using st(1) by (auto simp: stopped_session_def)
      then have "failure (ordered_events s1) \<noteq> None"
        using s1(1) insert_refused [of e s s0 m] ins Inl by (simp add: set_failure_def Let_def)
      with same \<open>failure (ordered_events s) = None\<close> show ?thesis by simp
    next
      case (Inr c)
      with s1 ins q st show ?thesis by (intro taken [of s0 c]) simp_all
    qed
  qed
qed

lemma insert_known:
  assumes "insert_and_publish e s = (s1, Inr c)" "seq_of e = Some q" "session_inv s"
    and "q \<in> pending_keys s"
  shows "s1 = s"
proof -
  have "insert_pending e (ordered_events s) = Inr (ordered_events s)"
    using assms(2,4) by (simp add: insert_pending_def)
  moreover have "map_of (pending_of_session s) (saturating_add (published_seq s) 1) = None"
    using assms(3) by (auto simp: map_of_eq_None_iff session_inv_def saturating_add_def)
  then have "publish_ready s = (s, False)" by (subst publish_ready.simps) (simp add: Let_def)
  ultimately show ?thesis using assms(1) by (simp add: insert_and_publish_def)
qed

interpretation session: reorder_buffer
  "\<lambda>s. Suc (published_seq s)" pending_of_session stopped_session is_ClosedEvent session_inv
  offer_event
proof (unfold_locales, goal_cases)
  case (1 s k)
  then show ?case by (auto simp: session_inv_def)
next
  case (2 s q x s1 out)
  from 2(2) show ?case
  proof (cases rule: offer_event_cases)
    case ignored
    with 2(1) show ?thesis by (simp add: session_inv_def)
  next
    case (taken c s0)
    from insert_and_publish_release [OF taken(5,1) 2(1) taken(4,2)] taken(6) show ?thesis
      by (auto simp: session_inv_def)
  qed
next
  case (3 s q x s1 out)
  from 3(2) show ?case
  proof (cases rule: offer_event_cases)
    case ignored
    then show ?thesis by (simp add: stopped_session_def)
  next
    case (taken c s0)
    then have "q \<in> pending_keys s" using 3(3) by auto
    from insert_known [OF taken(5,1) 3(1) this] taken(6,7) show ?thesis
      by (simp add: stopped_session_def)
  qed
next
  case (4 s q x s1 out)
  from 4(2) show ?case
  proof (cases rule: offer_event_cases)
    case ignored
    with 4(3) show ?thesis by auto
  next
    case (taken c s0)
    obtain xs where xs: "release (Suc (published_seq s)) ((q, x) # pending_of_session s) =
        (xs, Suc (published_seq s0), pending_of_session s0)"
      "live (events s0) = live (events s) @ xs"
      "closed_published (ordered_events s0) =
        (closed_published (ordered_events s) \<or> (\<exists>e \<in> set xs. is_ClosedEvent e))"
      "failure (ordered_events s0) = failure (ordered_events s)"
      using insert_and_publish_release [OF taken(5,1) 4(1) taken(4,2)] 4(3) by auto
    with taken(6,7) 4(3) show ?thesis by (auto simp: stopped_session_def)
  qed
qed

subsection \<open>A session that follows the server's log\<close>

text \<open>
  The session has published the first events of the log and holds others of it; with
  \<open>settled\<close> the next one has not arrived.
\<close>

definition session_run :: "exec_process_event list \<Rightarrow> session_state \<Rightarrow> bool" where
  "session_run es s \<longleftrightarrow>
     in_run 1 es (Suc (published_seq s)) (pending_of_session s) False \<and>
     distinct (map fst (pending_of_session s)) \<and>
     (\<forall>k \<in> pending_keys s. published_seq s < k) \<and>
     live (events s) = take (published_seq s) es \<and>
     exit_published (ordered_events s) = (\<exists>e \<in> set (take (published_seq s) es). is_Exited e) \<and>
     closed_published (ordered_events s) =
       (\<exists>e \<in> set (take (published_seq s) es). is_ClosedEvent e) \<and>
     failure (ordered_events s) = None"

definition session_at :: "exec_process_event list \<Rightarrow> session_state \<Rightarrow> bool" where
  "session_at es s \<longleftrightarrow> session_run es s \<and> Suc (published_seq s) \<notin> pending_keys s"

definition log_shape :: "exec_process_event list \<Rightarrow> bool" where
  "log_shape es \<longleftrightarrow>
     numbered es \<and> final_last is_ClosedEvent es \<and> Suc (length es) < usize_max"

lemma session_run_bounds:
  assumes "session_run es s" "log_shape es"
  shows "published_seq s \<le> length es" "published_seq s < usize_max"
    "\<forall>k \<in> pending_keys s. 0 < k \<and> k \<le> length es \<and> k < usize_max"
proof -
  show l: "published_seq s \<le> length es" using assms(1) by (simp add: session_run_def in_run_def)
  show "published_seq s < usize_max" using l assms(2) by (simp add: log_shape_def)
  show "\<forall>k \<in> pending_keys s. 0 < k \<and> k \<le> length es \<and> k < usize_max"
    using assms by (fastforce simp: session_run_def in_run_def log_shape_def)
qed

lemma session_at_inv: "session_at es s \<Longrightarrow> log_shape es \<Longrightarrow> session_inv s"
  using session_run_bounds [of es s]
  by (auto simp: session_at_def session_inv_def session_run_def intro!: le_neq_implies_less)

lemma set_take_extend:
  "n \<le> m \<Longrightarrow> set (take m xs) = set (take n xs) \<union> set (take (m - n) (drop n xs))"
  by (metis le_add_diff_inverse set_append take_add)

lemma publish_ready_run:
  assumes "session_run es s" "log_shape es" "publish_ready s = (s1, c)"
  shows "session_at es s1" "covered (ordered_events s1) j = covered (ordered_events s) j"
    "published_seq s \<le> published_seq s1"
proof -
  note b = session_run_bounds [OF assms(1,2)]
  obtain xs where xs: "release (Suc (published_seq s)) (pending_of_session s) =
      (xs, Suc (published_seq s1), pending_of_session s1)"
    "live (events s1) = live (events s) @ xs"
    "exit_published (ordered_events s1) =
      (exit_published (ordered_events s) \<or> (\<exists>e \<in> set xs. is_Exited e))"
    "closed_published (ordered_events s1) =
      (closed_published (ordered_events s) \<or> (\<exists>e \<in> set xs. is_ClosedEvent e))"
    "failure (ordered_events s1) = failure (ordered_events s)"
    using publish_ready_release [OF assms(3) b(2)] b(3) by auto
  have run: "in_run 1 es (Suc (published_seq s)) (pending_of_session s) False"
    and keys: "\<forall>k \<in> pending_keys s. Suc (published_seq s) \<le> k"
    using assms(1) by (auto simp: session_run_def)
  note rel = release_in_run [OF xs(1) run]
  note spec = release_spec [OF xs(1)]
  show le: "published_seq s \<le> published_seq s1" using rel(1) by simp
  show "covered (ordered_events s1) j = covered (ordered_events s) j"
    using release_keys [OF xs(1) keys, of j] by (simp add: covered_def less_Suc_eq_le)
  have p1: "pending_of_session s1 =
      filter (\<lambda>(k, _). k < Suc (published_seq s) \<or> Suc (published_seq s1) \<le> k) (pending_of_session s)"
    using spec by blast
  have out: "xs = take (published_seq s1 - published_seq s) (drop (published_seq s) es)"
    using rel(2) by simp
  have live: "live (events s1) = take (published_seq s1) es"
    using assms(1) le xs(2) by (simp add: session_run_def out flip: take_add)
  have set: "set (take (published_seq s1) es) = set (take (published_seq s) es) \<union> set xs"
    using le by (simp add: out set_take_extend)
  have "distinct (map fst (pending_of_session s1))"
    unfolding p1 using assms(1) by (intro distinct_map_filter) (simp add: session_run_def)
  moreover have "\<forall>k \<in> pending_keys s1. published_seq s1 < k"
    using keys by (auto simp: p1)
  moreover have "Suc (published_seq s1) \<notin> pending_keys s"
    using spec by (metis map_of_eq_None_iff)
  then have "Suc (published_seq s1) \<notin> pending_keys s1"
    by (auto simp: p1 intro: rev_image_eqI)
  ultimately show "session_at es s1"
    using assms(1) rel(3) live set xs(3-5)
    by (auto simp: session_at_def session_run_def)
qed

end
