(* ===== verification/Session_Recovery.thy ===== *)
theory Session_Recovery
  imports Session_Events_Correct
begin

section \<open>Recovery restores the server's log\<close>

text \<open>
  The proof about \<^verbatim>\<open>recover_events\<close>: a recovery that returns has published exactly
  the server's events through the number it was told, whatever was still retained; and the
  property of a client session beside its process.
\<close>

definition exit_at :: "exec_process_event list \<Rightarrow> nat \<Rightarrow> bool" where
  "exit_at es q \<longleftrightarrow> 0 < q \<and> q \<le> length es \<and> is_Exited (es ! (q - 1))"

text \<open>What a reply says about the log.\<close>

definition reply_ok :: "exec_process_event list \<Rightarrow> read_response \<Rightarrow> bool" where
  "reply_ok es r \<longleftrightarrow>
     (let n = resp_next_seq r - 1
      in resp_failure r = None \<and> n \<le> length es \<and>
         (\<forall>c \<in> set (resp_chunks r). 0 < chunk_seq c \<and> chunk_seq c \<le> n \<and>
            es ! (chunk_seq c - 1) = Output c) \<and>
         (resp_exited r \<longrightarrow> (\<exists>q \<le> n. exit_at es q)) \<and>
         (\<forall>q \<le> n. exit_at es q \<longrightarrow>
            (\<exists>x. es ! (q - 1) = Exited q x \<and> resp_exit_code r = Some x)) \<and>
         (resp_closed r \<longrightarrow> 0 < n \<and> es ! (n - 1) = ClosedEvent n))"

subsection \<open>One event\<close>

lemma insert_and_publish_covered:
  assumes "insert_and_publish e s = (s1, Inr c)" "seq_of e = Some k" "session_inv s"
    and "published_seq s < k" "k < usize_max"
  shows "covered (ordered_events s1) j \<longleftrightarrow> covered (ordered_events s) j \<or> j = k"
    "session_inv s1" "failure (ordered_events s1) = failure (ordered_events s)"
proof -
  obtain xs where xs: "release (Suc (published_seq s))
      (if k \<in> pending_keys s then pending_of_session s else (k, e) # pending_of_session s) =
      (xs, Suc (published_seq s1), pending_of_session s1)" "session_inv s1"
    "failure (ordered_events s1) = failure (ordered_events s)"
    using insert_and_publish_release [OF assms] by auto
  have "\<forall>q \<in> fst ` set (if k \<in> pending_keys s then pending_of_session s
      else (k, e) # pending_of_session s). Suc (published_seq s) \<le> q"
    using assms(3,4) by (auto simp: session_inv_def less_imp_le)
  from release_keys [OF xs(1) this, of j]
  show "covered (ordered_events s1) j \<longleftrightarrow> covered (ordered_events s) j \<or> j = k"
    by (auto simp: covered_def less_Suc_eq_le split: if_splits)
  show "session_inv s1" "failure (ordered_events s1) = failure (ordered_events s)"
    using xs by blast+
qed

lemma insert_pending_run:
  assumes "session_run es s" "insert_pending e (ordered_events s) = Inr oe" "seq_of e = Some k"
    and "published_seq s < k" "k \<le> length es" "es ! (k - 1) = e"
  shows "session_run es (s\<lparr>ordered_events := oe\<rparr>)"
    "covered oe j \<longleftrightarrow> covered (ordered_events s) j \<or> j = k"
    "last_published_seq oe = published_seq s"
proof -
  note ins = insert_pending_Inr [OF assms(2,3)]
  have sel: "pending oe =
      (if k \<in> pending_keys s then pending_of_session s else (k, e) # pending_of_session s)"
    "last_published_seq oe = published_seq s"
    "exit_published oe = exit_published (ordered_events s)"
    "closed_published oe = closed_published (ordered_events s)"
    "failure oe = failure (ordered_events s)"
    by (subst ins; simp)+
  show "session_run es (s\<lparr>ordered_events := oe\<rparr>)"
    using assms(1,4-6) by (auto simp: session_run_def in_run_def sel)
  show "covered oe j \<longleftrightarrow> covered (ordered_events s) j \<or> j = k"
    by (auto simp: covered_def sel)
  show "last_published_seq oe = published_seq s" by (rule sel)
qed

lemma insert_and_publish_at:
  assumes "session_at es s" "log_shape es" "insert_and_publish e s = (s1, Inr c)"
    and "seq_of e = Some k" "published_seq s < k" "k \<le> length es" "es ! (k - 1) = e"
  shows "session_at es s1"
proof -
  from assms(3) obtain oe where oe: "insert_pending e (ordered_events s) = Inr oe"
    "publish_ready (s\<lparr>ordered_events := oe\<rparr>) = (s1, c)"
    by (auto simp: insert_and_publish_def split: sum.splits prod.splits)
  have "session_run es s" using assms(1) by (simp add: session_at_def)
  from insert_pending_run(1) [OF this oe(1) assms(4-7)] publish_ready_run(1) [OF _ assms(2) oe(2)]
  show ?thesis by blast
qed

subsection \<open>The chunks of the reply\<close>

text \<open>
  Either the session follows the log, or it has made up an exit event with a wrong number
  and the number of the real one is missing for good, so that it can not have closed.
\<close>

definition closed_after :: "nat \<Rightarrow> session_state \<Rightarrow> bool" where
  "closed_after q s \<longleftrightarrow>
     \<not> closed_published (ordered_events s) \<and>
     (\<forall>(j, x) \<in> set (pending_of_session s). is_ClosedEvent x \<longrightarrow> q < j)"

definition lost_exit :: "exec_process_event list \<Rightarrow> read_response \<Rightarrow> session_state \<Rightarrow> bool" where
  "lost_exit es r s \<longleftrightarrow>
     (\<exists>q < resp_next_seq r. exit_at es q \<and> \<not> covered (ordered_events s) q \<and> closed_after q s)"

definition recover_inv ::
  "exec_process_event list \<Rightarrow> read_response \<Rightarrow> session_state \<Rightarrow> bool \<Rightarrow> bool" where
  "recover_inv es r s known \<longleftrightarrow>
     session_inv s \<and>
     (session_at es s \<and>
        (known \<or> (\<forall>q < resp_next_seq r. exit_at es q \<longrightarrow> \<not> covered (ordered_events s) q)) \<or>
      known \<and> lost_exit es r s)"

lemma session_at_closed:
  assumes "session_at es s" "log_shape es" "closed_published (ordered_events s)"
  shows "published_seq s = length es"
proof -
  from assms(1,3) obtain i where i: "i < length es" "i < published_seq s" "is_ClosedEvent (es ! i)"
    by (auto simp: session_at_def session_run_def in_set_conv_nth)
  then have "Suc i = length es" using assms(2) by (simp add: log_shape_def final_last_def)
  moreover have "published_seq s \<le> length es"
    using assms(1) by (simp add: session_at_def session_run_def in_run_def)
  ultimately show ?thesis using i(2) by linarith
qed

lemma session_at_closed_after:
  assumes at: "session_at es s" and shape: "log_shape es"
    and q: "exit_at es q" "\<not> covered (ordered_events s) q"
  shows "closed_after q s"
proof -
  have ex: "q \<le> length es" "is_Exited (es ! (q - 1))" "0 < q" using q(1) by (auto simp: exit_at_def)
  have "\<not> closed_published (ordered_events s)"
    using session_at_closed [OF at shape] q(2) ex(1) by (auto simp: covered_def)
  moreover have "q < j" if "(j, x) \<in> set (pending_of_session s)" "is_ClosedEvent x" for j x
  proof -
    have j: "j - 1 < length es" "es ! (j - 1) = x" "published_seq s < j"
      using at that(1) by (auto simp: session_at_def session_run_def in_run_def)
    then have "Suc (j - 1) = length es"
      using that(2) shape by (simp add: log_shape_def final_last_def)
    moreover have "j \<noteq> q" using j(2) ex(2) that(2) by (cases x) auto
    ultimately show ?thesis using ex(1) j(3) by linarith
  qed
  ultimately show ?thesis by (auto simp: closed_after_def)
qed

lemma closed_after_insert:
  assumes "insert_and_publish e s = (s1, Inr c)" "seq_of e = Some k" "session_inv s"
    and "published_seq s < k" "k < usize_max" "\<not> is_ClosedEvent e"
    and "closed_after q s" "\<not> covered (ordered_events s1) q"
  shows "closed_after q s1"
proof -
  define p where
    "p = (if k \<in> pending_keys s then pending_of_session s else (k, e) # pending_of_session s)"
  obtain xs where xs: "release (Suc (published_seq s)) p =
      (xs, Suc (published_seq s1), pending_of_session s1)"
    "closed_published (ordered_events s1) =
      (closed_published (ordered_events s) \<or> (\<exists>e \<in> set xs. is_ClosedEvent e))"
    using insert_and_publish_release [OF assms(1-5)] unfolding p_def [symmetric] by blast
  have p: "q < j" if "(j, x) \<in> set p" "is_ClosedEvent x" for j x
    using that assms(6,7) by (auto simp: p_def closed_after_def split: if_splits)
  note spec = release_spec [OF xs(1)]
  have "\<not> is_ClosedEvent (xs ! i)" if "i < length xs" for i
  proof
    assume "is_ClosedEvent (xs ! i)"
    moreover have "map_of p (Suc (published_seq s) + i) = Some (xs ! i)" using spec that by blast
    ultimately have "q < Suc (published_seq s) + i" by (metis map_of_SomeD p)
    moreover have "Suc (published_seq s1) = Suc (published_seq s) + length xs" using spec by blast
    moreover have "published_seq s1 < q" using assms(8) by (simp add: covered_def)
    ultimately show False using that by linarith
  qed
  then have "\<forall>e \<in> set xs. \<not> is_ClosedEvent e" by (metis in_set_conv_nth)
  moreover have "pending_of_session s1 =
      filter (\<lambda>(k, _). k < Suc (published_seq s) \<or> Suc (published_seq s1) \<le> k) p"
    using spec by blast
  then have "set (pending_of_session s1) \<subseteq> set p" by (metis filter_is_subset)
  ultimately show ?thesis using xs(2) p assms(7) unfolding closed_after_def by blast
qed

lemma recover_exit_inv:
  assumes inv: "recover_inv es r s False" and shape: "log_shape es" and ok: "reply_ok es r"
    and ex: "resp_exited r" "resp_exit_code r = Some x" and lt: "Suc (published_seq s) < resp_next_seq r"
    and ins: "insert_and_publish (Exited (Suc (published_seq s)) x) s = (s1, Inr c)"
  shows "recover_inv es r s1 True"
proof -
  let ?k = "Suc (published_seq s)"
  have at: "session_at es s" "\<forall>q < resp_next_seq r. exit_at es q \<longrightarrow> \<not> covered (ordered_events s) q"
    and si: "session_inv s"
    using inv by (auto simp: recover_inv_def)
  have len: "?k \<le> length es" "?k < usize_max"
    using ok lt shape by (auto simp: reply_ok_def Let_def log_shape_def)
  note cov = insert_and_publish_covered [OF ins seq_of_simps(2) si lessI len(2)]
  show ?thesis
  proof (cases "es ! (?k - 1) = Exited ?k x")
    case True
    from insert_and_publish_at [OF at(1) shape ins seq_of_simps(2) lessI len(1) True] cov(2)
    show ?thesis by (simp add: recover_inv_def)
  next
    case False
    obtain q where q: "q \<le> resp_next_seq r - 1" "exit_at es q"
      using ok ex(1) unfolding reply_ok_def Let_def by blast
    have "\<exists>y. es ! (q - 1) = Exited q y \<and> resp_exit_code r = Some y"
      using ok q unfolding reply_ok_def Let_def by blast
    with ex(2) have "es ! (q - 1) = Exited q x" by simp
    moreover have "q < resp_next_seq r" using q(1) lt by linarith
    note q = this q(2)
    ultimately have "q \<noteq> ?k" using False by auto
    moreover have un: "\<not> covered (ordered_events s) q" using at(2) q by blast
    ultimately have lost: "\<not> covered (ordered_events s1) q" using cov(1) [of q] by simp
    have "closed_after q s1"
      using closed_after_insert [OF ins seq_of_simps(2) si lessI len(2) _
          session_at_closed_after [OF at(1) shape q(2) un] lost] by simp
    with q lost cov(2) show ?thesis unfolding recover_inv_def lost_exit_def by blast
  qed
qed

lemma recover_output_inv:
  assumes inv: "recover_inv es r s known" and shape: "log_shape es" and ok: "reply_ok es r"
    and ch: "ch \<in> set (resp_chunks r)" "published_seq s < chunk_seq ch"
    and ins: "insert_and_publish (Output ch) s = (s1, Inr c)"
  shows "recover_inv es r s1 known"
proof -
  have len: "chunk_seq ch \<le> length es" "chunk_seq ch < usize_max"
    and nth: "es ! (chunk_seq ch - 1) = Output ch"
    using ok ch(1) shape by (fastforce simp: reply_ok_def Let_def log_shape_def)+
  have si: "session_inv s" using inv by (simp add: recover_inv_def)
  note cov = insert_and_publish_covered [OF ins seq_of_simps(1) si ch(2) len(2)]
  have "q \<noteq> chunk_seq ch" if "exit_at es q" for q using that nth by (auto simp: exit_at_def)
  with cov(1) have same: "covered (ordered_events s1) q = covered (ordered_events s) q"
    if "exit_at es q" for q using that by blast
  have "session_at es s \<Longrightarrow> session_at es s1"
    using insert_and_publish_at [OF _ shape ins seq_of_simps(1) ch(2) len(1) nth] .
  moreover have "lost_exit es r s1" if lost: "lost_exit es r s"
  proof -
    obtain q where q: "q < resp_next_seq r" "exit_at es q" "\<not> covered (ordered_events s) q"
      "closed_after q s" using lost unfolding lost_exit_def by blast
    then have un: "\<not> covered (ordered_events s1) q" using same by blast
    have "closed_after q s1"
      using closed_after_insert [OF ins seq_of_simps(1) si ch(2) len(2) _ q(4) un] by simp
    with q(1,2) un show ?thesis unfolding lost_exit_def by blast
  qed
  ultimately show ?thesis using inv cov(2) same unfolding recover_inv_def by blast
qed

text \<open>An event that is refused leaves the recovery as it was.\<close>

lemma recover_event_cases:
  assumes "recover_event e k st = (st1, res)"
  obtains (taken) c where "res = None" "insert_and_publish e (fst st) = (fst st1, Inr c)"
      "fst (snd st1) = k"
    | (refused) m where "res = Some m" "st1 = st"
proof -
  obtain s known cl where st: "st = (s, known, cl)" by (metis prod_cases3)
  obtain s1 out where ins: "insert_and_publish e s = (s1, out)" by (metis surj_pair)
  show thesis
  proof (cases out)
    case (Inl m)
    with ins have "s1 = s" by (simp add: insert_refused)
    with assms ins Inl show ?thesis by (intro refused [of m]) (auto simp: recover_event_def st)
  next
    case (Inr c)
    with assms ins show ?thesis by (intro taken [of c]) (auto simp: recover_event_def st)
  qed
qed

lemma recover_exit_before_inv:
  assumes inv: "recover_inv es r (fst st) (fst (snd st))" and shape: "log_shape es"
    and ok: "reply_ok es r" and le: "chunk_seq ch \<le> resp_next_seq r - 1"
    and run: "recover_exit_before (resp_exited r) (resp_exit_code r) ch st = (st1, res)"
  shows "recover_inv es r (fst st1) (fst (snd st1))"
proof -
  let ?next = "Suc (published_seq (fst st))"
  have "published_seq (fst st) < usize_max" using inv by (simp add: recover_inv_def session_inv_def)
  then have n: "saturating_add (published_seq (fst st)) 1 = ?next"
    by (simp add: saturating_add_def)
  show ?thesis
  proof (cases "resp_exited r \<and> \<not> fst (snd st) \<and> chunk_seq ch > ?next")
    case False
    then have "st1 = st"
      using run unfolding recover_exit_before_def Let_def n by (simp only: if_False prod.inject)
    with inv show ?thesis by simp
  next
    case True
    show ?thesis
    proof (cases "resp_exit_code r")
      case None
      with True have "st1 = st"
        using run unfolding recover_exit_before_def Let_def n by simp
      with inv show ?thesis by simp
    next
      case (Some x)
      with True have "recover_event (Exited ?next x) True st = (st1, res)"
        using run unfolding recover_exit_before_def Let_def n by simp
      then show ?thesis
      proof (cases rule: recover_event_cases)
        case (taken c)
        have lt: "?next < resp_next_seq r" using True le by linarith
        have "recover_inv es r (fst st) False" using inv True by simp
        from recover_exit_inv [OF this shape ok _ Some lt taken(2)] True taken(3)
        show ?thesis by simp
      qed (use inv in simp)
    qed
  qed
qed

lemma recover_chunk_inv:
  assumes inv: "recover_inv es r (fst st) (fst (snd st))" and shape: "log_shape es"
    and ok: "reply_ok es r" and ch: "ch \<in> set (resp_chunks r)"
    and run: "recover_chunk (resp_exited r) (resp_exit_code r) (resp_next_seq r - 1) ch st = (st1, res)"
  shows "recover_inv es r (fst st1) (fst (snd st1))"
proof -
  have le: "chunk_seq ch \<le> resp_next_seq r - 1"
    using ok ch unfolding reply_ok_def Let_def by blast
  obtain st0 m where st0: "recover_exit_before (resp_exited r) (resp_exit_code r) ch st = (st0, m)"
    by (metis surj_pair)
  note inv0 = recover_exit_before_inv [OF inv shape ok le st0]
  show ?thesis
  proof (cases "m = None \<and> chunk_seq ch > published_seq (fst st0)")
    case True
    then have "recover_event (Output ch) (fst (snd st0)) st0 = (st1, res)"
      using run le st0 by (simp add: recover_chunk_def recover_output_def)
    then show ?thesis
    proof (cases rule: recover_event_cases)
      case (taken c)
      with recover_output_inv [OF inv0 shape ok ch _ taken(2)] True show ?thesis by simp
    qed (use inv0 in simp)
  next
    case False
    then have "st1 = st0"
      using run le st0 by (cases m) (auto simp: recover_chunk_def recover_output_def)
    with inv0 show ?thesis by simp
  qed
qed

lemma recover_chunks_inv:
  assumes "recover_inv es r (fst st) (fst (snd st))" "log_shape es" "reply_ok es r"
    and "set cs \<subseteq> set (resp_chunks r)"
    and "recover_chunks (resp_exited r) (resp_exit_code r) (resp_next_seq r - 1) cs st = (st1, res)"
  shows "recover_inv es r (fst st1) (fst (snd st1))"
  using assms(1,4,5)
proof (induction cs arbitrary: st)
  case (Cons c cs)
  obtain st0 m where st0: "recover_chunk (resp_exited r) (resp_exit_code r) (resp_next_seq r - 1) c st
      = (st0, m)" by (metis surj_pair)
  have c: "c \<in> set (resp_chunks r)" "set cs \<subseteq> set (resp_chunks r)" using Cons.prems(2) by auto
  note inv0 = recover_chunk_inv [OF Cons.prems(1) assms(2,3) c(1) st0]
  show ?case
  proof (cases m)
    case None
    with Cons.prems(3) st0 show ?thesis by (intro Cons.IH [OF inv0 c(2)]) simp
  qed (use Cons.prems(3) st0 inv0 in simp)
qed simp

subsection \<open>What is still missing\<close>

lemma missing_from_hole:
  assumes "sorted ks" "distinct ks" "set ks = {a..n} - {q}" "a \<le> q" "q \<le> n" "n < usize_max"
  shows "missing_from a ks = q"
  using assms(1-4)
proof (induction ks arbitrary: a)
  case Nil
  have "a \<notin> {a..n} - {q}" by (simp only: Nil.prems(3) [symmetric] list.set empty_iff not_False_eq_True)
  then have "a = q" using assms(5) Nil.prems(4) by auto
  then show ?case by simp
next
  case (Cons k ks)
  have el: "j \<in> set (k # ks) \<longleftrightarrow> a \<le> j \<and> j \<le> n \<and> j \<noteq> q" for j
    unfolding Cons.prems(3) by auto
  show ?case
  proof (cases "a = q")
    case True
    with el [of k] show ?thesis by simp
  next
    case False
    then have "a \<in> set (k # ks)" using el [of a] Cons.prems(4) assms(5) by (meson le_trans order_refl)
    moreover have "a \<le> k" using el [of k] by (meson list.set_intros(1))
    moreover have "k \<le> j" if "j \<in> set (k # ks)" for j using Cons.prems(1) that by auto
    ultimately have k: "k = a" by (meson antisym)
    have "j \<in> set ks \<longleftrightarrow> j \<in> {Suc a..n} - {q}" for j
      using el [of j] Cons.prems(2) k by (auto simp: Suc_le_eq nat_less_le)
    then have "set ks = {Suc a..n} - {q}" by blast
    moreover have "sorted ks" "distinct ks" "Suc a \<le> q"
      using Cons.prems(1,2,4) False by (auto simp: Suc_le_eq nat_less_le)
    ultimately have "missing_from (Suc a) ks = q" by (intro Cons.IH)
    moreover have "saturating_add a 1 = Suc a"
      using Cons.prems(4) assms(5,6) by (simp add: saturating_add_def)
    ultimately show ?thesis by (simp add: k)
  qed
qed

definition keys_ok :: "ordered_session_events \<Rightarrow> bool" where
  "keys_ok oe \<longleftrightarrow>
     distinct (map fst (pending oe)) \<and> (\<forall>k \<in> fst ` set (pending oe). last_published_seq oe < k)"

definition holes :: "nat \<Rightarrow> ordered_session_events \<Rightarrow> nat set" where
  "holes n oe = {j. last_published_seq oe < j \<and> j \<le> n \<and> \<not> covered oe j}"

lemma missing_count_holes:
  assumes "keys_ok oe" "last_published_seq oe < n" "n < usize_max"
  shows "missing_count n oe = card (holes n oe)"
proof -
  let ?l = "last_published_seq oe"
  have sat: "saturating_add ?l 1 = Suc ?l" using assms(2,3) by (simp add: saturating_add_def)
  let ?ks = "filter (\<lambda>k. Suc ?l \<le> k \<and> k \<le> n) (map fst (pending oe))"
  have "length (filter (\<lambda>(k, _). Suc ?l \<le> k \<and> k \<le> n) (pending oe)) = length ?ks"
    by (auto simp: filter_map o_def intro!: arg_cong [of _ _ length] filter_cong)
  also have "\<dots> = card (set ?ks)"
    using assms(1) unfolding keys_ok_def by (intro distinct_card [symmetric] distinct_filter) blast
  finally have r: "length (filter (\<lambda>(k, _). Suc ?l \<le> k \<and> k \<le> n) (pending oe)) = card (set ?ks)" .
  have "holes n oe = {Suc ?l..n} - set ?ks"
    by (auto simp: holes_def covered_def Suc_le_eq)
  moreover have "set ?ks \<subseteq> {Suc ?l..n}" by auto
  ultimately have "card (holes n oe) = (n - ?l) - card (set ?ks)"
    by (simp add: card_Diff_subset)
  with assms(2) r sat show ?thesis by (simp add: missing_count_def Let_def)
qed

lemma first_missing_hole:
  assumes "keys_ok oe" "n < usize_max" "holes n oe = {q}"
  shows "first_missing_seq oe n = q"
proof -
  let ?l = "last_published_seq oe"
  have q: "?l < q" "q \<le> n" "\<not> covered oe q" using assms(3) by (auto simp: holes_def)
  have sat: "saturating_add ?l 1 = Suc ?l" using q assms(2) by (simp add: saturating_add_def)
  have "j \<in> fst ` set (pending oe)" if "?l < j" "j \<le> n" "j \<noteq> q" for j
    using that assms(3) unfolding holes_def covered_def by (metis (mono_tags, lifting) mem_Collect_eq not_le singletonD)
  moreover have "q \<notin> fst ` set (pending oe)" using q(3) by (simp add: covered_def)
  ultimately have "set (sort (filter (\<lambda>k. Suc ?l \<le> k \<and> k \<le> n) (map fst (pending oe)))) =
      {Suc ?l..n} - {q}"
    by (auto simp: Suc_le_eq)
  from missing_from_hole [OF _ _ this _ q(2) assms(2)] q(1) assms(1) sat show ?thesis
    by (simp add: first_missing_seq_def Let_def keys_ok_def)
qed

lemma publish_ready_reaches:
  assumes "session_run es s" "log_shape es" "publish_ready s = (s1, c)"
    and "holes n (ordered_events s) = {}"
  shows "session_at es s1 \<and> n \<le> published_seq s1"
proof -
  note run = publish_ready_run [OF assms(1-3)]
  have "\<not> covered (ordered_events s1) (Suc (published_seq s1))"
    using run(1) by (simp add: covered_def session_at_def)
  then have "\<not> covered (ordered_events s) (Suc (published_seq s1))" using run(2) by blast
  moreover have "Suc (published_seq s1) \<notin> holes n (ordered_events s)"
    using assms(4) by (metis empty_iff)
  ultimately have "\<not> Suc (published_seq s1) \<le> n"
    using run(3) unfolding holes_def by (metis (mono_tags, lifting) le_imp_less_Suc mem_Collect_eq)
  then show ?thesis using run(1) by (metis not_less_eq_eq)
qed

lemma finite_holes: "finite (holes n oe)"
  by (rule finite_subset [of _ "{..n}"]) (auto simp: holes_def)

lemma session_run_keys: "session_run es s \<Longrightarrow> keys_ok (ordered_events s)"
  unfolding session_run_def keys_ok_def by blast

lemma recover_closed_run:
  assumes run: "session_run es s" and ok: "reply_ok es r"
    and rec: "recover_closed (resp_closed r) (resp_next_seq r - 1) (ordered_events s) = Inr oe"
  shows "session_run es (s\<lparr>ordered_events := oe\<rparr>)"
    "exit_at es q \<Longrightarrow> covered oe q = covered (ordered_events s) q"
proof -
  let ?n = "resp_next_seq r - 1"
  have "session_run es (s\<lparr>ordered_events := oe\<rparr>) \<and>
    (exit_at es q \<longrightarrow> covered oe q = covered (ordered_events s) q)"
  proof (cases "oe = ordered_events s")
    case True
    then show ?thesis using run by simp
  next
    case False
    then have ins: "insert_pending (ClosedEvent ?n) (ordered_events s) = Inr oe"
      and opn: "resp_closed r" "\<not> closed_published (ordered_events s)"
      using rec by (auto simp: recover_closed_def split: if_splits)
    have n: "0 < ?n" "?n \<le> length es" "es ! (?n - 1) = ClosedEvent ?n"
      using ok opn(1) unfolding reply_ok_def Let_def by blast+
    have "published_seq s < ?n"
    proof (rule ccontr)
      assume "\<not> published_seq s < ?n"
      then have i: "?n - 1 < length (take (published_seq s) es)"
        using n(1,2) by simp linarith
      then have "take (published_seq s) es ! (?n - 1) = ClosedEvent ?n"
        using n(3) by (simp only: length_take min_less_iff_conj nth_take)
      with nth_mem [OF i] have "ClosedEvent ?n \<in> set (take (published_seq s) es)" by simp
      moreover have "\<forall>e \<in> set (take (published_seq s) es). \<not> is_ClosedEvent e"
        using run opn(2) unfolding session_run_def by blast
      ultimately show False by (metis exec_process_event.disc(11))
    qed
    note ins_run = insert_pending_run [OF run ins seq_of_simps(3) this n(2,3)]
    have "q \<noteq> ?n" if "exit_at es q" using that n(3) by (auto simp: exit_at_def)
    with ins_run show ?thesis by blast
  qed
  then show "session_run es (s\<lparr>ordered_events := oe\<rparr>)"
    "exit_at es q \<Longrightarrow> covered oe q = covered (ordered_events s) q" by blast+
qed

lemma recover_closed_hole:
  assumes "keys_ok oe" "exit_at es q" "q \<in> holes (resp_next_seq r - 1) oe" "reply_ok es r"
    and "recover_closed (resp_closed r) (resp_next_seq r - 1) oe = Inr oe1"
  shows "keys_ok oe1" "q \<in> holes (resp_next_seq r - 1) oe1"
proof -
  let ?n = "resp_next_seq r - 1"
  have "keys_ok oe1 \<and> q \<in> holes ?n oe1"
  proof (cases "oe1 = oe")
    case False
    then have ins: "insert_pending (ClosedEvent ?n) oe = Inr oe1" and cl: "resp_closed r"
      using assms(5) by (auto simp: recover_closed_def split: if_splits)
    note sel = insert_pending_Inr [OF ins seq_of_simps(3)]
    have "es ! (?n - 1) = ClosedEvent ?n"
      using assms(4) cl unfolding reply_ok_def Let_def by blast
    with assms(2) have "q \<noteq> ?n" by (auto simp: exit_at_def)
    moreover have "last_published_seq oe < ?n" using assms(3) by (auto simp: holes_def)
    moreover have "pending oe1 = (if ?n \<in> fst ` set (pending oe) then pending oe
        else (?n, ClosedEvent ?n) # pending oe)" "last_published_seq oe1 = last_published_seq oe"
      by (subst sel; simp)+
    ultimately show ?thesis
      using assms(1,3) by (auto simp: keys_ok_def holes_def covered_def)
  qed (use assms in simp)
  then show "keys_ok oe1" "q \<in> holes ?n oe1" by blast+
qed

lemma recover_missing_run:
  assumes run: "session_run es s" and shape: "log_shape es" and ok: "reply_ok es r"
    and unknown: "known \<or> (\<forall>q < resp_next_seq r. exit_at es q \<longrightarrow> \<not> covered (ordered_events s) q)"
    and rec: "recover_missing (resp_exited r) (resp_exit_code r) (resp_next_seq r - 1) known
      (ordered_events s) = Inr oe"
  shows "session_run es (s\<lparr>ordered_events := oe\<rparr>)" "holes (resp_next_seq r - 1) oe = {}"
proof -
  let ?n = "resp_next_seq r - 1" and ?oe = "ordered_events s"
  have n: "?n < usize_max" "?n \<le> length es"
    using ok shape by (auto simp: reply_ok_def Let_def log_shape_def)
  have count: "missing_count ?n ?oe = card (holes ?n ?oe)"
  proof (cases "published_seq s < ?n")
    case True
    then show ?thesis by (rule missing_count_holes [OF session_run_keys [OF run] _ n(1)])
  next
    case False
    then have "holes ?n ?oe = {}" by (auto simp: holes_def)
    with False show ?thesis by (simp add: missing_count_def Let_def)
  qed
  have "session_run es (s\<lparr>ordered_events := oe\<rparr>) \<and> holes ?n oe = {}"
  proof (cases "resp_exited r \<and> \<not> known")
    case False
    then have "oe = ?oe" "missing_count ?n ?oe = 0"
      using rec by (auto simp: recover_missing_def split: if_splits)
    with count finite_holes [of ?n ?oe] run show ?thesis by simp
  next
    case True
    then obtain x where x: "resp_exit_code r = Some x" "card (holes ?n ?oe) = 1"
      "insert_pending (Exited (first_missing_seq ?oe ?n) x) ?oe = Inr oe"
      using rec unfolding recover_missing_def count
      by (cases "resp_exit_code r") (simp_all split: if_splits)
    obtain q where q: "q \<le> ?n" "exit_at es q"
      using ok True unfolding reply_ok_def Let_def by blast
    have "\<exists>y. es ! (q - 1) = Exited q y \<and> resp_exit_code r = Some y"
      using ok q unfolding reply_ok_def Let_def by blast
    with x(1) have ex: "es ! (q - 1) = Exited q x" by simp
    have "0 < q" using q(2) by (simp add: exit_at_def)
    with q(1) have "q < resp_next_seq r" by linarith
    with unknown True q(2) have "\<not> covered ?oe q" by blast
    with q(1) have hole: "q \<in> holes ?n ?oe" by (auto simp: holes_def covered_def)
    with x(2) have holes: "holes ?n ?oe = {q}" by (metis card_1_singletonE singletonD)
    note first = first_missing_hole [OF session_run_keys [OF run] n(1) holes]
    have lt: "published_seq s < q" using hole by (simp add: holes_def)
    have len: "q \<le> length es" using q(1) n(2) by linarith
    note ins = insert_pending_run [OF run x(3) [unfolded first] seq_of_simps(2) lt len ex]
    have "holes ?n oe = {}" using holes ins(2,3) by (auto simp: holes_def)
    with ins(1) show ?thesis by blast
  qed
  then show "session_run es (s\<lparr>ordered_events := oe\<rparr>)" "holes ?n oe = {}" by blast+
qed

subsection \<open>A whole recovery\<close>

lemma session_at_note_change [simp]: "session_at es (note_change n s) = session_at es s"
  by (simp add: session_at_def session_run_def)

lemma recover_rest_at:
  assumes inv: "recover_inv es r s known" and shape: "log_shape es" and ok: "reply_ok es r"
    and rec: "recover_rest r (resp_next_seq r - 1) (s, known, cl) = (s1, Inr b)"
  shows "session_at es s1 \<and> resp_next_seq r - 1 \<le> published_seq s1"
proof -
  let ?n = "resp_next_seq r - 1"
  obtain oe1 where oe1: "recover_closed (resp_closed r) ?n (ordered_events s) = Inr oe1"
    using rec by (cases "recover_closed (resp_closed r) ?n (ordered_events s)")
      (simp_all add: recover_rest_def)
  obtain oe2 where oe2: "recover_missing (resp_exited r) (resp_exit_code r) ?n known oe1 = Inr oe2"
    using rec oe1 by (cases "recover_missing (resp_exited r) (resp_exit_code r) ?n known oe1")
      (simp_all add: recover_rest_def)
  obtain s3 c where s3: "publish_ready (s\<lparr>ordered_events := oe2\<rparr>) = (s3, c)"
    by (metis surj_pair)
  have s1: "s1 = note_change ?n s3"
    using rec oe1 oe2 s3 by (simp add: recover_rest_def)
  have at: "session_at es s"
    "known \<or> (\<forall>q < resp_next_seq r. exit_at es q \<longrightarrow> \<not> covered (ordered_events s) q)"
  proof -
    have "\<not> (known \<and> exit_at es q \<and> \<not> covered (ordered_events s) q)"
      if q: "q < resp_next_seq r" for q
    proof
      assume *: "known \<and> exit_at es q \<and> \<not> covered (ordered_events s) q"
      have "keys_ok (ordered_events s)"
        using inv by (auto simp: recover_inv_def session_inv_def keys_ok_def)
      moreover have "q \<in> holes ?n (ordered_events s)"
        using * q by (auto simp: holes_def covered_def)
      ultimately have k: "keys_ok oe1" "q \<in> holes ?n oe1"
        using recover_closed_hole [OF _ _ _ ok oe1] * by blast+
      have "?n < usize_max" using ok shape by (auto simp: reply_ok_def Let_def log_shape_def)
      then have "missing_count ?n oe1 \<noteq> 0"
        using missing_count_holes [OF k(1)] k(2) finite_holes [of ?n oe1]
        by (auto simp: holes_def)
      with oe2 * show False by (simp add: recover_missing_def)
    qed
    with inv show "session_at es s"
      "known \<or> (\<forall>q < resp_next_seq r. exit_at es q \<longrightarrow> \<not> covered (ordered_events s) q)"
      unfolding recover_inv_def lost_exit_def by blast+
  qed
  have run: "session_run es s" using at(1) by (simp add: session_at_def)
  note closed = recover_closed_run [OF run ok oe1]
  have un: "known \<or> (\<forall>q < resp_next_seq r. exit_at es q \<longrightarrow>
      \<not> covered (ordered_events (s\<lparr>ordered_events := oe1\<rparr>)) q)"
    using at(2) closed(2) by simp
  have rec1: "recover_missing (resp_exited r) (resp_exit_code r) ?n known
      (ordered_events (s\<lparr>ordered_events := oe1\<rparr>)) = Inr oe2" using oe2 by simp
  have "session_run es (s\<lparr>ordered_events := oe2\<rparr>)" "holes ?n oe2 = {}"
    using recover_missing_run [OF closed(1) shape ok un rec1] by simp_all
  with publish_ready_reaches [OF _ shape s3, of ?n] s1 show ?thesis by simp
qed

lemma exit_known_start:
  assumes at: "session_at es s" and shape: "log_shape es"
    and q: "exit_at es q" "q < resp_next_seq r" "covered (ordered_events s) q"
  shows "exit_published (ordered_events s) \<or> exit_pending (resp_next_seq r - 1) (ordered_events s)"
proof (cases "q \<le> published_seq s")
  case True
  then have "es ! (q - 1) \<in> set (take (published_seq s) es)"
    using q(1) by (auto simp: exit_at_def in_set_conv_nth intro!: exI [of _ "q - 1"])
  with q(1) at show ?thesis by (auto simp: exit_at_def session_at_def session_run_def)
next
  case False
  with q(3) obtain e where e: "(q, e) \<in> set (pending_of_session s)" by (auto simp: covered_def)
  with at have "es ! (q - 1) = e"
    by (auto simp: session_at_def session_run_def in_run_def)
  with e q(1,2) show ?thesis by (auto simp: exit_pending_def exit_at_def intro!: bexI [of _ "(q, e)"])
qed

lemma recover_events_at:
  assumes at: "session_at es s" and shape: "log_shape es" and ok: "reply_ok es r"
    and rec: "recover_events r s = (s1, Inr b)"
  shows "session_at es s1" "resp_next_seq r - 1 \<le> published_seq s1"
proof -
  let ?n = "resp_next_seq r - 1" and ?oe = "ordered_events s"
  define known where "known = (exit_published ?oe \<or> exit_pending ?n ?oe)"
  have none: "resp_failure r = None" "failure ?oe = None" "?n \<le> length es"
    using ok at by (simp_all add: reply_ok_def Let_def session_at_def session_run_def)
  have "session_at es s1 \<and> ?n \<le> published_seq s1"
  proof (cases "closed_published ?oe \<or> ?n \<le> published_seq s")
    case True
    then have "s1 = s" using rec none by (auto simp: recover_events_def Let_def)
    moreover note session_at_closed [OF at shape]
    ultimately show ?thesis using True at none(3) by auto
  next
    case False
    let ?go = "recover_chunks (resp_exited r) (resp_exit_code r) ?n (resp_chunks r) (s, known, False)"
    obtain st m where go: "?go = (st, m)" by (metis surj_pair)
    have rec1: "(case ?go of (st, Some m) \<Rightarrow> (fst st, Inl m)
        | (st, None) \<Rightarrow> recover_rest r ?n st) = (s1, Inr b)"
      using rec False none by (simp del: One_nat_def add: recover_events_def Let_def known_def split: if_splits)
    have m: "m = None" using rec1 [unfolded go] by (cases m) simp_all
    have rest: "recover_rest r ?n st = (s1, Inr b)"
      using rec1 [unfolded go m] by (simp only: prod.case option.case)
    have "known \<or> (\<forall>q < resp_next_seq r. exit_at es q \<longrightarrow> \<not> covered ?oe q)"
      using exit_known_start [OF at shape] unfolding known_def by blast
    with at session_at_inv [OF at shape] have "recover_inv es r s known"
      unfolding recover_inv_def by blast
    then have "recover_inv es r (fst st) (fst (snd st))"
      using recover_chunks_inv [OF _ shape ok subset_refl go [unfolded m]] by (simp only: fst_conv snd_conv)
    moreover obtain s2 k2 c2 where st: "st = (s2, k2, c2)" by (metis prod_cases3)
    ultimately have inv: "recover_inv es r s2 k2" by (simp only: fst_conv snd_conv)
    show ?thesis by (rule recover_rest_at [OF inv shape ok rest [unfolded st]])
  qed
  then show "session_at es s1" "?n \<le> published_seq s1" by blast+
qed

text \<open>A recovery that fails has not closed the session on events the server never sent.\<close>

lemma recover_rest_error:
  assumes inv: "recover_inv es r s known"
    and rec: "recover_rest r n (s, known, cl) = (s1, Inl m)"
  shows "session_at es s1 \<or> \<not> closed_published (ordered_events s1)"
proof -
  have s: "session_at es s \<or> \<not> closed_published (ordered_events s)"
    using inv unfolding recover_inv_def lost_exit_def closed_after_def by blast
  show ?thesis
  proof (cases "recover_closed (resp_closed r) n (ordered_events s)")
    case (Inl e)
    with rec s show ?thesis by (auto simp: recover_rest_def)
  next
    case (Inr oe)
    have s1: "s1 = s\<lparr>ordered_events := oe\<rparr>"
      using rec Inr by (auto simp: recover_rest_def split: sum.splits prod.splits)
    show ?thesis
    proof (cases "oe = ordered_events s")
      case True
      with s s1 show ?thesis by simp
    next
      case False
      then have "insert_pending (ClosedEvent n) (ordered_events s) = Inr oe"
        "\<not> closed_published (ordered_events s)"
        using Inr by (auto simp: recover_closed_def split: if_splits)
      moreover note insert_pending_Inr [OF this(1) seq_of_simps(3)]
      then have "closed_published oe = closed_published (ordered_events s)" by (rule ssubst) simp
      ultimately show ?thesis using s1 by simp
    qed
  qed
qed

lemma recover_events_start:
  assumes at: "session_at es s" and shape: "log_shape es"
  shows "recover_inv es r s
    (exit_published (ordered_events s) \<or> exit_pending (resp_next_seq r - 1) (ordered_events s))"
  using at exit_known_start [OF at shape] session_at_inv [OF at shape]
  unfolding recover_inv_def by blast

lemma recover_events_error:
  assumes at: "session_at es s" and shape: "log_shape es" and ok: "reply_ok es r"
    and rec: "recover_events r s = (s1, Inl m)"
  shows "session_at es s1 \<or> \<not> closed_published (ordered_events s1)"
proof -
  let ?n = "resp_next_seq r - 1" and ?oe = "ordered_events s"
  define known where "known = (exit_published ?oe \<or> exit_pending ?n ?oe)"
  have none: "resp_failure r = None" using ok by (simp add: reply_ok_def Let_def)
  obtain st e where go: "recover_chunks (resp_exited r) (resp_exit_code r) ?n (resp_chunks r)
      (s, known, False) = (st, e)" by (metis surj_pair)
  have inv: "recover_inv es r (fst st) (fst (snd st))"
    using recover_chunks_inv [OF _ shape ok subset_refl go] recover_events_start [OF at shape, of r]
    by (simp only: fst_conv snd_conv known_def)
  then have st: "session_at es (fst st) \<or> \<not> closed_published (ordered_events (fst st))"
    unfolding recover_inv_def lost_exit_def closed_after_def by blast
  consider "s1 = s" | "s1 = fst st" | "recover_rest r ?n st = (s1, Inl m)"
    using rec none go unfolding recover_events_def Let_def known_def [symmetric]
    by (auto split: if_splits option.splits)
  then show ?thesis
  proof cases
    case 3
    obtain s2 k2 c2 where e: "st = (s2, k2, c2)" by (metis prod_cases3)
    with inv have "recover_inv es r s2 k2" by (simp only: fst_conv snd_conv)
    then show ?thesis by (rule recover_rest_error [OF _ 3 [unfolded e]])
  qed (use at st in simp_all)
qed

end
