(* ===== verification/Remote_Session.thy ===== *)
theory Remote_Session
  imports Session_Recovery
begin

section \<open>A client session beside the server's process\<close>

text \<open>
  The composition of the exec server's process with the client's session: events reach the
  session in any order, several times or never, replies are delayed, and a recovery runs on
  any reply. The session's subscribers see a prefix of the server's log.
\<close>

subsection \<open>Replies describe the log\<close>

lemma set_outputs: "c \<in> set (outputs es) \<longleftrightarrow> Output c \<in> set es"
  by (induction es) (auto simp: outputs_def split: exec_process_event.splits)

lemma numbered_mem:
  assumes "numbered es" "e \<in> set es" "seq_of e = Some k"
  shows "0 < k \<and> k \<le> length es \<and> es ! (k - 1) = e"
proof -
  obtain i where "i < length es" "es ! i = e" using assms(2) by (auto simp: in_set_conv_nth)
  with numbered_nth [OF assms(1), of i] assms(3) show ?thesis by auto
qed

lemma exit_at_append: "q \<le> length es \<Longrightarrow> exit_at (es @ new) q = exit_at es q"
  by (auto simp: exit_at_def nth_append)

lemma reply_ok_append:
  assumes "reply_ok es r"
  shows "reply_ok (es @ new) r"
proof -
  let ?n = "resp_next_seq r - 1"
  have n: "?n \<le> length es" using assms unfolding reply_ok_def Let_def by blast
  have nth: "(es @ new) ! (k - 1) = es ! (k - 1)" if "0 < k" "k \<le> ?n" for k
  proof -
    have "k - 1 < length es" using that n by linarith
    then show ?thesis by (simp add: nth_append)
  qed
  have ex: "exit_at (es @ new) q = exit_at es q" if "q \<le> ?n" for q
    using that n by (intro exit_at_append) simp
  have pos: "0 < q" if "exit_at es q" for q using that by (simp add: exit_at_def)
  have a: "resp_failure r = None"
    "\<forall>c \<in> set (resp_chunks r). 0 < chunk_seq c \<and> chunk_seq c \<le> ?n \<and> es ! (chunk_seq c - 1) = Output c"
    "resp_exited r \<longrightarrow> (\<exists>q \<le> ?n. exit_at es q)"
    "\<forall>q \<le> ?n. exit_at es q \<longrightarrow> (\<exists>x. es ! (q - 1) = Exited q x \<and> resp_exit_code r = Some x)"
    "resp_closed r \<longrightarrow> 0 < ?n \<and> es ! (?n - 1) = ClosedEvent ?n"
    using assms unfolding reply_ok_def Let_def by blast+
  have "\<forall>c \<in> set (resp_chunks r). 0 < chunk_seq c \<and> chunk_seq c \<le> ?n \<and>
      (es @ new) ! (chunk_seq c - 1) = Output c"
    using a(2) nth by metis
  moreover have "resp_exited r \<longrightarrow> (\<exists>q \<le> ?n. exit_at (es @ new) q)" using a(3) ex by blast
  moreover have "\<forall>q \<le> ?n. exit_at (es @ new) q \<longrightarrow>
      (\<exists>x. (es @ new) ! (q - 1) = Exited q x \<and> resp_exit_code r = Some x)"
    using a(4) ex nth pos by metis
  moreover have "resp_closed r \<longrightarrow> 0 < ?n \<and> (es @ new) ! (?n - 1) = ClosedEvent ?n"
    using a(5) nth by (metis order_refl)
  moreover have "?n \<le> length (es @ new)" using n by simp
  ultimately show ?thesis using a(1) unfolding reply_ok_def Let_def by blast
qed

lemma read_process_reply:
  assumes p: "process_reachable p"
  shows "reply_ok (live (rp_events p)) (read_process (Some after) None p)"
proof -
  let ?es = "live (rp_events p)" and ?r = "read_process (Some after) None p"
  have ok: "log_ok p" using reachable_ok [OF p] by blast
  note log = reachable_log [OF p]
  have r: "resp_next_seq ?r - 1 = length ?es" "resp_failure ?r = None"
    "resp_exited ?r = (rp_exit_code p \<noteq> None)" "resp_exit_code ?r = rp_exit_code p"
    "resp_closed ?r = rp_closed p"
    by (simp_all add: read_process_def Let_def case_prod_beta log(2))
  let ?cs = "filter (\<lambda>c. chunk_seq c > after) (rp_output p)"
  obtain out s where page: "collect_page usize_max ?cs [] 0 (rp_next_seq p) = (out, s)"
    by (metis surj_pair)
  obtain rest where "?cs = out @ rest" using collect_page_spec [OF page] by auto
  then have "set out \<subseteq> set ?cs" by (metis Un_upper1 set_append)
  moreover have "resp_chunks ?r = out" by (simp add: read_process_def Let_def page)
  moreover have "set (rp_output p) \<subseteq> set (outputs ?es)"
    using ok by (auto simp: log_ok_def Let_def dest: in_set_dropD)
  ultimately have "c \<in> set (outputs ?es)" if "c \<in> set (resp_chunks ?r)" for c
    using that by (metis filter_is_subset subsetD)
  then have chunks: "Output c \<in> set ?es" if "c \<in> set (resp_chunks ?r)" for c
    using that by (simp only: set_outputs)
  have "0 < chunk_seq c \<and> chunk_seq c \<le> length ?es \<and> ?es ! (chunk_seq c - 1) = Output c"
    if "c \<in> set (resp_chunks ?r)" for c
    using numbered_mem [OF log(1) chunks [OF that]] by simp
  moreover have "\<exists>q \<le> length ?es. exit_at ?es q" if "rp_exit_code p \<noteq> None"
  proof -
    have "\<exists>s c. Exited s c \<in> set ?es" using ok that unfolding log_ok_def Let_def by blast
    then obtain s c where "Exited s c \<in> set ?es" by blast
    with numbered_mem [OF log(1) this] show ?thesis by (auto simp: exit_at_def intro!: exI [of _ s])
  qed
  moreover have "\<exists>x. ?es ! (q - 1) = Exited q x \<and> rp_exit_code p = Some x" if "exit_at ?es q" for q
  proof -
    have q: "q - 1 < length ?es" "is_Exited (?es ! (q - 1))" "0 < q"
      using that by (auto simp: exit_at_def)
    with numbered_nth [OF log(1) q(1)] obtain x where x: "?es ! (q - 1) = Exited q x"
      by (cases "?es ! (q - 1)") auto
    moreover have "rp_exit_code p = Some x"
      using ok nth_mem [OF q(1)] x by (auto simp: log_ok_def Let_def)
    ultimately show ?thesis by blast
  qed
  moreover have "0 < length ?es \<and> ?es ! (length ?es - 1) = ClosedEvent (length ?es)" if "rp_closed p"
  proof -
    have "?es \<noteq> []" "is_ClosedEvent (?es ! (length ?es - 1))"
      using log(5) that by (auto simp: last_conv_nth)
    with numbered_nth [OF log(1), of "length ?es - 1"] show ?thesis
      by (cases "?es ! (length ?es - 1)") auto
  qed
  ultimately show ?thesis unfolding reply_ok_def Let_def r by blast
qed

lemma reachable_final_last:
  assumes "process_reachable p"
  shows "final_last is_ClosedEvent (live (rp_events p))"
  unfolding final_last_def
proof (intro allI impI)
  fix i assume i: "i < length (live (rp_events p))" "is_ClosedEvent (live (rp_events p) ! i)"
  have "live (rp_events p) ! i \<notin> set (butlast (live (rp_events p)))"
    using reachable_log(4) [OF assms] i(2) by blast
  with i(1) show "Suc i = length (live (rp_events p))"
    by (metis Suc_lessI diff_Suc_1 length_butlast less_diff_conv nth_butlast nth_mem
        Suc_less_eq Suc_pred length_greater_0_conv list.size(3) not_less_zero)
qed

subsection \<open>The session's steps\<close>

lemma session_at_append:
  assumes "session_at es s"
  shows "session_at (es @ new) s"
proof -
  have "published_seq s \<le> length es"
    using assms by (simp add: session_at_def session_run_def in_run_def)
  moreover have "in_run 1 (es @ new) (Suc (published_seq s)) (pending_of_session s) False"
    using assms by (fastforce simp: session_at_def session_run_def in_run_def nth_append)
  ultimately show ?thesis using assms by (simp add: session_at_def session_run_def)
qed

lemma session_at_start: "session_at es (new_session_state recov)"
  by (simp add: session_at_def session_run_def in_run_def new_session_state_def
      no_ordered_events_def new_event_log_def)

text \<open>A session that has failed stays as it is; another one follows the log.\<close>

definition follows :: "exec_process_event list \<Rightarrow> session_state \<Rightarrow> bool" where
  "follows es s \<longleftrightarrow> failure (ordered_events s) \<noteq> None \<or> session_at es s"

lemma set_failure_follows: "follows es s \<Longrightarrow> follows es (set_failure m s)"
  by (auto simp: follows_def set_failure_def Let_def)

lemma failed_stays:
  assumes "failure (ordered_events s) \<noteq> None"
  shows "failure (ordered_events (set_failure m s)) \<noteq> None"
  using assms by (simp add: set_failure_def Let_def)

lemma notification_follows:
  assumes "follows es s" "log_shape es" "e \<in> set es" "seq_of e = Some q"
  shows "follows es (fst (handle_process_notification q e s))"
proof (cases "stopped_session s \<or> q \<le> published_seq s")
  case True
  from notification_ignored [OF assms(4) this] assms(1) show ?thesis by (simp add: follows_def)
next
  case False
  then have st: "\<not> stopped_session s" "published_seq s < q" by auto
  then have at: "session_at es s" using assms(1) by (simp add: follows_def stopped_session_def)
  have e: "q \<le> length es" "es ! (q - 1) = e"
    using numbered_mem [OF _ assms(3,4)] assms(2) by (simp_all add: log_shape_def)
  obtain s1 res where ins: "insert_and_publish e s = (s1, res)" by (metis surj_pair)
  show ?thesis
  proof (cases res)
    case (Inl m)
    then show ?thesis
      using set_failure_follows [OF assms(1)] ins insert_refused [of e s s1 m]
      by (simp add: notification_taken [OF assms(4) st])
  next
    case (Inr c)
    have "session_at es s1"
      using insert_and_publish_at [OF at assms(2) _ assms(4) st(2) e] ins Inr by simp
    then show ?thesis using ins Inr by (simp add: notification_taken [OF assms(4) st] follows_def)
  qed
qed

lemma recover_follows:
  assumes "follows es s" "log_shape es" "reply_ok es r"
  shows "follows es (fst (recover_process pid r s))"
proof (cases "failure (ordered_events s) = None")
  case False
  have "resp_failure r = None" using assms(3) by (simp add: reply_ok_def Let_def)
  with False have "recover_events r s = (s, Inr False)"
    by (auto simp: recover_events_def Let_def)
  with assms(1) show ?thesis by (simp add: recover_process_def)
next
  case True
  then have at: "session_at es s" using assms(1) by (simp add: follows_def)
  obtain s1 res where rec: "recover_events r s = (s1, res)" by (metis surj_pair)
  show ?thesis
  proof (cases res)
    case (Inr b)
    from recover_events_at(1) [OF at assms(2,3)] rec Inr assms(1) show ?thesis
      by (simp add: recover_process_def follows_def)
  next
    case (Inl m)
    have "session_at es s1 \<or> \<not> closed_published (ordered_events s1)"
      by (rule recover_events_error [OF at assms(2,3) rec [unfolded Inl]])
    then have "follows es (set_failure m' s1)" for m'
      by (auto simp: follows_def set_failure_def Let_def)
    with rec Inl assms(1) show ?thesis by (simp add: recover_process_def)
  qed
qed

subsection \<open>The whole system\<close>

definition remote_ok :: "remote_process \<Rightarrow> bool" where
  "remote_ok y \<longleftrightarrow>
     process_reachable (rm_process y) \<and>
     (\<forall>r \<in> set (rm_replies y). reply_ok (live (rp_events (rm_process y))) r) \<and>
     (Suc (length (live (rp_events (rm_process y)))) < usize_max \<longrightarrow>
        follows (live (rp_events (rm_process y))) (rm_session y))"

lemma reachable_shape:
  assumes "process_reachable p" "Suc (length (live (rp_events p))) < usize_max"
  shows "log_shape (live (rp_events p))"
  using reachable_log(1) [OF assms(1)] reachable_final_last [OF assms(1)] assms(2)
  by (simp add: log_shape_def)

lemma follows_append: "follows es s \<Longrightarrow> follows (es @ new) s"
  using session_at_append [of es s new] by (auto simp: follows_def)

lemma remote_step_ok:
  assumes "remote_step y z" "remote_ok y"
  shows "remote_ok z"
  using assms(1)
proof cases
  case (remote_server p)
  then obtain new where new: "live (rp_events p) = live (rp_events (rm_process y)) @ new"
    using process_step_log by blast
  have "process_reachable p" using assms(2) remote_server(2) reach_step by (auto simp: remote_ok_def)
  with assms(2) show ?thesis
    by (auto simp: remote_server(1) remote_ok_def new intro: reply_ok_append follows_append)
next
  case (remote_notify e seq)
  with assms(2) reachable_shape [of "rm_process y"] notification_follows [OF _ _ remote_notify(2,3)]
  show ?thesis by (auto simp: remote_ok_def)
next
  case (remote_read after)
  with assms(2) read_process_reply [of "rm_process y" after] show ?thesis
    by (auto simp: remote_ok_def)
next
  case (remote_recover r pid)
  with assms(2) reachable_shape [of "rm_process y"] recover_follows [of _ "rm_session y" r pid]
  show ?thesis by (auto simp: remote_ok_def)
next
  case (remote_fail m)
  with assms(2) set_failure_follows show ?thesis by (auto simp: remote_ok_def)
qed

lemma remote_reachable_ok: "remote_reachable y \<Longrightarrow> remote_ok y"
proof (induction rule: remote_reachable.induct)
  case (remote_start p recov)
  then show ?case using session_at_start by (simp add: remote_ok_def follows_def)
next
  case (remote_next y z)
  then show ?case using remote_step_ok by blast
qed


text \<open>
  An example: the session hears of the first event only; a recovery supplies the other
  output chunk, the exit and the closing of the process.
\<close>

definition ex_reply :: read_response where
  "ex_reply = read_process (Some 1) None ex_process"

definition ex_remote :: remote_process where
  "ex_remote =
     \<lparr>rm_process = ex_process, rm_replies = [ex_reply],
      rm_session = fst (recover_process (str ''p'') ex_reply
        (fst (handle_process_notification 1 (hd (live (rp_events ex_process)))
           (new_session_state True))))\<rparr>"

lemma ex_remote_reachable: "remote_reachable ex_remote"
proof -
  let ?y = "\<lparr>rm_process = ex_process, rm_replies = [], rm_session = new_session_state True\<rparr>"
  let ?e = "hd (live (rp_events ex_process))"
  have e: "?e \<in> set (live (rp_events ex_process))" "seq_of ?e = Some 1" by code_simp+
  have "remote_reachable ?y" by (rule remote_start [OF ex_process_reachable])
  from remote_next [OF this remote_notify [of ?e _ 1]] e
  have "remote_reachable (?y\<lparr>rm_session := fst (handle_process_notification 1 ?e
      (new_session_state True))\<rparr>)" by simp
  from remote_next [OF this remote_read [of _ 1]]
  have "remote_reachable \<lparr>rm_process = ex_process, rm_replies = [ex_reply],
      rm_session = fst (handle_process_notification 1 ?e (new_session_state True))\<rparr>"
    by (simp add: ex_reply_def)
  from remote_next [OF this remote_recover [of ex_reply _ "str ''p''"]] show ?thesis
    by (simp add: ex_remote_def)
qed


subsection \<open>Progress\<close>

text \<open>The notifications of a list of events, one after the other.\<close>

definition notify_all :: "exec_process_event list \<Rightarrow> session_state \<Rightarrow> session_state" where
  "notify_all es s =
     fold (\<lambda>e s. fst (handle_process_notification (the (seq_of e)) e s)) es s"

lemma notification_failed:
  assumes "seq_of e = Some q" "failure (ordered_events s) \<noteq> None"
  shows "failure (ordered_events (fst (handle_process_notification q e s))) \<noteq> None"
  using assms notification_ignored [of e q s] by (simp add: stopped_session_def)

lemma notify_all_failed:
  assumes "\<forall>e \<in> set es. seq_of e \<noteq> None" "failure (ordered_events s) \<noteq> None"
  shows "failure (ordered_events (notify_all es s)) \<noteq> None"
  using assms
proof (induction es arbitrary: s)
  case (Cons e es)
  then obtain q where "seq_of e = Some q" by auto
  with Cons notification_failed [of e q s] show ?case by (simp add: notify_all_def)
qed (simp add: notify_all_def)

lemma notify_all_feed:
  assumes "\<forall>e \<in> set as. \<exists>q. seq_of e = Some q \<and> q < usize_max"
    and "failure (ordered_events (notify_all as s)) = None"
  shows "\<exists>out. feed offer_event (map (\<lambda>e. (the (seq_of e), e)) as) s = Some (notify_all as s, out)"
  using assms
proof (induction as arbitrary: s)
  case (Cons e as)
  let ?s = "fst (handle_process_notification (the (seq_of e)) e s)"
  obtain q where q: "seq_of e = Some q" "q < usize_max" using Cons.prems(1) by auto
  have rest: "notify_all (e # as) s = notify_all as ?s" by (simp add: notify_all_def)
  have "failure (ordered_events ?s) = None" "failure (ordered_events s) = None"
    using notify_all_failed [of as ?s] notification_failed [OF q(1), of s] Cons.prems q(1)
    unfolding rest by (metis list.set_intros(2) option.distinct(1) option.sel)+
  then have "offer_event q e s = Some (?s, drop (length (live (events s))) (live (events ?s)))"
    using q by (simp add: offer_event_def Let_def)
  moreover obtain out where "feed offer_event (map (\<lambda>e. (the (seq_of e), e)) as) ?s =
      Some (notify_all as ?s, out)"
    using Cons.IH [of ?s] Cons.prems rest by auto
  ultimately show ?case using q rest by simp
qed (simp add: notify_all_def)

lemma notify_all_follows:
  assumes "follows es s" "log_shape es" "set as \<subseteq> set es"
  shows "follows es (notify_all as s)"
  using assms(1,3)
proof (induction as arbitrary: s)
  case (Cons e as)
  have num: "numbered es" using assms(2) by (simp add: log_shape_def)
  have e: "e \<in> set es" "set as \<subseteq> set es" using Cons.prems(2) by simp_all
  then obtain i where "i < length es" "es ! i = e" by (metis in_set_conv_nth)
  with numbered_nth [OF num] have q: "seq_of e = Some (Suc i)" by blast
  have "follows es (notify_all as (fst (handle_process_notification (Suc i) e s)))"
    by (intro Cons.IH notification_follows Cons.prems(1) assms(2) e q)
  then show ?case by (simp add: notify_all_def q)
qed (simp add: notify_all_def)

text \<open>
  C29. From the start of a session, notifications of the server's events that come in any
  order and with repetitions, and do not make the session fail, are published up to the
  first event that has not come at all; so when all have come, all are published.
\<close>

theorem notifications_published:
  assumes "numbered es" "final_last is_ClosedEvent es" "Suc (length es) < usize_max"
    and "set as \<subseteq> set es"
    and "failure (ordered_events (notify_all as (new_session_state recov))) = None"
  shows "let s = notify_all as (new_session_state recov)
    in last_published_seq (ordered_events s) \<le> length es \<and>
       live (events s) = take (last_published_seq (ordered_events s)) es \<and>
       (last_published_seq (ordered_events s) < length es \<longrightarrow>
          es ! last_published_seq (ordered_events s) \<notin> set as)"
proof -
  let ?s = "notify_all as (new_session_state recov)"
  let ?as = "map (\<lambda>e. (the (seq_of e), e)) as"
  have mem: "\<exists>q. seq_of e = Some q \<and> 0 < q \<and> q \<le> length es \<and> es ! (q - 1) = e" if "e \<in> set as" for e
  proof -
    have "e \<in> set es" using that assms(4) by blast
    then obtain i where "i < length es" "es ! i = e" by (metis in_set_conv_nth)
    with numbered_nth [OF assms(1), of i] show ?thesis by (intro exI [of _ "Suc i"]) simp
  qed
  then have "\<forall>e \<in> set as. \<exists>q. seq_of e = Some q \<and> q < usize_max"
    using assms(3) by (meson Suc_lessD le_less_trans)
  from notify_all_feed [OF this assms(5)] obtain out
    where feed: "feed offer_event ?as (new_session_state recov) = Some (?s, out)" by blast
  have "q - 1 < length es \<and> es ! (q - 1) = x" if qx: "(q, x) \<in> set ?as" for q x
  proof -
    have x: "x \<in> set as" "q = the (seq_of x)" using qx by auto
    from mem [OF x(1)] obtain k where k: "seq_of x = Some k" "0 < k" "k \<le> length es" "es ! (k - 1) = x"
      by blast
    have "q = k" by (simp add: x(2) k(1))
    with k(2-4) show ?thesis by simp
  qed
  then have "copies_of 1 es ?as" unfolding copies_of_def by blast
  have init: "session_inv (new_session_state recov)" "published_seq (new_session_state recov) = 0"
    "pending_of_session (new_session_state recov) = []" "\<not> stopped_session (new_session_state recov)"
    by (simp_all add: new_session_state_def no_ordered_events_def session_inv_def
        stopped_session_def usize_max_def)
  note start = session.feed_from_start [OF init(1) _ init(3,4) feed \<open>copies_of 1 es ?as\<close> assms(2)]
  have "follows es ?s"
    using notify_all_follows [OF _ _ assms(4)] assms(1-3) session_at_start [of es recov]
    unfolding log_shape_def follows_def by blast
  then have "session_at es ?s" using assms(5) by (simp add: follows_def)
  then have "published_seq ?s \<le> length es" "live (events ?s) = take (published_seq ?s) es"
    by (simp_all add: session_at_def session_run_def in_run_def)
  moreover have "es ! published_seq ?s \<notin> set as" if lt: "published_seq ?s < length es"
  proof
    assume "es ! published_seq ?s \<in> set as"
    then have "the (seq_of (es ! published_seq ?s)) \<in> fst ` set ?as"
      by (simp add: image_image image_iff) blast
    then have "Suc (published_seq ?s) \<in> fst ` set ?as"
      unfolding numbered_nth [OF assms(1) lt] option.sel .
    moreover have "Suc (published_seq ?s) \<notin> fst ` set ?as" using start(2) init(2) lt by simp
    ultimately show False by blast
  qed
  ultimately show ?thesis unfolding Let_def by blast
qed

theorem notifications_published_witness:
  "let es = live (rp_events ex_process); s = notify_all (rev es @ es) (new_session_state False)
   in failure (ordered_events s) = None \<and> last_published_seq (ordered_events s) = 4 \<and>
      live (events s) = es"
proof -
  let ?es = "live (rp_events ex_process)"
  let ?s = "notify_all (rev ?es @ ?es) (new_session_state False)"
  have h: "failure (ordered_events ?s) = None" "live (events ?s) = ?es" "length ?es = 4"
    by code_simp+
  have "Suc (length ?es) < usize_max" by (simp add: h(3) usize_max_def)
  moreover have "set (rev ?es @ ?es) \<subseteq> set ?es" by simp
  moreover note reachable_log(1) [OF ex_process_reachable] reachable_final_last [OF ex_process_reachable]
  ultimately have "last_published_seq (ordered_events ?s) \<le> length ?es"
    "last_published_seq (ordered_events ?s) < length ?es \<Longrightarrow>
       ?es ! last_published_seq (ordered_events ?s) \<notin> set (rev ?es @ ?es)"
    using notifications_published [of ?es "rev ?es @ ?es" False] h(1) unfolding Let_def by blast+
  then have "last_published_seq (ordered_events ?s) = length ?es"
    by (metis Un_iff nat_less_le nth_mem set_append)
  with h show ?thesis by (simp add: Let_def)
qed

end
