(* ===== verification/Text_Truncation.thy ===== *)
theory Text_Truncation
  imports Prelude
begin

section \<open>Truncating text on UTF-8 boundaries\<close>

text \<open>
  The helpers of \<^verbatim>\<open>utils/string/src/truncate.rs\<close> and the policies of
  \<^verbatim>\<open>utils/output-truncation/src/lib.rs\<close> that keep the beginning and the end of large
  tool output. Byte offsets index UTF-8 text; a slice that does not fall on a char boundary
  panics, which the model shows as \<open>None\<close>.
\<close>

subsection \<open>Slices by byte offset\<close>

fun split_at_byte :: "nat \<Rightarrow> rstring \<Rightarrow> (rstring \<times> rstring) option" where
  "split_at_byte n [] = (if n = 0 then Some ([], []) else None)"
| "split_at_byte n (c # s) =
     (if n = 0 then Some ([], c # s)
      else if char_len_utf8 c \<le> n
      then (case split_at_byte (n - char_len_utf8 c) s of
              None \<Rightarrow> None
            | Some (a, b) \<Rightarrow> Some (c # a, b))
      else None)"

definition slice_to :: "nat \<Rightarrow> rstring \<Rightarrow> rstring option" where
  "slice_to n s = map_option fst (split_at_byte n s)"

definition slice_from :: "nat \<Rightarrow> rstring \<Rightarrow> rstring option" where
  "slice_from n s = map_option snd (split_at_byte n s)"

lemma char_len_pos [simp]: "0 < char_len_utf8 c" by (simp add: char_len_utf8_def)

lemma utf8_len_simps [simp]:
  "utf8_len [] = 0" "utf8_len (c # s) = char_len_utf8 c + utf8_len s"
  "utf8_len (s @ t) = utf8_len s + utf8_len t"
  by (simp_all add: utf8_len_def)

lemma utf8_len_eq_0 [simp]: "utf8_len s = 0 \<longleftrightarrow> s = []"
  by (cases s) (simp_all add: char_len_utf8_def)

lemma split_at_byte_prefix [simp]: "split_at_byte (utf8_len a) (a @ b) = Some (a, b)"
proof (induction a)
  case Nil
  show ?case by (cases b) simp_all
next
  case (Cons c a)
  have "char_len_utf8 c + utf8_len a \<noteq> 0" by simp
  with Cons show ?case by simp
qed

lemma slice_prefix [simp]:
  "slice_to (utf8_len a) (a @ b) = Some a" "slice_from (utf8_len a) (a @ b) = Some b"
  by (simp_all add: slice_to_def slice_from_def)

subsection \<open>Counting tokens\<close>

definition APPROX_BYTES_PER_TOKEN :: nat where "APPROX_BYTES_PER_TOKEN = 4"

definition approx_token_count :: "rstring \<Rightarrow> nat" where
  "approx_token_count text =
     saturating_add (utf8_len text) (APPROX_BYTES_PER_TOKEN - 1) div APPROX_BYTES_PER_TOKEN"

definition approx_bytes_for_tokens :: "nat \<Rightarrow> nat" where
  "approx_bytes_for_tokens tokens = saturating_mul tokens APPROX_BYTES_PER_TOKEN"

definition approx_tokens_from_byte_count :: "nat \<Rightarrow> nat" where
  "approx_tokens_from_byte_count bytes =
     saturating_add bytes (APPROX_BYTES_PER_TOKEN - 1) div APPROX_BYTES_PER_TOKEN"

definition i64_max :: int where "i64_max = 2 ^ 63 - 1"
definition i64_min :: int where "i64_min = - (2 ^ 63)"

text \<open>\<^verbatim>\<open>i64::try_from(n).unwrap_or(i64::MAX)\<close>\<close>

definition i64_of_nat :: "nat \<Rightarrow> int" where
  "i64_of_nat n = min (int n) i64_max"

definition approx_tokens_from_byte_count_i64 :: "int \<Rightarrow> int" where
  "approx_tokens_from_byte_count_i64 bytes =
     (if bytes \<le> 0 then 0 else i64_of_nat (approx_tokens_from_byte_count (nat bytes)))"

subsection \<open>Splitting a string into a prefix and a suffix\<close>

text \<open>
  The loop of \<^verbatim>\<open>split_string\<close> over \<^verbatim>\<open>char_indices\<close>: the byte index, the end of
  the prefix, the start of the suffix once it has started, the removed chars.
\<close>

fun split_scan ::
  "nat \<Rightarrow> nat \<Rightarrow> nat \<Rightarrow> nat \<times> nat option \<times> nat \<Rightarrow> rstring \<Rightarrow> nat \<times> nat option \<times> nat" where
  "split_scan beginning_bytes tail_start_target idx st [] = st"
| "split_scan beginning_bytes tail_start_target idx (prefix_end, suffix_start, removed_chars) (ch # s) =
     (let char_end = idx + char_len_utf8 ch
      in split_scan beginning_bytes tail_start_target char_end
           (if char_end \<le> beginning_bytes then (char_end, suffix_start, removed_chars)
            else if idx \<ge> tail_start_target
            then (prefix_end, (case suffix_start of None \<Rightarrow> Some idx | Some i \<Rightarrow> Some i), removed_chars)
            else (prefix_end, suffix_start, saturating_add removed_chars 1)) s)"

definition split_string :: "rstring \<Rightarrow> nat \<Rightarrow> nat \<Rightarrow> (nat \<times> rstring \<times> rstring) option" where
  "split_string s beginning_bytes end_bytes =
     (if s = [] then Some (0, [], [])
      else let len = utf8_len s
           in case split_scan beginning_bytes (len - end_bytes) 0 (0, None, 0) s of
                (prefix_end, suffix, removed_chars) \<Rightarrow>
                  (let suffix_start = (case suffix of None \<Rightarrow> len | Some i \<Rightarrow> i);
                       suffix_start = (if suffix_start < prefix_end then prefix_end else suffix_start)
                   in case (slice_to prefix_end s, slice_from suffix_start s) of
                        (Some before, Some after) \<Rightarrow> Some (removed_chars, before, after)
                      | _ \<Rightarrow> None))"

definition split_budget :: "nat \<Rightarrow> nat \<times> nat" where
  "split_budget budget = (let left = budget div 2 in (left, budget - left))"

definition ellipsis :: rchar where "ellipsis = 8230"

definition format_truncation_marker :: "bool \<Rightarrow> nat \<Rightarrow> rstring" where
  "format_truncation_marker use_tokens removed_count =
     [ellipsis] @ dec removed_count
     @ (if use_tokens then str '' tokens truncated'' else str '' chars truncated'') @ [ellipsis]"

definition removed_units :: "bool \<Rightarrow> nat \<Rightarrow> nat \<Rightarrow> nat" where
  "removed_units use_tokens removed_bytes removed_chars =
     (if use_tokens then approx_tokens_from_byte_count removed_bytes else removed_chars)"

definition assemble_truncated_output :: "rstring \<Rightarrow> rstring \<Rightarrow> rstring \<Rightarrow> rstring" where
  "assemble_truncated_output prefix suffix marker = prefix @ marker @ suffix"

definition truncate_with_byte_estimate :: "rstring \<Rightarrow> nat \<Rightarrow> bool \<Rightarrow> rstring option" where
  "truncate_with_byte_estimate s max_bytes use_tokens =
     (if s = [] then Some []
      else if max_bytes = 0
      then Some (format_truncation_marker use_tokens
             (removed_units use_tokens (utf8_len s) (length s)))
      else if utf8_len s \<le> max_bytes then Some s
      else case split_budget max_bytes of
             (left_budget, right_budget) \<Rightarrow>
               (case split_string s left_budget right_budget of
                  None \<Rightarrow> None
                | Some (removed_chars, left, right) \<Rightarrow>
                    Some (assemble_truncated_output left right
                      (format_truncation_marker use_tokens
                        (removed_units use_tokens (utf8_len s - max_bytes) removed_chars)))))"

definition truncate_middle_chars :: "rstring \<Rightarrow> nat \<Rightarrow> rstring option" where
  "truncate_middle_chars s max_bytes = truncate_with_byte_estimate s max_bytes False"

definition truncate_middle_with_token_budget ::
  "rstring \<Rightarrow> nat \<Rightarrow> (rstring \<times> nat option) option" where
  "truncate_middle_with_token_budget s max_tokens =
     (if s = [] then Some ([], None)
      else if max_tokens > 0 \<and> utf8_len s \<le> approx_bytes_for_tokens max_tokens then Some (s, None)
      else map_option (\<lambda>truncated.
             if truncated = s then (truncated, None)
             else (truncated, Some (approx_token_count s)))
           (truncate_with_byte_estimate s (approx_bytes_for_tokens max_tokens) True))"

subsection \<open>Policies\<close>

datatype truncation_policy = Bytes nat | Tokens nat

definition token_budget :: "truncation_policy \<Rightarrow> nat" where
  "token_budget p =
     (case p of Bytes b \<Rightarrow> approx_tokens_from_byte_count b | Tokens t \<Rightarrow> t)"

definition byte_budget :: "truncation_policy \<Rightarrow> nat" where
  "byte_budget p = (case p of Bytes b \<Rightarrow> b | Tokens t \<Rightarrow> approx_bytes_for_tokens t)"

definition truncate_text :: "rstring \<Rightarrow> truncation_policy \<Rightarrow> rstring option" where
  "truncate_text content p =
     (case p of
        Bytes b \<Rightarrow> truncate_middle_chars content b
      | Tokens t \<Rightarrow> map_option fst (truncate_middle_with_token_budget content t))"

definition formatted_truncate_text :: "rstring \<Rightarrow> truncation_policy \<Rightarrow> rstring option" where
  "formatted_truncate_text content p =
     (if utf8_len content \<le> byte_budget p then Some content
      else map_option (\<lambda>result.
        str ''Warning: truncated output (original token count: '' @ dec (approx_token_count content)
        @ str '')'' @ [LF] @ str ''Total output lines: '' @ dec (length (lines content)) @ [LF, LF]
        @ result) (truncate_text content p))"

text \<open>
  \<^verbatim>\<open>policy * multiplier\<close> on \<^verbatim>\<open>f64\<close>: a positive double is an integer of at most
  53 significant bits over a power of two, and both the conversion and the product round to
  the nearest one, ties to even. The only multiplier of the sources is 1.2, the double
  5404319552844595 / 2^52.
\<close>

fun bit_length :: "nat \<Rightarrow> nat" where
  "bit_length n = (if n = 0 then 0 else Suc (bit_length (n div 2)))"

declare bit_length.simps [simp del]

definition round_half_even :: "nat \<Rightarrow> nat \<Rightarrow> nat" where
  "round_half_even n k =
     (let q = n div 2 ^ k; r = n mod 2 ^ k
      in if 2 * r < 2 ^ k \<or> (2 * r = 2 ^ k \<and> even q) then q else q + 1)"

definition f64_round :: "nat \<Rightarrow> nat" where
  "f64_round n = (let k = bit_length n - 53 in round_half_even n k * 2 ^ k)"

definition f64_mul_ceil :: "nat \<Rightarrow> nat \<Rightarrow> nat \<Rightarrow> nat" where
  "f64_mul_ceil mant ex n =
     (let p = f64_round (f64_round n * mant)
      in min usize_max ((p + 2 ^ ex - 1) div 2 ^ ex))"

definition scale_1_2 :: "nat \<Rightarrow> nat" where
  "scale_1_2 n = f64_mul_ceil 5404319552844595 52 n"

definition policy_mul_1_2 :: "truncation_policy \<Rightarrow> truncation_policy" where
  "policy_mul_1_2 p = (case p of Bytes b \<Rightarrow> Bytes (scale_1_2 b) | Tokens t \<Rightarrow> Tokens (scale_1_2 t))"

end
