(* ===== verification/Text_Truncation_Correct.thy ===== *)
theory Text_Truncation_Correct
  imports Text_Truncation
begin

section \<open>Truncation keeps both ends\<close>

text \<open>
  The scan of \<^verbatim>\<open>split_string\<close> against a reference definition, the longest prefix and
  the longest suffix that fit their budgets, and what that means for truncated text.
\<close>

subsection \<open>The longest prefix that fits\<close>

fun fit_prefix :: "nat \<Rightarrow> rstring \<Rightarrow> rstring" where
  "fit_prefix b [] = []"
| "fit_prefix b (c # s) =
     (if char_len_utf8 c \<le> b then c # fit_prefix (b - char_len_utf8 c) s else [])"

definition fit_suffix :: "nat \<Rightarrow> rstring \<Rightarrow> rstring" where
  "fit_suffix e s = rev (fit_prefix e (rev s))"

lemma utf8_len_rev [simp]: "utf8_len (rev s) = utf8_len s"
  by (induction s) simp_all

lemma fit_prefix_split:
  obtains rest where "s = fit_prefix b s @ rest" "utf8_len (fit_prefix b s) \<le> b"
    "rest \<noteq> [] \<longrightarrow> b < utf8_len (fit_prefix b s) + char_len_utf8 (hd rest)"
proof -
  have "\<exists>rest. s = fit_prefix b s @ rest \<and> utf8_len (fit_prefix b s) \<le> b \<and>
    (rest \<noteq> [] \<longrightarrow> b < utf8_len (fit_prefix b s) + char_len_utf8 (hd rest))"
  proof (induction b s rule: fit_prefix.induct)
    case (2 b c s)
    show ?case
    proof (cases "char_len_utf8 c \<le> b")
      case True
      from 2 [OF this] obtain rest where
        "s = fit_prefix (b - char_len_utf8 c) s @ rest"
        "utf8_len (fit_prefix (b - char_len_utf8 c) s) \<le> b - char_len_utf8 c"
        "rest \<noteq> [] \<longrightarrow> b - char_len_utf8 c < utf8_len (fit_prefix (b - char_len_utf8 c) s) +
           char_len_utf8 (hd rest)" by blast
      with True show ?thesis by (intro exI [of _ rest]) auto
    qed simp
  qed simp
  then show ?thesis using that by blast
qed

lemma fit_suffix_split:
  obtains rest where "s = rest @ fit_suffix e s" "utf8_len (fit_suffix e s) \<le> e"
    "rest \<noteq> [] \<longrightarrow> e < char_len_utf8 (last rest) + utf8_len (fit_suffix e s)"
proof -
  obtain rest where r: "rev s = fit_prefix e (rev s) @ rest" "utf8_len (fit_prefix e (rev s)) \<le> e"
    "rest \<noteq> [] \<longrightarrow> e < utf8_len (fit_prefix e (rev s)) + char_len_utf8 (hd rest)"
    by (rule fit_prefix_split [of "rev s" e])
  show ?thesis
  proof (rule that [of "rev rest"])
    show "s = rev rest @ fit_suffix e s"
      using arg_cong [OF r(1), of rev] by (simp add: fit_suffix_def)
  qed (use r(2,3) in \<open>auto simp: fit_suffix_def last_rev\<close>)
qed

text \<open>Both ends of a text that is longer than the two budgets together.\<close>

lemma fit_ends:
  assumes "b + e < utf8_len s"
  obtains mid where "s = fit_prefix b s @ mid @ fit_suffix e s" "mid \<noteq> []"
    "utf8_len (fit_prefix b s) \<le> b" "utf8_len (fit_suffix e s) \<le> e"
    "b < utf8_len (fit_prefix b s) + char_len_utf8 (hd mid)"
    "e < char_len_utf8 (last mid) + utf8_len (fit_suffix e s)"
proof -
  obtain x where x: "s = fit_prefix b s @ x" "utf8_len (fit_prefix b s) \<le> b"
    "x \<noteq> [] \<longrightarrow> b < utf8_len (fit_prefix b s) + char_len_utf8 (hd x)" by (rule fit_prefix_split [of s b])
  obtain y where y: "s = y @ fit_suffix e s" "utf8_len (fit_suffix e s) \<le> e"
    "y \<noteq> [] \<longrightarrow> e < char_len_utf8 (last y) + utf8_len (fit_suffix e s)" by (rule fit_suffix_split [of s e])
  have len: "utf8_len s = utf8_len (fit_prefix b s) + utf8_len x"
    "utf8_len s = utf8_len y + utf8_len (fit_suffix e s)"
    using x(1) y(1) utf8_len_simps(3) by metis+
  have "fit_prefix b s @ x = y @ fit_suffix e s" using x(1) y(1) by metis
  then consider mid where "y = fit_prefix b s @ mid" "x = mid @ fit_suffix e s"
    | us where "fit_prefix b s = y @ us" "fit_suffix e s = us @ x"
    by (auto simp: append_eq_append_conv2)
  then show ?thesis
  proof cases
    case (1 mid)
    have "mid \<noteq> []" using 1 len x(2) y(2) assms by auto
    then show ?thesis
      using 1 x y by (intro that [of mid]) (simp_all add: hd_append)
  next
    case (2 us)
    have "utf8_len s \<le> b + e" using 2 len x(2) y(2) by (simp add: utf8_len_simps)
    with assms show ?thesis by simp
  qed
qed

subsection \<open>The scan\<close>

lemma scan_prefix:
  assumes "idx + utf8_len l \<le> b"
  shows "split_scan b t idx (pe, ss, n) (l @ x) =
    split_scan b t (idx + utf8_len l) (if l = [] then pe else idx + utf8_len l, ss, n) x"
  using assms
proof (induction l arbitrary: idx pe)
  case (Cons c l)
  then show ?case
    using Cons.IH [of "idx + char_len_utf8 c" "idx + char_len_utf8 c"]
    by (cases "l = []") (simp_all add: Let_def add.assoc)
qed simp

lemma scan_middle:
  assumes "mid \<noteq> [] \<Longrightarrow> b < idx + char_len_utf8 (hd mid)"
    and "mid \<noteq> [] \<Longrightarrow> idx + utf8_len (butlast mid) < t" and "n + length mid \<le> usize_max"
  shows "split_scan b t idx (pe, ss, n) (mid @ x) =
    split_scan b t (idx + utf8_len mid) (pe, ss, n + length mid) x"
  using assms
proof (induction mid arbitrary: idx n)
  case (Cons c mid)
  have c: "b < idx + char_len_utf8 c" "idx < t" using Cons.prems(1,2) by (auto split: if_splits)
  have "mid \<noteq> [] \<Longrightarrow> b < idx + char_len_utf8 c + char_len_utf8 (hd mid)" using c by simp
  moreover have "mid \<noteq> [] \<Longrightarrow> idx + char_len_utf8 c + utf8_len (butlast mid) < t"
    using Cons.prems(2) by simp
  moreover have "saturating_add n 1 = Suc n" using Cons.prems(3) by (simp add: saturating_add_def)
  ultimately show ?case
    using Cons.IH [of "idx + char_len_utf8 c" "Suc n"] Cons.prems(3) c
    by (simp add: Let_def add.assoc)
qed simp

lemma scan_suffix_started:
  assumes "b < idx + char_len_utf8 (hd r)" "t \<le> idx"
  shows "split_scan b t idx (pe, Some i, n) r = (pe, Some i, n)"
  using assms
proof (induction r arbitrary: idx)
  case (Cons c r)
  then show ?case using Cons.IH [of "idx + char_len_utf8 c"] by (simp add: Let_def)
qed simp

lemma scan_suffix:
  assumes "b < idx + char_len_utf8 (hd r)" "t \<le> idx"
  shows "split_scan b t idx (pe, None, n) r = (pe, (if r = [] then None else Some idx), n)"
proof (cases r)
  case (Cons c r')
  then show ?thesis
    using assms scan_suffix_started [of b "idx + char_len_utf8 c" r' t pe idx n]
    by (simp add: Let_def)
qed simp

lemma split_string_fits:
  assumes "b + e < utf8_len s" "length s \<le> usize_max"
  shows "split_string s b e = Some (length s - length (fit_prefix b s) - length (fit_suffix e s),
    fit_prefix b s, fit_suffix e s)"
proof -
  let ?l = "fit_prefix b s" and ?r = "fit_suffix e s"
  obtain mid where mid: "s = ?l @ mid @ ?r" "mid \<noteq> []" "utf8_len ?l \<le> b" "utf8_len ?r \<le> e"
    "b < utf8_len ?l + char_len_utf8 (hd mid)" "e < char_len_utf8 (last mid) + utf8_len ?r"
    by (rule fit_ends [OF assms(1)])
  have len: "utf8_len s = utf8_len ?l + (utf8_len mid + utf8_len ?r)"
    "length s = length ?l + (length mid + length ?r)"
    by (subst mid(1), simp)+
  let ?t = "utf8_len s - e" and ?i = "utf8_len ?l + utf8_len mid"
  have "mid = butlast mid @ [last mid]" using mid(2) by simp
  then have "utf8_len mid = utf8_len (butlast mid) + char_len_utf8 (last mid)"
    by (metis add_0_right utf8_len_simps)
  then have t: "utf8_len ?l + utf8_len (butlast mid) < ?t" using mid(6) len(1) assms(1) by linarith
  have "split_scan b ?t 0 (0, None, 0) s = split_scan b ?t (utf8_len ?l) (utf8_len ?l, None, 0) (mid @ ?r)"
    using scan_prefix [of 0 ?l b ?t 0 None 0 "mid @ ?r"] mid(1,3)
    by (simp split: if_splits)
  also have "\<dots> = split_scan b ?t ?i (utf8_len ?l, None, length mid) ?r"
    using scan_middle [of mid b "utf8_len ?l" ?t 0 "utf8_len ?l" None ?r] mid(5) t len(2) assms(2)
    by simp
  also have "\<dots> = (utf8_len ?l, (if ?r = [] then None else Some ?i), length mid)"
  proof (rule scan_suffix)
    have "char_len_utf8 (hd mid) \<le> utf8_len mid" using mid(2) by (cases mid) simp_all
    then show "b < ?i + char_len_utf8 (hd ?r)" using mid(5) by linarith
    show "?t \<le> ?i" using len(1) mid(4) by linarith
  qed
  finally have scan: "split_scan b ?t 0 (0, None, 0) s =
      (utf8_len ?l, (if ?r = [] then None else Some ?i), length mid)" .
  have start: "(case (if ?r = [] then None else Some ?i) of None \<Rightarrow> utf8_len s | Some i \<Rightarrow> i) = ?i"
    using len(1) by (cases "?r = []") simp_all
  have "slice_to (utf8_len ?l) s = Some ?l" using slice_prefix(1) [of ?l "mid @ ?r"] mid(1) by simp
  moreover have "slice_from ?i s = Some ?r"
    using slice_prefix(2) [of "?l @ mid" ?r] mid(1) by simp
  moreover have "s \<noteq> []" using assms(1) by auto
  moreover have "length mid = length s - length ?l - length ?r" using len(2) by linarith
  ultimately show ?thesis
    by (simp add: split_string_def Let_def scan start)
qed

subsection \<open>What truncated text looks like\<close>

lemma length_le_utf8_len: "length s \<le> utf8_len s"
proof (induction s)
  case (Cons c s)
  then show ?case using char_len_pos [of c] by (simp del: char_len_pos)
qed simp

text \<open>
  C26. Text within its byte budget is unchanged. Longer text never makes the truncation
  panic on a char boundary: it keeps the longest prefix that fits half of the budget and the
  longest suffix that fits the rest, around a marker that names the number of chars left
  out, or an estimate of the tokens.
\<close>

theorem truncate_keeps_ends:
  assumes "utf8_len s \<le> usize_max" "0 < max_bytes"
  shows "if utf8_len s \<le> max_bytes then truncate_with_byte_estimate s max_bytes use_tokens = Some s
    else \<exists>left mid right. s = left @ mid @ right \<and> mid \<noteq> [] \<and>
      truncate_with_byte_estimate s max_bytes use_tokens =
        Some (left @ format_truncation_marker use_tokens
          (if use_tokens then approx_tokens_from_byte_count (utf8_len s - max_bytes) else length mid)
          @ right) \<and>
      utf8_len left \<le> max_bytes div 2 \<and> max_bytes div 2 < utf8_len (left @ [hd mid]) \<and>
      utf8_len right \<le> max_bytes - max_bytes div 2 \<and>
      max_bytes - max_bytes div 2 < utf8_len (last mid # right)"
proof (cases "utf8_len s \<le> max_bytes")
  case True
  then show ?thesis using assms(2) by (simp add: truncate_with_byte_estimate_def)
next
  case False
  let ?b = "max_bytes div 2" and ?e = "max_bytes - max_bytes div 2"
  have lt: "?b + ?e < utf8_len s" using False by simp
  obtain mid where mid: "s = fit_prefix ?b s @ mid @ fit_suffix ?e s" "mid \<noteq> []"
    "utf8_len (fit_prefix ?b s) \<le> ?b" "utf8_len (fit_suffix ?e s) \<le> ?e"
    "?b < utf8_len (fit_prefix ?b s) + char_len_utf8 (hd mid)"
    "?e < char_len_utf8 (last mid) + utf8_len (fit_suffix ?e s)"
    by (rule fit_ends [OF lt])
  have "length s \<le> usize_max" using length_le_utf8_len [of s] assms(1) by (rule le_trans)
  from split_string_fits [OF lt this]
  have "split_string s ?b ?e = Some (length mid, fit_prefix ?b s, fit_suffix ?e s)"
    by (metis add_diff_cancel_left' add_diff_cancel_right' diff_diff_eq length_append mid(1)
        diff_commute)
  moreover have "s \<noteq> []" using False by auto
  ultimately have "truncate_with_byte_estimate s max_bytes use_tokens =
      Some (fit_prefix ?b s @ format_truncation_marker use_tokens
        (if use_tokens then approx_tokens_from_byte_count (utf8_len s - max_bytes) else length mid)
        @ fit_suffix ?e s)"
    using False assms(2)
    by (simp add: truncate_with_byte_estimate_def split_budget_def Let_def
        assemble_truncated_output_def removed_units_def)
  then have "s = fit_prefix ?b s @ mid @ fit_suffix ?e s \<and> mid \<noteq> [] \<and>
      truncate_with_byte_estimate s max_bytes use_tokens =
        Some (fit_prefix ?b s @ format_truncation_marker use_tokens
          (if use_tokens then approx_tokens_from_byte_count (utf8_len s - max_bytes) else length mid)
          @ fit_suffix ?e s) \<and>
      utf8_len (fit_prefix ?b s) \<le> ?b \<and> ?b < utf8_len (fit_prefix ?b s @ [hd mid]) \<and>
      utf8_len (fit_suffix ?e s) \<le> ?e \<and> ?e < utf8_len (last mid # fit_suffix ?e s)"
    using mid by (simp only: utf8_len_simps add_0_right) blast
  then show ?thesis using False by (simp only: if_False) blast
qed

theorem truncate_keeps_ends_witness:
  "truncate_with_byte_estimate (str ''0123456789'') 5 False =
     Some (str ''01'' @ format_truncation_marker False 5 @ str ''789'') \<and>
   (\<exists>left mid right. str ''0123456789'' = left @ mid @ right \<and> mid \<noteq> [] \<and>
      truncate_with_byte_estimate (str ''0123456789'') 5 False =
        Some (left @ format_truncation_marker False (length mid) @ right))"
proof -
  have len: "utf8_len (str ''0123456789'') = 10" by code_simp
  then have h: "utf8_len (str ''0123456789'') \<le> usize_max" by (simp add: usize_max_def)
  have "\<exists>left mid right. str ''0123456789'' = left @ mid @ right \<and> mid \<noteq> [] \<and>
      truncate_with_byte_estimate (str ''0123456789'') 5 False =
        Some (left @ format_truncation_marker False (length mid) @ right)"
    using truncate_keeps_ends [OF h, of 5 False] by (auto simp: len)
  moreover have "truncate_with_byte_estimate (str ''0123456789'') 5 False =
     Some (str ''01'' @ format_truncation_marker False 5 @ str ''789'')" by code_simp
  ultimately show ?thesis by blast
qed

subsection \<open>Its length\<close>

lemma dec_step: "10 \<le> n \<Longrightarrow> dec n = dec (n div 10) @ [48 + n mod 10]"
  by (subst dec.simps) simp

lemma dec_digit: "n < 10 \<Longrightarrow> dec n = [48 + n]"
  by (subst dec.simps) simp

lemma length_dec: "n < 10 ^ Suc k \<Longrightarrow> length (dec n) \<le> Suc k"
proof (induction k arbitrary: n)
  case (Suc k)
  show ?case
  proof (cases "n < 10")
    case False
    then have "n div 10 < 10 ^ Suc k" using Suc.prems by (simp add: less_mult_imp_div_less mult.commute)
    with Suc.IH [of "n div 10"] False show ?thesis by (simp add: dec_step)
  qed (simp add: dec_digit)
qed (simp add: dec_digit)

lemma dec_ascii: "c \<in> set (dec n) \<Longrightarrow> 48 \<le> c \<and> c < 58"
proof (induction n rule: dec.induct)
  case (1 n)
  show ?case
  proof (cases "n < 10")
    case False
    then show ?thesis using 1 by (auto simp: dec_step)
  qed (use 1 in \<open>simp add: dec_digit\<close>)
qed

lemma utf8_len_ascii: "\<forall>c \<in> set s. c < 128 \<Longrightarrow> utf8_len s = length s"
  by (induction s) (simp_all add: char_len_utf8_def)

lemma utf8_len_dec: "n \<le> usize_max \<Longrightarrow> utf8_len (dec n) \<le> 20"
proof -
  assume "n \<le> usize_max"
  then have "n < 10 ^ Suc 19" by (simp add: usize_max_def)
  moreover have "\<forall>c \<in> set (dec n). c < 128" using dec_ascii by fastforce
  ultimately show ?thesis using length_dec [of n 19] by (simp add: utf8_len_ascii)
qed

lemma marker_len: "n \<le> usize_max \<Longrightarrow> utf8_len (format_truncation_marker ut n) \<le> 43"
proof -
  assume n: "n \<le> usize_max"
  have "utf8_len (str '' tokens truncated'') = 17" "utf8_len (str '' chars truncated'') = 16"
    "char_len_utf8 ellipsis = 3" by code_simp+
  with utf8_len_dec [OF n] show ?thesis by (simp add: format_truncation_marker_def)
qed

lemma truncate_bounded:
  assumes "utf8_len s \<le> usize_max"
  shows "\<exists>t. truncate_with_byte_estimate s max_bytes ut = Some t \<and> utf8_len t \<le> max_bytes + 43"
proof -
  have count: "length x \<le> usize_max" if "utf8_len x \<le> usize_max" for x
    using that length_le_utf8_len [of x] by simp
  have toks: "approx_tokens_from_byte_count n \<le> usize_max" if "n \<le> usize_max" for n
    by (simp add: approx_tokens_from_byte_count_def saturating_add_def APPROX_BYTES_PER_TOKEN_def
        div_le_dividend le_trans [OF div_le_dividend])
  consider "s = []" | "s \<noteq> []" "max_bytes = 0" | "0 < max_bytes" by auto
  then show ?thesis
  proof cases
    case 1
    then show ?thesis by (simp add: truncate_with_byte_estimate_def)
  next
    case 2
    then show ?thesis
      using marker_len [of "removed_units ut (utf8_len s) (length s)" ut] assms
        count [OF assms] toks [OF assms]
      by (simp add: truncate_with_byte_estimate_def removed_units_def)
  next
    case 3
    show ?thesis
    proof (cases "utf8_len s \<le> max_bytes")
      case True
      with 3 show ?thesis by (simp add: truncate_with_byte_estimate_def)
    next
      case False
      let ?b = "max_bytes div 2" and ?e = "max_bytes - max_bytes div 2"
      have lt: "?b + ?e < utf8_len s" using False by simp
      let ?n = "removed_units ut (utf8_len s - max_bytes)
        (length s - length (fit_prefix ?b s) - length (fit_suffix ?e s))"
      have "length s - length (fit_prefix ?b s) - length (fit_suffix ?e s) \<le> usize_max"
        using count [OF assms] by linarith
      then have "?n \<le> usize_max"
        using toks [of "utf8_len s - max_bytes"] assms by (simp add: removed_units_def)
      note m = marker_len [OF this, of ut]
      obtain mid where mid: "utf8_len (fit_prefix ?b s) \<le> ?b" "utf8_len (fit_suffix ?e s) \<le> ?e"
        by (rule fit_ends [OF lt])
      have "truncate_with_byte_estimate s max_bytes ut =
          Some (fit_prefix ?b s @ format_truncation_marker ut ?n @ fit_suffix ?e s)"
        using False 3 split_string_fits [OF lt count [OF assms]]
        by (auto simp: truncate_with_byte_estimate_def split_budget_def Let_def
            assemble_truncated_output_def)
      moreover have "utf8_len (fit_prefix ?b s @ format_truncation_marker ut ?n @ fit_suffix ?e s)
          \<le> max_bytes + 43" using m mid by simp linarith
      ultimately show ?thesis by blast
    qed
  qed
qed

end
