(* ===== verification/Response_Items.thy ===== *)
theory Response_Items
  imports Text_Truncation_Correct
begin

section \<open>Items of a conversation\<close>

text \<open>
  The items exchanged with the model (\<^verbatim>\<open>protocol/src/models.rs\<close>), the truncation of
  tool output that is made of content items (\<^verbatim>\<open>utils/output-truncation\<close>), and the
  recognition of contextual fragments (\<^verbatim>\<open>context-fragments\<close>,
  \<^verbatim>\<open>core/src/context\<close>, \<^verbatim>\<open>core/src/event_mapping.rs\<close>). A JSON value the
  modelled code only passes on is its text.
\<close>

type_synonym json = rstring

datatype image_detail = AutoDetail | LowDetail | HighDetail | OriginalDetail

datatype content_item =
    is_InputText: InputText (input_text: rstring)
  | is_InputImage: InputImage (image_url: rstring) (detail: "image_detail option")
  | is_InputAudio: InputAudio (audio_url: rstring)
  | OutputText rstring

datatype agent_message_input_content =
    AgentText rstring
  | AgentEncrypted rstring

datatype function_call_output_content_item =
    is_OutText: OutText (out_text: rstring)
  | is_OutImage: OutImage (out_image_url: rstring) (out_detail: "image_detail option")
  | is_OutAudio: OutAudio (out_audio_url: rstring)
  | OutEncrypted rstring

datatype function_call_output_body =
    Text rstring
  | ContentItems "function_call_output_content_item list"

record function_call_output_payload =
  body :: function_call_output_body
  success :: "bool option"

definition payload_from_text :: "rstring \<Rightarrow> function_call_output_payload" where
  "payload_from_text content = \<lparr>body = Text content, success = None\<rparr>"

datatype response_item =
    AdditionalTools "rstring option" rstring "json list"
  | Message "rstring option" (role: rstring) (content: "content_item list") "rstring option"
      "json option"
  | AgentMessage "rstring option" rstring rstring "agent_message_input_content list" "json option"
  | Reasoning "rstring option" "json list" "json list option" "rstring option" "json option"
  | LocalShellCall "rstring option" "rstring option" json json "json option"
  | FunctionCall "rstring option" rstring "rstring option" rstring "rstring list option" rstring
      "json option"
  | ToolSearchCall "rstring option" "rstring option" "rstring option" rstring json "json option"
  | FunctionCallOutput "rstring option" rstring function_call_output_payload "json option"
  | CustomToolCall "rstring option" "rstring option" rstring rstring "rstring option" rstring
      "json option"
  | CustomToolCallOutput "rstring option" rstring "rstring option" function_call_output_payload
      "json option"
  | ToolSearchOutput "rstring option" "rstring option" rstring rstring "json list" "json option"
  | WebSearchCall "rstring option" "rstring option" "json option" "json option"
  | ImageGenerationCall "rstring option" rstring "rstring option" rstring "json option"
  | Compaction "rstring option" rstring "json option"
  | CompactionTrigger
  | ContextCompaction "rstring option" "rstring option" "json option"
  | OtherItem

subsection \<open>Truncating content items\<close>

text \<open>The state of the loop: what is kept, the budget left, the omitted texts and audios.\<close>

type_synonym item_budget = "function_call_output_content_item list \<times> nat \<times> nat \<times> nat"

definition text_cost :: "truncation_policy \<Rightarrow> rstring \<Rightarrow> nat" where
  "text_cost p t = (case p of Bytes _ \<Rightarrow> utf8_len t | Tokens _ \<Rightarrow> approx_token_count t)"

definition audio_cost :: "(rstring \<Rightarrow> nat) \<Rightarrow> truncation_policy \<Rightarrow> rstring \<Rightarrow> nat" where
  "audio_cost estimate_audio p url =
     (case p of Bytes _ \<Rightarrow> approx_bytes_for_tokens (estimate_audio url)
              | Tokens _ \<Rightarrow> estimate_audio url)"

definition snippet_policy :: "truncation_policy \<Rightarrow> nat \<Rightarrow> truncation_policy" where
  "snippet_policy p remaining = (case p of Bytes _ \<Rightarrow> Bytes remaining | Tokens _ \<Rightarrow> Tokens remaining)"

definition truncate_item ::
  "truncation_policy \<Rightarrow> (rstring \<Rightarrow> nat) \<Rightarrow> function_call_output_content_item \<Rightarrow> item_budget \<Rightarrow>
   item_budget option" where
  "truncate_item p estimate_audio it st =
     (case st of (out, remaining, omitted_text, omitted_audio) \<Rightarrow>
        (case it of
           OutText t \<Rightarrow>
             (if remaining = 0 then Some (out, remaining, omitted_text + 1, omitted_audio)
              else if text_cost p t \<le> remaining
              then Some (out @ [OutText t], remaining - text_cost p t, omitted_text, omitted_audio)
              else map_option (\<lambda>snippet.
                     if snippet = [] then (out, 0, omitted_text + 1, omitted_audio)
                     else (out @ [OutText snippet], 0, omitted_text, omitted_audio))
                   (truncate_text t (snippet_policy p remaining)))
         | OutImage url d \<Rightarrow> Some (out @ [OutImage url d], remaining, omitted_text, omitted_audio)
         | OutAudio url \<Rightarrow>
             (let cost = audio_cost estimate_audio p url
              in if cost \<le> remaining
                 then Some (out @ [OutAudio url], remaining - cost, omitted_text, omitted_audio)
                 else Some (out, remaining, omitted_text, omitted_audio + 1))
         | OutEncrypted e \<Rightarrow> Some (out @ [OutEncrypted e], remaining, omitted_text, omitted_audio)))"

primrec truncate_items ::
  "truncation_policy \<Rightarrow> (rstring \<Rightarrow> nat) \<Rightarrow> function_call_output_content_item list \<Rightarrow> item_budget \<Rightarrow>
   item_budget option" where
  "truncate_items p est [] st = Some st"
| "truncate_items p est (it # its) st =
     (case truncate_item p est it st of
        None \<Rightarrow> None
      | Some st1 \<Rightarrow> truncate_items p est its st1)"

definition omission_notes :: "nat \<Rightarrow> nat \<Rightarrow> function_call_output_content_item list" where
  "omission_notes texts audios =
     (if texts > 0
      then [OutText (str ''[omitted '' @ dec texts @ str '' text items ...]'')] else [])
     @ (if audios > 0
        then [OutText (str ''[omitted '' @ dec audios @ str '' audio items ...]'')] else [])"

definition truncate_function_output_items_with_policy ::
  "function_call_output_content_item list \<Rightarrow> truncation_policy \<Rightarrow> (rstring \<Rightarrow> nat) \<Rightarrow>
   function_call_output_content_item list option" where
  "truncate_function_output_items_with_policy items p estimate_audio =
     (let budget = (case p of Bytes _ \<Rightarrow> byte_budget p | Tokens _ \<Rightarrow> token_budget p)
      in map_option (\<lambda>(out, _, texts, audios). out @ omission_notes texts audios)
           (truncate_items p estimate_audio items ([], budget, 0, 0)))"

definition combined_text :: "function_call_output_content_item list \<Rightarrow> rstring" where
  "combined_text items =
     foldl (\<lambda>combined t. (if combined = [] then [] else combined @ [LF]) @ t) []
       [t. OutText t \<leftarrow> items]"

definition formatted_truncate_text_content_items_with_policy ::
  "function_call_output_content_item list \<Rightarrow> truncation_policy \<Rightarrow>
   (function_call_output_content_item list \<times> nat option) option" where
  "formatted_truncate_text_content_items_with_policy items p =
     (if [t. OutText t \<leftarrow> items] = [] then Some (items, None)
      else let combined = combined_text items
           in if utf8_len combined \<le> byte_budget p then Some (items, None)
              else map_option (\<lambda>t.
                     (OutText t # filter (\<lambda>it. \<not> is_OutText it) items,
                      Some (approx_token_count combined)))
                   (formatted_truncate_text combined p))"

definition truncate_function_output_payload ::
  "(rstring \<Rightarrow> nat) \<Rightarrow> function_call_output_payload \<Rightarrow> truncation_policy \<Rightarrow>
   function_call_output_payload option" where
  "truncate_function_output_payload estimate_audio output p =
     map_option (\<lambda>b. \<lparr>body = b, success = success output\<rparr>)
       (case body output of
          Text t \<Rightarrow> map_option Text (truncate_text t p)
        | ContentItems its \<Rightarrow>
            map_option ContentItems (truncate_function_output_items_with_policy its p estimate_audio))"

subsection \<open>Contextual fragments\<close>

definition eq_ignore_ascii_case :: "rstring \<Rightarrow> rstring \<Rightarrow> bool" where
  "eq_ignore_ascii_case a b \<longleftrightarrow> to_ascii_lowercase a = to_ascii_lowercase b"

definition starts_with_marker :: "rstring \<Rightarrow> rstring \<Rightarrow> bool" where
  "starts_with_marker marker text =
     (case slice_to (utf8_len marker) text of
        None \<Rightarrow> False | Some candidate \<Rightarrow> eq_ignore_ascii_case candidate marker)"

definition ends_with_marker :: "rstring \<Rightarrow> rstring \<Rightarrow> bool" where
  "ends_with_marker marker text =
     (case slice_from (utf8_len text - utf8_len marker) text of
        None \<Rightarrow> False | Some candidate \<Rightarrow> eq_ignore_ascii_case candidate marker)"

definition matches_marked_text :: "rstring \<Rightarrow> rstring \<Rightarrow> rstring \<Rightarrow> bool" where
  "matches_marked_text start_marker end_marker text =
     (if start_marker = [] \<or> end_marker = [] then False
      else let trimmed = trim_start text
           in starts_with_marker start_marker trimmed \<and> ends_with_marker end_marker (trim_end trimmed))"

text \<open>\<^verbatim>\<open>str::split_once\<close> with a string pattern.\<close>

definition split_once_sub :: "rstring \<Rightarrow> rstring \<Rightarrow> (rstring \<times> rstring) option" where
  "split_once_sub d s =
     (case find_sub d s of None \<Rightarrow> None | Some i \<Rightarrow> Some (take i s, drop (i + length d) s))"

definition additional_context_matches :: "rstring \<Rightarrow> bool" where
  "additional_context_matches text =
     (case strip_prefix (str ''<external_'') (trim text) of
        None \<Rightarrow> False
      | Some rest \<Rightarrow>
          (case split_once_sub (str ''>'') rest of
             None \<Rightarrow> False
           | Some (key, value_and_close) \<Rightarrow>
               ends_with (str ''</external_'' @ key @ str ''>'') value_and_close))"

definition is_ascii_lower :: "rchar \<Rightarrow> bool" where
  "is_ascii_lower c \<longleftrightarrow> 97 \<le> c \<and> c \<le> 122"

definition is_valid_source :: "rstring \<Rightarrow> bool" where
  "is_valid_source source =
     (case source of
        [] \<Rightarrow> False
      | c # cs \<Rightarrow> is_ascii_lower c \<and>
          list_all (\<lambda>ch. is_ascii_lower ch \<or> is_ascii_digit ch \<or> ch = 95) cs)"

definition internal_context_matches :: "rstring \<Rightarrow> bool" where
  "internal_context_matches text =
     (let trimmed = trim text
      in if starts_with (str ''<goal_context>'') trimmed \<and> ends_with (str ''</goal_context>'') trimmed
         then True
         else case strip_prefix (str ''<codex_internal_context'') trimmed of
                None \<Rightarrow> False
              | Some rest \<Rightarrow>
                  (case strip_prefix (str '' source='' @ [34]) rest of
                     None \<Rightarrow> False
                   | Some rest1 \<Rightarrow>
                       (case split_once_sub [34, 62] rest1 of
                          None \<Rightarrow> False
                        | Some (source, body_and_close) \<Rightarrow>
                            is_valid_source source \<and>
                            ends_with (str ''</codex_internal_context>'') body_and_close)))"

definition contextual_user_fragment_matchers :: "(rstring \<Rightarrow> bool) list" where
  "contextual_user_fragment_matchers =
     [matches_marked_text (str ''# AGENTS.md instructions'') (str ''</INSTRUCTIONS>''),
      matches_marked_text (str ''<environment_context>'') (str ''</environment_context>''),
      additional_context_matches,
      matches_marked_text (str ''<skill>'') (str ''</skill>''),
      matches_marked_text (str ''<user_shell_command>'') (str ''</user_shell_command>''),
      matches_marked_text (str ''<turn_aborted>'') (str ''</turn_aborted>''),
      matches_marked_text (str ''<subagent_notification>'') (str ''</subagent_notification>''),
      internal_context_matches,
      (\<lambda>t. starts_with
         (str ''Warning: The maximum number of unified exec processes you can keep open is'') (trim t)),
      (\<lambda>t. starts_with (str ''Warning: apply_patch was requested via '') (trim t) \<and>
           ends_with (str ''Use the apply_patch tool instead of exec_command.'') (trim t)),
      (\<lambda>t. starts_with
         (str ''Warning: Your account was flagged for potentially high-risk cyber activity'') (trim t))]"

definition is_contextual_user_fragment :: "content_item \<Rightarrow> bool" where
  "is_contextual_user_fragment c =
     (case c of
        InputText t \<Rightarrow> list_ex (\<lambda>m. m t) contextual_user_fragment_matchers
      | _ \<Rightarrow> False)"

definition is_contextual_user_message_content :: "content_item list \<Rightarrow> bool" where
  "is_contextual_user_message_content message \<longleftrightarrow> list_ex is_contextual_user_fragment message"

definition contextual_developer_prefixes :: "rstring list" where
  "contextual_developer_prefixes =
     [str ''<model_switch>'', str ''<apps_instructions>'', str ''<agent_settings>'',
      str ''<multi_agent_mode>'', str ''<environments_instructions>'', str ''<git_attribution>'',
      str ''<realtime_conversation>'', str ''<skills_instructions>'', str ''<tools>'',
      str ''<personality_spec>'', str ''<token_budget>'', str ''<context_window>'',
      str ''<context_window_guidance>'', str ''<rollout_budget>'']"

definition is_contextual_dev_fragment :: "content_item \<Rightarrow> bool" where
  "is_contextual_dev_fragment c =
     (case c of
        InputText t \<Rightarrow>
          list_ex (\<lambda>prefix. starts_with_marker prefix (trim_start t)) contextual_developer_prefixes
      | _ \<Rightarrow> False)"

definition is_contextual_dev_message_content :: "content_item list \<Rightarrow> bool" where
  "is_contextual_dev_message_content message \<longleftrightarrow> list_ex is_contextual_dev_fragment message"

definition has_non_contextual_dev_message_content :: "content_item list \<Rightarrow> bool" where
  "has_non_contextual_dev_message_content message \<longleftrightarrow>
     list_ex (\<lambda>c. \<not> is_contextual_dev_fragment c) message"

subsection \<open>Truncated tool output is bounded\<close>

lemma truncate_text_bounded:
  assumes "utf8_len t \<le> usize_max"
  shows "\<exists>u. truncate_text t p = Some u \<and> utf8_len u \<le> byte_budget p + 43"
proof (cases p)
  case (Bytes b)
  with truncate_bounded [OF assms, of b False] show ?thesis
    by (simp add: truncate_text_def truncate_middle_chars_def byte_budget_def)
next
  case (Tokens k)
  obtain u where "truncate_with_byte_estimate t (approx_bytes_for_tokens k) True = Some u"
    "utf8_len u \<le> approx_bytes_for_tokens k + 43"
    using truncate_bounded [OF assms, of "approx_bytes_for_tokens k" True] by blast
  with Tokens show ?thesis
    by (auto simp: truncate_text_def truncate_middle_with_token_budget_def byte_budget_def)
qed

definition text_bytes :: "function_call_output_content_item list \<Rightarrow> nat" where
  "text_bytes items = sum_list (map utf8_len [t. OutText t \<leftarrow> items])"

lemma text_bytes_append [simp]: "text_bytes (xs @ ys) = text_bytes xs + text_bytes ys"
  by (simp add: text_bytes_def)

lemma text_bytes_simps [simp]:
  "text_bytes [] = 0" "text_bytes [OutText t] = utf8_len t" "text_bytes [OutImage u d] = 0"
  "text_bytes [OutAudio u] = 0" "text_bytes [OutEncrypted e] = 0"
  by (simp_all add: text_bytes_def)

text \<open>Images and encrypted content are never dropped.\<close>

definition kept_always :: "function_call_output_content_item \<Rightarrow> bool" where
  "kept_always it = (case it of OutImage _ _ \<Rightarrow> True | OutEncrypted _ \<Rightarrow> True | _ \<Rightarrow> False)"

definition budget_bytes :: "truncation_policy \<Rightarrow> nat \<Rightarrow> nat" where
  "budget_bytes p n = (case p of Bytes _ \<Rightarrow> n | Tokens _ \<Rightarrow> 4 * n)"

definition within_budget :: "truncation_policy \<Rightarrow> nat \<Rightarrow> item_budget \<Rightarrow> bool" where
  "within_budget p limit st =
     (case st of (out, remaining, _, _) \<Rightarrow>
        text_bytes out + budget_bytes p remaining \<le> limit \<or>
        remaining = 0 \<and> text_bytes out \<le> limit + 43)"

lemma text_cost_bytes:
  "utf8_len t < 2 ^ 63 \<Longrightarrow> utf8_len t \<le> budget_bytes p (text_cost p t)"
  by (cases p) (auto simp: text_cost_def budget_bytes_def approx_token_count_def
      saturating_add_def usize_max_def APPROX_BYTES_PER_TOKEN_def)

lemma snippet_budget: "byte_budget (snippet_policy p n) \<le> budget_bytes p n"
  by (cases p) (auto simp: byte_budget_def snippet_policy_def budget_bytes_def
      approx_bytes_for_tokens_def saturating_mul_def APPROX_BYTES_PER_TOKEN_def)

lemma budget_bytes_split:
  "c \<le> n \<Longrightarrow> budget_bytes p c + budget_bytes p (n - c) = budget_bytes p n"
  by (cases p) (auto simp: budget_bytes_def)

lemma truncate_item_bounded:
  assumes "within_budget p limit st"
    and small: "\<forall>t. it = OutText t \<longrightarrow> utf8_len t < 2 ^ 63"
  shows "\<exists>st1. truncate_item p est it st = Some st1 \<and> within_budget p limit st1 \<and>
    filter kept_always (fst st1) = filter kept_always (fst st) @ filter kept_always [it] \<and>
    fst (snd (snd st1)) + snd (snd (snd st1)) \<le> Suc (fst (snd (snd st)) + snd (snd (snd st)))"
proof -
  obtain out n a b where st: "st = (out, n, a, b)" by (metis prod_cases4)
  have le: "budget_bytes p (n - c) \<le> budget_bytes p n" for c
    by (cases p) (auto simp: budget_bytes_def)
  show ?thesis
  proof (cases it)
    case (OutText t)
    have t: "utf8_len t < 2 ^ 63" using small OutText by blast
    consider "n = 0" | "0 < n" "text_cost p t \<le> n" | "0 < n" "n < text_cost p t" by linarith
    then show ?thesis
    proof cases
      case 1
      with assms(1) show ?thesis
        by (simp add: OutText st truncate_item_def within_budget_def kept_always_def)
    next
      case 2
      with assms(1) text_cost_bytes [OF t, of p] budget_bytes_split [OF 2(2), of p]
      show ?thesis
        by (auto simp: OutText st truncate_item_def within_budget_def kept_always_def)
    next
      case 3
      have "utf8_len t \<le> usize_max" using t by (simp add: usize_max_def)
      from truncate_text_bounded [OF this] obtain u where u:
        "truncate_text t (snippet_policy p n) = Some u"
        "utf8_len u \<le> byte_budget (snippet_policy p n) + 43" by blast
      with snippet_budget [of p n] have "utf8_len u \<le> budget_bytes p n + 43" by linarith
      with 3 assms(1) u(1) show ?thesis
        by (auto simp: OutText st truncate_item_def within_budget_def kept_always_def)
    qed
  next
    case (OutAudio u)
    then show ?thesis
      using assms(1) le [of "audio_cost est p u"]
      by (auto simp: st truncate_item_def within_budget_def kept_always_def Let_def)
  qed (use assms(1) in \<open>auto simp: st truncate_item_def within_budget_def kept_always_def\<close>)
qed

lemma truncate_items_bounded:
  assumes "within_budget p limit st" "\<forall>t. OutText t \<in> set its \<longrightarrow> utf8_len t < 2 ^ 63"
  shows "\<exists>st1. truncate_items p est its st = Some st1 \<and> within_budget p limit st1 \<and>
    filter kept_always (fst st1) = filter kept_always (fst st) @ filter kept_always its \<and>
    fst (snd (snd st1)) + snd (snd (snd st1)) \<le>
      fst (snd (snd st)) + snd (snd (snd st)) + length its"
  using assms
proof (induction its arbitrary: st)
  case (Cons it its)
  have "\<forall>t. it = OutText t \<longrightarrow> utf8_len t < 2 ^ 63" using Cons.prems(2) by auto
  from truncate_item_bounded [OF Cons.prems(1) this] obtain st1 where st1:
    "truncate_item p est it st = Some st1" "within_budget p limit st1"
    "filter kept_always (fst st1) = filter kept_always (fst st) @ filter kept_always [it]"
    "fst (snd (snd st1)) + snd (snd (snd st1)) \<le> Suc (fst (snd (snd st)) + snd (snd (snd st)))"
    by blast
  have "\<forall>t. OutText t \<in> set its \<longrightarrow> utf8_len t < 2 ^ 63" using Cons.prems(2) by auto
  from Cons.IH [OF st1(2) this] obtain st2 where
    "truncate_items p est its st1 = Some st2" "within_budget p limit st2"
    "filter kept_always (fst st2) = filter kept_always (fst st1) @ filter kept_always its"
    "fst (snd (snd st2)) + snd (snd (snd st2)) \<le>
       fst (snd (snd st1)) + snd (snd (snd st1)) + length its"
    by blast
  with st1 show ?case by (intro exI [of _ st2]) auto
qed simp

lemma omission_notes_len:
  assumes "a \<le> usize_max" "b \<le> usize_max"
  shows "text_bytes (omission_notes a b) \<le> 91" "filter kept_always (omission_notes a b) = []"
proof -
  have "utf8_len (str ''[omitted '') = 9" "utf8_len (str '' text items ...]'') = 16"
    "utf8_len (str '' audio items ...]'') = 17" by code_simp+
  with utf8_len_dec [OF assms(1)] utf8_len_dec [OF assms(2)]
  show "text_bytes (omission_notes a b) \<le> 91" by (simp add: omission_notes_def)
qed (simp add: omission_notes_def kept_always_def)

text \<open>
  C30. Truncating the content items of a tool output does not panic. The text it leaves has at
  most the budget in bytes and 134 more: one truncation marker and two notes on omitted
  items. Images and encrypted content all survive, in order.
\<close>

theorem truncated_output_bounded:
  assumes "\<forall>t. OutText t \<in> set items \<longrightarrow> utf8_len t < 2 ^ 63" "length items \<le> usize_max"
    and "\<forall>k. p = Tokens k \<longrightarrow> 4 * k \<le> usize_max"
  shows "\<exists>out. truncate_function_output_items_with_policy items p estimate_audio = Some out \<and>
    text_bytes out \<le> byte_budget p + 134 \<and>
    filter kept_always out = filter kept_always items"
proof -
  let ?n = "case p of Bytes _ \<Rightarrow> byte_budget p | Tokens _ \<Rightarrow> token_budget p"
  have "budget_bytes p ?n = byte_budget p"
    using assms(3) by (cases p) (auto simp: budget_bytes_def byte_budget_def token_budget_def
        approx_bytes_for_tokens_def saturating_mul_def APPROX_BYTES_PER_TOKEN_def)
  then have "within_budget p (byte_budget p) ([], ?n, 0, 0)" by (simp add: within_budget_def)
  from truncate_items_bounded [OF this assms(1), of estimate_audio] obtain out n a b where st:
    "truncate_items p estimate_audio items ([], ?n, 0, 0) = Some (out, n, a, b)"
    "within_budget p (byte_budget p) (out, n, a, b)"
    "filter kept_always out = filter kept_always items" "a + b \<le> length items" by auto
  have "text_bytes out \<le> byte_budget p + 43" using st(2) by (auto simp: within_budget_def)
  moreover note omission_notes_len [of a b]
  moreover have "a \<le> usize_max" "b \<le> usize_max" using st(4) assms(2) by simp_all
  ultimately show ?thesis
    using st(1,3) by (simp add: truncate_function_output_items_with_policy_def Let_def)
qed

theorem truncated_output_bounded_witness:
  "\<exists>out. truncate_function_output_items_with_policy
       [OutText (str ''0123456789''), OutImage (str ''u'') None, OutText (str ''x'')] (Bytes 4)
       (\<lambda>_. 7) = Some out \<and>
     text_bytes out \<le> 138 \<and> filter kept_always out = [OutImage (str ''u'') None]"
proof -
  let ?its = "[OutText (str ''0123456789''), OutImage (str ''u'') None, OutText (str ''x'')]"
  have l: "utf8_len (str ''0123456789'') = 10" "utf8_len (str ''x'') = 1"
    "filter kept_always ?its = [OutImage (str ''u'') None]" by code_simp+
  have "\<forall>t. OutText t \<in> set ?its \<longrightarrow> utf8_len t < 2 ^ 63" using l by auto
  moreover have "length ?its \<le> usize_max" by (simp add: usize_max_def)
  ultimately show ?thesis
    using truncated_output_bounded [of ?its "Bytes 4" "\<lambda>_. 7"] l(3) by (simp add: byte_budget_def)
qed

end
