(* ===== verification/Context_History.thy ===== *)
theory Context_History
  imports Response_Items
begin

section \<open>The conversation history\<close>

text \<open>
  The context manager of \<^verbatim>\<open>core/src/context_manager\<close>: recording items, normalising
  them for a prompt, rollback, and token estimates. \<^verbatim>\<open>error_or_panic\<close> panics in a
  debug build and logs in a release build; the model returns its messages, so that a debug
  build panics when the list is not empty.

  Parameters: \<open>new_v5\<close>, the UUID of a name in the fixed namespace; \<open>estimate_audio\<close>
  and \<open>image_size\<close>, which decode media; \<open>json_len\<close>, the length of an item's JSON;
  \<open>is_communication\<close>, whether a text parses as an inter-agent communication. The turn
  context and the world-state snapshot are opaque values.
\<close>

subsection \<open>Calls and outputs\<close>

definition function_output_ids :: "response_item list \<Rightarrow> rstring list" where
  "function_output_ids items = [c. FunctionCallOutput _ c _ _ \<leftarrow> items]"

definition tool_search_output_ids :: "response_item list \<Rightarrow> rstring list" where
  "tool_search_output_ids items = [c. ToolSearchOutput _ (Some c) _ _ _ _ \<leftarrow> items]"

definition custom_tool_output_ids :: "response_item list \<Rightarrow> rstring list" where
  "custom_tool_output_ids items = [c. CustomToolCallOutput _ c _ _ _ \<leftarrow> items]"

definition with_suffix :: "rstring \<Rightarrow> rstring \<Rightarrow> rstring" where
  "with_suffix prefix suffix = prefix @ str ''_'' @ suffix"

definition synthetic_output_id ::
  "(rstring \<Rightarrow> rstring) \<Rightarrow> rstring \<Rightarrow> rstring option \<Rightarrow> rstring option" where
  "synthetic_output_id new_v5 prefix item_id =
     (case item_id of
        None \<Rightarrow> None
      | Some source_id \<Rightarrow>
          (if source_id = [] then None
           else Some (with_suffix prefix (new_v5 (prefix @ str '':'' @ source_id)))))"

definition aborted :: function_call_output_payload where
  "aborted = payload_from_text (str ''aborted'')"

text \<open>The output to insert after an item, and the message of \<^verbatim>\<open>error_or_panic\<close>.\<close>

definition missing_output ::
  "(rstring \<Rightarrow> rstring) \<Rightarrow> response_item list \<Rightarrow> response_item \<Rightarrow>
   (response_item \<times> rstring list) option" where
  "missing_output new_v5 items item =
     (case item of
        FunctionCall i _ _ _ _ call_id _ \<Rightarrow>
          (if call_id \<in> set (function_output_ids items) then None
           else Some (FunctionCallOutput (synthetic_output_id new_v5 (str ''fco'') i) call_id aborted None, []))
      | ToolSearchCall i (Some call_id) _ _ _ _ \<Rightarrow>
          (if call_id \<in> set (tool_search_output_ids items) then None
           else Some (ToolSearchOutput (synthetic_output_id new_v5 (str ''tso'') i) (Some call_id)
                  (str ''completed'') (str ''client'') [] None, []))
      | CustomToolCall i _ call_id _ _ _ _ \<Rightarrow>
          (if call_id \<in> set (custom_tool_output_ids items) then None
           else Some (CustomToolCallOutput (synthetic_output_id new_v5 (str ''ctco'') i) call_id None
                  aborted None,
                  [str ''Custom tool call output is missing for call id: '' @ call_id]))
      | LocalShellCall i (Some call_id) _ _ _ \<Rightarrow>
          (if call_id \<in> set (function_output_ids items) then None
           else Some (FunctionCallOutput (synthetic_output_id new_v5 (str ''fco'') i) call_id aborted None,
                  [str ''Local shell call output is missing for call id: '' @ call_id]))
      | _ \<Rightarrow> None)"

definition insert_at :: "nat \<Rightarrow> 'a \<Rightarrow> 'a list \<Rightarrow> 'a list" where
  "insert_at i x xs = take i xs @ x # drop i xs"

definition missing_outputs_to_insert ::
  "(rstring \<Rightarrow> rstring) \<Rightarrow> response_item list \<Rightarrow> (nat \<times> response_item \<times> rstring list) list" where
  "missing_outputs_to_insert new_v5 items =
     [(idx, m). (idx, item) \<leftarrow> enumerate 0 items,
        m \<leftarrow> (case missing_output new_v5 items item of None \<Rightarrow> [] | Some m \<Rightarrow> [m])]"

definition ensure_call_outputs_present ::
  "(rstring \<Rightarrow> rstring) \<Rightarrow> response_item list \<Rightarrow> response_item list \<times> rstring list" where
  "ensure_call_outputs_present new_v5 items =
     (let missing = missing_outputs_to_insert new_v5 items
      in (fold (\<lambda>(idx, output, _) its. insert_at (idx + 1) output its) (rev missing) items,
          concat (map (\<lambda>(_, _, reports). reports) missing)))"

definition function_call_ids :: "response_item list \<Rightarrow> rstring list" where
  "function_call_ids items = [c. FunctionCall _ _ _ _ _ c _ \<leftarrow> items]"

definition tool_search_call_ids :: "response_item list \<Rightarrow> rstring list" where
  "tool_search_call_ids items = [c. ToolSearchCall _ (Some c) _ _ _ _ \<leftarrow> items]"

definition local_shell_call_ids :: "response_item list \<Rightarrow> rstring list" where
  "local_shell_call_ids items = [c. LocalShellCall _ (Some c) _ _ _ \<leftarrow> items]"

definition custom_tool_call_ids :: "response_item list \<Rightarrow> rstring list" where
  "custom_tool_call_ids items = [c. CustomToolCall _ _ c _ _ _ _ \<leftarrow> items]"

text \<open>The message with which an orphan output is dropped.\<close>

definition orphan_report :: "response_item list \<Rightarrow> response_item \<Rightarrow> rstring option" where
  "orphan_report items item =
     (case item of
        FunctionCallOutput _ call_id _ _ \<Rightarrow>
          (if call_id \<in> set (function_call_ids items) \<or> call_id \<in> set (local_shell_call_ids items)
           then None
           else Some (str ''Orphan function call output for call id: '' @ call_id))
      | CustomToolCallOutput _ call_id _ _ _ \<Rightarrow>
          (if call_id \<in> set (custom_tool_call_ids items) then None
           else Some (str ''Orphan custom tool call output for call id: '' @ call_id))
      | ToolSearchOutput _ call_id _ execution _ _ \<Rightarrow>
          (if execution = str ''server'' then None
           else case call_id of
                  None \<Rightarrow> None
                | Some c \<Rightarrow>
                    (if c \<in> set (tool_search_call_ids items) then None
                     else Some (str ''Orphan tool search output for call id: '' @ c)))
      | _ \<Rightarrow> None)"

definition remove_orphan_outputs :: "response_item list \<Rightarrow> response_item list \<times> rstring list" where
  "remove_orphan_outputs items =
     (filter (\<lambda>item. orphan_report items item = None) items,
      [r. item \<leftarrow> items, r \<leftarrow> (case orphan_report items item of None \<Rightarrow> [] | Some r \<Rightarrow> [r])])"

fun remove_first_matching :: "('a \<Rightarrow> bool) \<Rightarrow> 'a list \<Rightarrow> 'a list" where
  "remove_first_matching p [] = []"
| "remove_first_matching p (x # xs) = (if p x then xs else x # remove_first_matching p xs)"

definition is_function_output_for :: "rstring \<Rightarrow> response_item \<Rightarrow> bool" where
  "is_function_output_for c item = (case item of FunctionCallOutput _ e _ _ \<Rightarrow> e = c | _ \<Rightarrow> False)"

definition is_function_call_for :: "rstring \<Rightarrow> response_item \<Rightarrow> bool" where
  "is_function_call_for c item = (case item of FunctionCall _ _ _ _ _ e _ \<Rightarrow> e = c | _ \<Rightarrow> False)"

definition is_local_shell_call_for :: "rstring \<Rightarrow> response_item \<Rightarrow> bool" where
  "is_local_shell_call_for c item =
     (case item of LocalShellCall _ e _ _ _ \<Rightarrow> e = Some c | _ \<Rightarrow> False)"

definition is_tool_search_output_for :: "rstring \<Rightarrow> response_item \<Rightarrow> bool" where
  "is_tool_search_output_for c item =
     (case item of ToolSearchOutput _ e _ _ _ _ \<Rightarrow> e = Some c | _ \<Rightarrow> False)"

definition is_tool_search_call_for :: "rstring \<Rightarrow> response_item \<Rightarrow> bool" where
  "is_tool_search_call_for c item =
     (case item of ToolSearchCall _ e _ _ _ _ \<Rightarrow> e = Some c | _ \<Rightarrow> False)"

definition is_custom_output_for :: "rstring \<Rightarrow> response_item \<Rightarrow> bool" where
  "is_custom_output_for c item = (case item of CustomToolCallOutput _ e _ _ _ \<Rightarrow> e = c | _ \<Rightarrow> False)"

definition is_custom_call_for :: "rstring \<Rightarrow> response_item \<Rightarrow> bool" where
  "is_custom_call_for c item = (case item of CustomToolCall _ _ e _ _ _ _ \<Rightarrow> e = c | _ \<Rightarrow> False)"

definition remove_corresponding_for ::
  "response_item \<Rightarrow> response_item list \<Rightarrow> response_item list" where
  "remove_corresponding_for item items =
     (case item of
        FunctionCall _ _ _ _ _ c _ \<Rightarrow> remove_first_matching (is_function_output_for c) items
      | FunctionCallOutput _ c _ _ \<Rightarrow>
          (if list_ex (is_function_call_for c) items
           then remove_first_matching (is_function_call_for c) items
           else if list_ex (is_local_shell_call_for c) items
           then remove_first_matching (is_local_shell_call_for c) items
           else items)
      | ToolSearchCall _ (Some c) _ _ _ _ \<Rightarrow> remove_first_matching (is_tool_search_output_for c) items
      | ToolSearchOutput _ (Some c) _ _ _ _ \<Rightarrow> remove_first_matching (is_tool_search_call_for c) items
      | CustomToolCall _ _ c _ _ _ _ \<Rightarrow> remove_first_matching (is_custom_output_for c) items
      | CustomToolCallOutput _ c _ _ _ \<Rightarrow> remove_first_matching (is_custom_call_for c) items
      | LocalShellCall _ (Some c) _ _ _ \<Rightarrow> remove_first_matching (is_function_output_for c) items
      | _ \<Rightarrow> items)"

subsection \<open>Unsupported media\<close>

datatype input_modality = TextInput | ImageInput | AudioInput

definition IMAGE_CONTENT_OMITTED_PLACEHOLDER :: rstring where
  "IMAGE_CONTENT_OMITTED_PLACEHOLDER =
     str ''image content omitted because you do not support image input''"

definition AUDIO_CONTENT_OMITTED_PLACEHOLDER :: rstring where
  "AUDIO_CONTENT_OMITTED_PLACEHOLDER =
     str ''audio content omitted because you do not support audio input''"

definition map_payload ::
  "(function_call_output_content_item \<Rightarrow> function_call_output_content_item) \<Rightarrow>
   function_call_output_payload \<Rightarrow> function_call_output_payload" where
  "map_payload f p =
     (case body p of ContentItems its \<Rightarrow> p\<lparr>body := ContentItems (map f its)\<rparr> | Text _ \<Rightarrow> p)"

definition strip_images_item :: "response_item \<Rightarrow> response_item" where
  "strip_images_item item =
     (let out = map_payload (\<lambda>c. if is_OutImage c then OutText IMAGE_CONTENT_OMITTED_PLACEHOLDER else c)
      in case item of
           Message i r cs ph md \<Rightarrow>
             Message i r (map (\<lambda>c. if is_InputImage c then InputText IMAGE_CONTENT_OMITTED_PLACEHOLDER
                               else c) cs) ph md
         | FunctionCallOutput i c p md \<Rightarrow> FunctionCallOutput i c (out p) md
         | CustomToolCallOutput i c n p md \<Rightarrow> CustomToolCallOutput i c n (out p) md
         | ImageGenerationCall i st rp _ md \<Rightarrow> ImageGenerationCall i st rp [] md
         | _ \<Rightarrow> item)"

definition strip_images_when_unsupported ::
  "input_modality list \<Rightarrow> response_item list \<Rightarrow> response_item list" where
  "strip_images_when_unsupported input_modalities items =
     (if ImageInput \<in> set input_modalities then items else map strip_images_item items)"

definition strip_audio_item :: "response_item \<Rightarrow> response_item" where
  "strip_audio_item item =
     (let out = map_payload (\<lambda>c. if is_OutAudio c then OutText AUDIO_CONTENT_OMITTED_PLACEHOLDER else c)
      in case item of
           Message i r cs ph md \<Rightarrow>
             Message i r (map (\<lambda>c. if is_InputAudio c then InputText AUDIO_CONTENT_OMITTED_PLACEHOLDER
                               else c) cs) ph md
         | FunctionCallOutput i c p md \<Rightarrow> FunctionCallOutput i c (out p) md
         | CustomToolCallOutput i c n p md \<Rightarrow> CustomToolCallOutput i c n (out p) md
         | _ \<Rightarrow> item)"

definition strip_audio_when_unsupported ::
  "input_modality list \<Rightarrow> response_item list \<Rightarrow> response_item list" where
  "strip_audio_when_unsupported input_modalities items =
     (if AudioInput \<in> set input_modalities then items else map strip_audio_item items)"

subsection \<open>Token usage\<close>

text \<open>Unchecked \<^verbatim>\<open>i64\<close> arithmetic wraps in a release build.\<close>

definition wrap64 :: "int \<Rightarrow> int" where
  "wrap64 x = (x + 2 ^ 63) mod 2 ^ 64 - 2 ^ 63"

definition saturating_i64 :: "int \<Rightarrow> int" where
  "saturating_i64 x = max i64_min (min i64_max x)"

record token_usage =
  input_tokens :: int
  cached_input_tokens :: int
  cache_write_input_tokens :: int
  output_tokens :: int
  reasoning_output_tokens :: int
  total_tokens :: int
  codex_rollout_budget_units :: "json option"

definition default_usage :: token_usage where
  "default_usage =
     \<lparr>input_tokens = 0, cached_input_tokens = 0, cache_write_input_tokens = 0, output_tokens = 0,
      reasoning_output_tokens = 0, total_tokens = 0, codex_rollout_budget_units = None\<rparr>"

definition add_assign :: "token_usage \<Rightarrow> token_usage \<Rightarrow> token_usage" where
  "add_assign u other =
     u\<lparr>input_tokens := wrap64 (input_tokens u + input_tokens other),
       cached_input_tokens := wrap64 (cached_input_tokens u + cached_input_tokens other),
       cache_write_input_tokens :=
         wrap64 (cache_write_input_tokens u + cache_write_input_tokens other),
       output_tokens := wrap64 (output_tokens u + output_tokens other),
       reasoning_output_tokens := wrap64 (reasoning_output_tokens u + reasoning_output_tokens other),
       total_tokens := wrap64 (total_tokens u + total_tokens other)\<rparr>"

record token_usage_info =
  total_token_usage :: token_usage
  last_token_usage :: token_usage
  model_context_window :: "int option"

definition append_last_usage :: "token_usage \<Rightarrow> token_usage_info \<Rightarrow> token_usage_info" where
  "append_last_usage latest i =
     i\<lparr>total_token_usage := add_assign (total_token_usage i) latest, last_token_usage := latest\<rparr>"

definition new_or_append ::
  "token_usage_info option \<Rightarrow> token_usage option \<Rightarrow> int option \<Rightarrow> token_usage_info option" where
  "new_or_append info last_usage window =
     (if info = None \<and> last_usage = None then None
      else let i0 = (case info of
                       Some i \<Rightarrow> i
                     | None \<Rightarrow> \<lparr>total_token_usage = default_usage, last_token_usage = default_usage,
                               model_context_window = window\<rparr>);
               i1 = (case last_usage of Some l \<Rightarrow> append_last_usage l i0 | None \<Rightarrow> i0)
           in Some (case window of Some w \<Rightarrow> i1\<lparr>model_context_window := Some w\<rparr> | None \<Rightarrow> i1))"

definition fill_to_context_window :: "int \<Rightarrow> token_usage_info \<Rightarrow> token_usage_info" where
  "fill_to_context_window context_window i =
     (let previous_total = total_tokens (total_token_usage i);
          delta = max (wrap64 (context_window - previous_total)) 0
      in i\<lparr>model_context_window := Some context_window,
           total_token_usage := default_usage\<lparr>total_tokens := context_window\<rparr>,
           last_token_usage := default_usage\<lparr>total_tokens := delta\<rparr>\<rparr>)"

definition full_context_window :: "int \<Rightarrow> token_usage_info" where
  "full_context_window context_window =
     fill_to_context_window context_window
       \<lparr>total_token_usage = default_usage, last_token_usage = default_usage,
        model_context_window = Some context_window\<rparr>"

subsection \<open>Estimating an item\<close>

definition parse_base64_data_url :: "rstring \<Rightarrow> rstring \<Rightarrow> rstring option" where
  "parse_base64_data_url url media_type_prefix =
     (if \<not> starts_with_marker (str ''data:'') url then None
      else case split_once 44 url of
             None \<Rightarrow> None
           | Some (metadata, payload) \<Rightarrow>
               (case split_on 59 (drop 5 metadata) of
                  [] \<Rightarrow> None
                | mime_type # params \<Rightarrow>
                    (if \<not> starts_with_marker media_type_prefix mime_type then None
                     else if \<not> list_ex (\<lambda>part. eq_ignore_ascii_case part (str ''base64'')) params then None
                     else Some payload)))"

definition RESIZED_IMAGE_BYTES_ESTIMATE :: int where "RESIZED_IMAGE_BYTES_ESTIMATE = 7373"
definition ORIGINAL_IMAGE_PATCH_SIZE :: int where "ORIGINAL_IMAGE_PATCH_SIZE = 32"
definition ORIGINAL_IMAGE_MAX_PATCHES :: nat where "ORIGINAL_IMAGE_MAX_PATCHES = 10000"

text \<open>
  \<open>image_size\<close> is what decoding the payload gives, if it succeeds. The cache around the
  computation does not change its value.
\<close>

definition estimate_original_image_bytes ::
  "(rstring \<Rightarrow> (nat \<times> nat) option) \<Rightarrow> rstring \<Rightarrow> int option" where
  "estimate_original_image_bytes image_size url =
     (case parse_base64_data_url url (str ''image/'') of
        None \<Rightarrow> None
      | Some payload \<Rightarrow>
          (case image_size payload of
             None \<Rightarrow> None
           | Some (w, h) \<Rightarrow>
               (let patches_wide = (int w + (ORIGINAL_IMAGE_PATCH_SIZE - 1)) div ORIGINAL_IMAGE_PATCH_SIZE;
                    patches_high = (int h + (ORIGINAL_IMAGE_PATCH_SIZE - 1)) div ORIGINAL_IMAGE_PATCH_SIZE;
                    patch_count = min (nat (saturating_i64 (patches_wide * patches_high)))
                      ORIGINAL_IMAGE_MAX_PATCHES
                in Some (i64_of_nat (approx_bytes_for_tokens patch_count)))))"

definition estimate_reasoning_length :: "nat \<Rightarrow> nat" where
  "estimate_reasoning_length encoded_len = saturating_mul encoded_len 3 div 4 - 650"

definition estimate_encrypted_function_output_length :: "nat \<Rightarrow> nat" where
  "estimate_encrypted_function_output_length encoded_len =
     (saturating_mul encoded_len 9 + 15) div 16"

text \<open>Payload bytes to subtract and bytes to add instead, accumulated over some media.\<close>

definition accumulate :: "(int \<times> int) list \<Rightarrow> int \<times> int" where
  "accumulate adjustments =
     foldl (\<lambda>(p, r) (dp, dr). (saturating_i64 (p + dp), saturating_i64 (r + dr))) (0, 0) adjustments"

definition image_adjustment ::
  "(rstring \<Rightarrow> (nat \<times> nat) option) \<Rightarrow> rstring \<Rightarrow> image_detail option \<Rightarrow> (int \<times> int) list" where
  "image_adjustment image_size url d =
     (case parse_base64_data_url url (str ''image/'') of
        None \<Rightarrow> []
      | Some payload \<Rightarrow>
          [(i64_of_nat (utf8_len payload),
            if d = Some OriginalDetail
            then (case estimate_original_image_bytes image_size url of
                    None \<Rightarrow> RESIZED_IMAGE_BYTES_ESTIMATE | Some n \<Rightarrow> n)
            else RESIZED_IMAGE_BYTES_ESTIMATE)])"

definition audio_adjustment :: "(rstring \<Rightarrow> nat) \<Rightarrow> rstring \<Rightarrow> (int \<times> int) list" where
  "audio_adjustment estimate_audio url =
     (case parse_base64_data_url url (str ''audio/'') of
        None \<Rightarrow> []
      | Some payload \<Rightarrow>
          [(i64_of_nat (utf8_len payload),
            i64_of_nat (approx_bytes_for_tokens (estimate_audio url)))])"

definition output_items :: "function_call_output_payload \<Rightarrow> function_call_output_content_item list" where
  "output_items p = (case body p of ContentItems its \<Rightarrow> its | Text _ \<Rightarrow> [])"

definition image_data_url_estimate_adjustment ::
  "(rstring \<Rightarrow> (nat \<times> nat) option) \<Rightarrow> response_item \<Rightarrow> int \<times> int" where
  "image_data_url_estimate_adjustment image_size item =
     accumulate
       (case item of
          Message _ _ cs _ _ \<Rightarrow> concat [image_adjustment image_size u d. InputImage u d \<leftarrow> cs]
        | FunctionCallOutput _ _ p _ \<Rightarrow>
            concat [image_adjustment image_size u d. OutImage u d \<leftarrow> output_items p]
        | CustomToolCallOutput _ _ _ p _ \<Rightarrow>
            concat [image_adjustment image_size u d. OutImage u d \<leftarrow> output_items p]
        | _ \<Rightarrow> [])"

definition audio_data_url_estimate_adjustment ::
  "(rstring \<Rightarrow> nat) \<Rightarrow> response_item \<Rightarrow> int \<times> int" where
  "audio_data_url_estimate_adjustment estimate_audio item =
     accumulate
       (case item of
          Message _ _ cs _ _ \<Rightarrow> concat [audio_adjustment estimate_audio u. InputAudio u \<leftarrow> cs]
        | FunctionCallOutput _ _ p _ \<Rightarrow>
            concat [audio_adjustment estimate_audio u. OutAudio u \<leftarrow> output_items p]
        | CustomToolCallOutput _ _ _ p _ \<Rightarrow>
            concat [audio_adjustment estimate_audio u. OutAudio u \<leftarrow> output_items p]
        | _ \<Rightarrow> [])"

definition encrypted_adjustment :: "rstring \<Rightarrow> int \<times> int" where
  "encrypted_adjustment e =
     (i64_of_nat (utf8_len e),
      i64_of_nat (estimate_encrypted_function_output_length (utf8_len e)))"

definition encrypted_function_output_estimate_adjustment :: "response_item \<Rightarrow> int \<times> int" where
  "encrypted_function_output_estimate_adjustment item =
     accumulate
       (case item of
          FunctionCallOutput _ _ p _ \<Rightarrow> [encrypted_adjustment e. OutEncrypted e \<leftarrow> output_items p]
        | AgentMessage _ _ _ cs _ \<Rightarrow> [encrypted_adjustment e. AgentEncrypted e \<leftarrow> cs]
        | _ \<Rightarrow> [])"

record estimator =
  json_len :: "response_item \<Rightarrow> nat"
  image_size :: "rstring \<Rightarrow> (nat \<times> nat) option"
  estimate_audio :: "rstring \<Rightarrow> nat"

definition estimate_response_item_model_visible_bytes :: "estimator \<Rightarrow> response_item \<Rightarrow> int" where
  "estimate_response_item_model_visible_bytes est item =
     (let adjusted =
        (let raw = i64_of_nat (json_len est item);
             (ip, ir) = image_data_url_estimate_adjustment (image_size est) item;
             (ap, ar) = audio_data_url_estimate_adjustment (estimate_audio est) item;
             (ep, er) = encrypted_function_output_estimate_adjustment item;
             raw = saturating_i64 (saturating_i64 (raw - ip) + ir);
             raw = saturating_i64 (saturating_i64 (raw - ap) + ar)
         in saturating_i64 (saturating_i64 (raw - ep) + er))
      in case item of
           Reasoning _ _ _ (Some e) _ \<Rightarrow> i64_of_nat (estimate_reasoning_length (utf8_len e))
         | Compaction _ e _ \<Rightarrow> i64_of_nat (estimate_reasoning_length (utf8_len e))
         | ContextCompaction _ (Some e) _ \<Rightarrow> i64_of_nat (estimate_reasoning_length (utf8_len e))
         | _ \<Rightarrow> adjusted)"

definition estimate_item_token_count :: "estimator \<Rightarrow> response_item \<Rightarrow> int" where
  "estimate_item_token_count est item =
     approx_tokens_from_byte_count_i64 (estimate_response_item_model_visible_bytes est item)"

definition estimate_items :: "estimator \<Rightarrow> response_item list \<Rightarrow> int" where
  "estimate_items est items =
     foldl (\<lambda>acc n. saturating_i64 (acc + n)) 0 (map (estimate_item_token_count est) items)"

subsection \<open>The context manager\<close>

record context_manager =
  cm_items :: "response_item list"
  history_version :: nat
  token_info :: "token_usage_info option"
  reference_context_item :: "json option"
  world_state_baseline :: "json option"

definition new_context_manager :: context_manager where
  "new_context_manager =
     \<lparr>cm_items = [], history_version = 0, token_info = new_or_append None None None,
      reference_context_item = None, world_state_baseline = None\<rparr>"

definition set_token_usage_full :: "int \<Rightarrow> context_manager \<Rightarrow> context_manager" where
  "set_token_usage_full context_window cm =
     (case token_info cm of
        Some i \<Rightarrow> cm\<lparr>token_info := Some (fill_to_context_window context_window i)\<rparr>
      | None \<Rightarrow> cm\<lparr>token_info := Some (full_context_window context_window)\<rparr>)"

definition update_token_info :: "token_usage \<Rightarrow> int option \<Rightarrow> context_manager \<Rightarrow> context_manager" where
  "update_token_info usage window cm =
     cm\<lparr>token_info := new_or_append (token_info cm) (Some usage) window\<rparr>"

definition is_api_message :: "response_item \<Rightarrow> bool" where
  "is_api_message item =
     (case item of
        Message _ r _ _ _ \<Rightarrow> r \<noteq> str ''system''
      | CompactionTrigger \<Rightarrow> False
      | OtherItem \<Rightarrow> False
      | _ \<Rightarrow> True)"

definition process_item ::
  "(rstring \<Rightarrow> nat) \<Rightarrow> response_item \<Rightarrow> truncation_policy \<Rightarrow> response_item option" where
  "process_item est_audio item p =
     (let p1 = policy_mul_1_2 p
      in case item of
           FunctionCallOutput i c out md \<Rightarrow>
             map_option (\<lambda>o1. FunctionCallOutput i c o1 md)
               (truncate_function_output_payload est_audio out p1)
         | CustomToolCallOutput i c n out md \<Rightarrow>
             map_option (\<lambda>o1. CustomToolCallOutput i c n o1 md)
               (truncate_function_output_payload est_audio out p1)
         | _ \<Rightarrow> Some item)"

primrec record_items ::
  "(rstring \<Rightarrow> nat) \<Rightarrow> response_item list \<Rightarrow> truncation_policy \<Rightarrow> context_manager \<Rightarrow>
   context_manager option" where
  "record_items est_audio [] p cm = Some cm"
| "record_items est_audio (item # items) p cm =
     (if \<not> is_api_message item then record_items est_audio items p cm
      else case process_item est_audio item p of
             None \<Rightarrow> None
           | Some processed \<Rightarrow>
               record_items est_audio items p (cm\<lparr>cm_items := cm_items cm @ [processed]\<rparr>))"

definition normalize_history ::
  "(rstring \<Rightarrow> rstring) \<Rightarrow> input_modality list \<Rightarrow> response_item list \<Rightarrow>
   response_item list \<times> rstring list" where
  "normalize_history new_v5 input_modalities items =
     (case ensure_call_outputs_present new_v5 items of
        (items1, reports1) \<Rightarrow>
          (case remove_orphan_outputs items1 of
             (items2, reports2) \<Rightarrow>
               (strip_audio_when_unsupported input_modalities
                  (strip_images_when_unsupported input_modalities items2),
                reports1 @ reports2)))"

definition for_prompt ::
  "(rstring \<Rightarrow> rstring) \<Rightarrow> input_modality list \<Rightarrow> context_manager \<Rightarrow>
   response_item list \<times> rstring list" where
  "for_prompt new_v5 input_modalities cm = normalize_history new_v5 input_modalities (cm_items cm)"

definition remove_first_item :: "context_manager \<Rightarrow> context_manager" where
  "remove_first_item cm =
     (case cm_items cm of
        [] \<Rightarrow> cm
      | removed # items \<Rightarrow>
          cm\<lparr>cm_items := remove_corresponding_for removed items, world_state_baseline := None\<rparr>)"

definition replace_items :: "response_item list \<Rightarrow> context_manager \<Rightarrow> context_manager" where
  "replace_items items cm =
     cm\<lparr>cm_items := items, history_version := saturating_add (history_version cm) 1,
        world_state_baseline := None\<rparr>"

subsection \<open>Rollback\<close>

definition is_inter_agent_instruction_content ::
  "(rstring \<Rightarrow> bool) \<Rightarrow> content_item list \<Rightarrow> bool" where
  "is_inter_agent_instruction_content is_communication cs =
     (case cs of
        [InputText t] \<Rightarrow> is_communication t
      | [OutputText t] \<Rightarrow> is_communication t
      | _ \<Rightarrow> False)"

definition is_user_turn_boundary :: "(rstring \<Rightarrow> bool) \<Rightarrow> response_item \<Rightarrow> bool" where
  "is_user_turn_boundary is_communication item =
     (case item of
        AgentMessage _ _ _ _ _ \<Rightarrow> True
      | Message _ r cs _ _ \<Rightarrow>
          (r = str ''user'' \<and> \<not> is_contextual_user_message_content cs) \<or>
          (r = str ''assistant'' \<and> is_inter_agent_instruction_content is_communication cs)
      | _ \<Rightarrow> False)"

definition user_message_positions :: "(rstring \<Rightarrow> bool) \<Rightarrow> response_item list \<Rightarrow> nat list" where
  "user_message_positions is_communication items =
     [idx. (idx, item) \<leftarrow> enumerate 0 items, is_user_turn_boundary is_communication item]"

text \<open>What the walk above a rollback cut removes.\<close>

definition is_dev_context :: "response_item \<Rightarrow> bool" where
  "is_dev_context item =
     (case item of
        Message _ r cs _ _ \<Rightarrow> r = str ''developer'' \<and> is_contextual_dev_message_content cs
      | _ \<Rightarrow> False)"

definition is_user_context :: "response_item \<Rightarrow> bool" where
  "is_user_context item =
     (case item of
        Message _ r cs _ _ \<Rightarrow> r = str ''user'' \<and> is_contextual_user_message_content cs
      | _ \<Rightarrow> False)"

definition is_mixed_dev_context :: "response_item \<Rightarrow> bool" where
  "is_mixed_dev_context item =
     (case item of
        Message _ _ cs _ _ \<Rightarrow> is_dev_context item \<and> has_non_contextual_dev_message_content cs
      | _ \<Rightarrow> False)"

fun trim_pre_turn_context_updates ::
  "response_item list \<Rightarrow> nat \<Rightarrow> nat \<Rightarrow> json option \<Rightarrow> nat \<times> json option" where
  "trim_pre_turn_context_updates snapshot first_idx cut_idx reference =
     (if cut_idx > first_idx
      then let item = snapshot ! (cut_idx - 1)
           in if is_dev_context item
              then trim_pre_turn_context_updates snapshot first_idx (cut_idx - 1)
                     (if is_mixed_dev_context item then None else reference)
              else if is_user_context item
              then trim_pre_turn_context_updates snapshot first_idx (cut_idx - 1) reference
              else (cut_idx, reference)
      else (cut_idx, reference))"

declare trim_pre_turn_context_updates.simps [simp del]

definition drop_last_n_user_turns ::
  "(rstring \<Rightarrow> bool) \<Rightarrow> nat \<Rightarrow> context_manager \<Rightarrow> context_manager" where
  "drop_last_n_user_turns is_communication num_turns cm =
     (if num_turns = 0 then cm
      else let snapshot = cm_items cm; positions = user_message_positions is_communication snapshot
           in case positions of
                [] \<Rightarrow> replace_items snapshot cm
              | first_idx # _ \<Rightarrow>
                  (let cut = (if num_turns \<ge> length positions then first_idx
                              else positions ! (length positions - num_turns))
                   in case trim_pre_turn_context_updates snapshot first_idx cut
                             (reference_context_item cm) of
                        (cut1, reference) \<Rightarrow>
                          replace_items (take cut1 snapshot)
                            (cm\<lparr>reference_context_item := reference\<rparr>)))"

subsection \<open>Accounting\<close>

definition is_model_generated_item :: "response_item \<Rightarrow> bool" where
  "is_model_generated_item item =
     (case item of
        Message _ r _ _ _ \<Rightarrow> r = str ''assistant''
      | Reasoning _ _ _ _ _ \<Rightarrow> True
      | FunctionCall _ _ _ _ _ _ _ \<Rightarrow> True
      | ToolSearchCall _ _ _ _ _ _ \<Rightarrow> True
      | WebSearchCall _ _ _ _ \<Rightarrow> True
      | ImageGenerationCall _ _ _ _ _ \<Rightarrow> True
      | CustomToolCall _ _ _ _ _ _ _ \<Rightarrow> True
      | LocalShellCall _ _ _ _ _ \<Rightarrow> True
      | Compaction _ _ _ \<Rightarrow> True
      | ContextCompaction _ _ _ \<Rightarrow> True
      | _ \<Rightarrow> False)"

text \<open>\<^verbatim>\<open>iter().rposition(p)\<close>\<close>

definition rposition :: "('a \<Rightarrow> bool) \<Rightarrow> 'a list \<Rightarrow> nat option" where
  "rposition p xs = List.find (\<lambda>i. p (xs ! i)) (rev [0..<length xs])"

definition items_after_last_model_generated_item :: "response_item list \<Rightarrow> response_item list" where
  "items_after_last_model_generated_item items =
     drop (case rposition is_model_generated_item items of
             None \<Rightarrow> length items | Some i \<Rightarrow> saturating_add i 1) items"

definition get_non_last_reasoning_items_tokens ::
  "(rstring \<Rightarrow> bool) \<Rightarrow> estimator \<Rightarrow> response_item list \<Rightarrow> int" where
  "get_non_last_reasoning_items_tokens is_communication est items =
     (case rposition (is_user_turn_boundary is_communication) items of
        None \<Rightarrow> 0
      | Some i \<Rightarrow>
          estimate_items est
            (filter (\<lambda>item. case item of Reasoning _ _ _ (Some _) _ \<Rightarrow> True | _ \<Rightarrow> False) (take i items)))"

definition get_total_token_usage ::
  "(rstring \<Rightarrow> bool) \<Rightarrow> estimator \<Rightarrow> bool \<Rightarrow> context_manager \<Rightarrow> int" where
  "get_total_token_usage is_communication est server_reasoning_included cm =
     (let last_tokens = (case token_info cm of None \<Rightarrow> 0 | Some i \<Rightarrow> total_tokens (last_token_usage i));
          after = estimate_items est (items_after_last_model_generated_item (cm_items cm))
      in if server_reasoning_included then saturating_i64 (last_tokens + after)
         else saturating_i64 (saturating_i64 (last_tokens +
                get_non_last_reasoning_items_tokens is_communication est (cm_items cm)) + after))"

definition estimate_token_count_with_base_instructions ::
  "estimator \<Rightarrow> rstring \<Rightarrow> context_manager \<Rightarrow> int" where
  "estimate_token_count_with_base_instructions est base cm =
     saturating_i64 (i64_of_nat (approx_token_count base) + estimate_items est (cm_items cm))"

subsection \<open>Context messages\<close>

datatype message_group = Standalone | Mergeable

text \<open>What a contextual fragment answers: its role, its rendering and whether it stands alone.\<close>

record context_fragment =
  frag_role :: rstring
  frag_text :: rstring
  requires_separate_message :: bool

definition build_text_message :: "rstring \<Rightarrow> rstring list \<Rightarrow> response_item option" where
  "build_text_message r text_sections =
     (if text_sections = [] then None
      else Some (Message None r (map InputText text_sections) None None))"

definition merge_fragment ::
  "(rstring \<times> message_group \<times> rstring list) list \<Rightarrow> context_fragment \<Rightarrow>
   (rstring \<times> message_group \<times> rstring list) list" where
  "merge_fragment messages fragment =
     (let r = frag_role fragment;
          group = (if requires_separate_message fragment then Standalone else Mergeable);
          fresh = messages @ [(r, group, [frag_text fragment])]
      in if messages = [] then fresh
         else case List.last messages of
                (previous_role, previous_group, text_sections) \<Rightarrow>
                  (if previous_role = r \<and> previous_group = Mergeable \<and> group = Mergeable
                   then butlast messages @
                     [(previous_role, previous_group, text_sections @ [frag_text fragment])]
                   else fresh))"

definition merge_contextual_fragments :: "context_fragment list \<Rightarrow> response_item list" where
  "merge_contextual_fragments fragments =
     List.map_filter (\<lambda>(r, _, text_sections). build_text_message r text_sections)
       (foldl merge_fragment [] fragments)"

text \<open>\<^verbatim>\<open>build_developer_update_item\<close> and \<^verbatim>\<open>build_contextual_user_message\<close>\<close>

definition build_developer_update_item :: "rstring list \<Rightarrow> response_item option" where
  "build_developer_update_item = build_text_message (str ''developer'')"

definition build_contextual_user_message :: "rstring list \<Rightarrow> response_item option" where
  "build_contextual_user_message = build_text_message (str ''user'')"

end
