(* ===== verification/Context_History_Correct.thy ===== *)
theory Context_History_Correct
  imports Context_History
begin

section \<open>What the conversation history guarantees\<close>

text \<open>
  A prompt pairs calls with outputs and carries no medium the model cannot read; dropping the
  oldest item keeps the pairing; rollback drops whole turns together with the context
  messages directly above them.
\<close>

subsection \<open>The key that pairs a call with its output\<close>

datatype call_key = FunctionKey rstring | CustomKey rstring | SearchKey rstring

definition key_of_call :: "response_item \<Rightarrow> call_key option" where
  "key_of_call item =
     (case item of
        FunctionCall _ _ _ _ _ c _ \<Rightarrow> Some (FunctionKey c)
      | LocalShellCall _ (Some c) _ _ _ \<Rightarrow> Some (FunctionKey c)
      | CustomToolCall _ _ c _ _ _ _ \<Rightarrow> Some (CustomKey c)
      | ToolSearchCall _ (Some c) _ _ _ _ \<Rightarrow> Some (SearchKey c)
      | _ \<Rightarrow> None)"

definition key_of_output :: "response_item \<Rightarrow> call_key option" where
  "key_of_output item =
     (case item of
        FunctionCallOutput _ c _ _ \<Rightarrow> Some (FunctionKey c)
      | CustomToolCallOutput _ c _ _ _ \<Rightarrow> Some (CustomKey c)
      | ToolSearchOutput _ (Some c) _ _ _ _ \<Rightarrow> Some (SearchKey c)
      | _ \<Rightarrow> None)"

text \<open>A search the server ran has no call in the history.\<close>

definition from_server :: "response_item \<Rightarrow> bool" where
  "from_server item =
     (case item of ToolSearchOutput _ _ _ execution _ _ \<Rightarrow> execution = str ''server'' | _ \<Rightarrow> False)"

definition call_keys :: "response_item list \<Rightarrow> call_key list" where
  "call_keys items = List.map_filter key_of_call items"

definition output_keys :: "response_item list \<Rightarrow> call_key list" where
  "output_keys items = List.map_filter key_of_output items"

definition answered :: "response_item list \<Rightarrow> response_item \<Rightarrow> bool" where
  "answered items item \<longleftrightarrow>
     (case key_of_call item of None \<Rightarrow> True | Some k \<Rightarrow> k \<in> set (output_keys items))"

definition called :: "response_item list \<Rightarrow> response_item \<Rightarrow> bool" where
  "called items item \<longleftrightarrow>
     (case key_of_output item of
        None \<Rightarrow> True | Some k \<Rightarrow> from_server item \<or> k \<in> set (call_keys items))"

definition paired :: "response_item list \<Rightarrow> bool" where
  "paired items \<longleftrightarrow> list_all (answered items) items \<and> list_all (called items) items"

lemma in_map_filter [simp]: "k \<in> set (List.map_filter f xs) \<longleftrightarrow> (\<exists>x\<in>set xs. f x = Some k)"
  by (force simp: List.map_filter_def)

lemma set_call_keys: "set (call_keys items) = {k. \<exists>x\<in>set items. key_of_call x = Some k}"
  by (auto simp: call_keys_def)

lemma set_output_keys: "set (output_keys items) = {k. \<exists>x\<in>set items. key_of_output x = Some k}"
  by (auto simp: output_keys_def)


lemma output_keys_Cons:
  "output_keys (x # xs) = (case key_of_output x of None \<Rightarrow> output_keys xs | Some k \<Rightarrow> k # output_keys xs)"
  by (simp add: output_keys_def List.map_filter_simps split: option.split)

lemma call_keys_Cons:
  "call_keys (x # xs) = (case key_of_call x of None \<Rightarrow> call_keys xs | Some k \<Rightarrow> k # call_keys xs)"
  by (simp add: call_keys_def List.map_filter_simps split: option.split)

lemma output_keys_Nil [simp]: "output_keys [] = []"
  by (simp add: output_keys_def List.map_filter_simps)

lemma call_keys_Nil [simp]: "call_keys [] = []"
  by (simp add: call_keys_def List.map_filter_simps)

lemma output_keys_append [simp]: "output_keys (xs @ ys) = output_keys xs @ output_keys ys"
  by (simp add: output_keys_def List.map_filter_def)

lemma call_keys_append [simp]: "call_keys (xs @ ys) = call_keys xs @ call_keys ys"
  by (simp add: call_keys_def List.map_filter_def)

lemma call_not_output: "key_of_call x = Some k \<Longrightarrow> key_of_output x = None"
  by (cases x) (simp_all add: key_of_call_def key_of_output_def)

lemma function_output_ids_iff:
  "c \<in> set (function_output_ids items) \<longleftrightarrow> FunctionKey c \<in> set (output_keys items)"
proof (induction items)
  case (Cons x xs)
  then show ?case
    by (cases x)
       (simp_all add: function_output_ids_def output_keys_Cons key_of_output_def split: option.split)
qed (simp add: function_output_ids_def)

lemma custom_tool_output_ids_iff:
  "c \<in> set (custom_tool_output_ids items) \<longleftrightarrow> CustomKey c \<in> set (output_keys items)"
proof (induction items)
  case (Cons x xs)
  then show ?case
    by (cases x)
       (simp_all add: custom_tool_output_ids_def output_keys_Cons key_of_output_def split: option.split)
qed (simp add: custom_tool_output_ids_def)

lemma tool_search_output_ids_iff:
  "c \<in> set (tool_search_output_ids items) \<longleftrightarrow> SearchKey c \<in> set (output_keys items)"
proof (induction items)
  case (Cons x xs)
  then show ?case
    by (cases x)
       (simp_all add: tool_search_output_ids_def output_keys_Cons key_of_output_def split: option.split)
qed (simp add: tool_search_output_ids_def)

lemma function_call_ids_iff:
  "c \<in> set (function_call_ids items) \<or> c \<in> set (local_shell_call_ids items) \<longleftrightarrow>
     FunctionKey c \<in> set (call_keys items)"
proof (induction items)
  case (Cons x xs)
  then show ?case
    by (cases x)
       (simp_all add: function_call_ids_def local_shell_call_ids_def call_keys_Cons key_of_call_def
          disj_ac split: option.split)
qed (simp add: function_call_ids_def local_shell_call_ids_def)

lemma custom_tool_call_ids_iff:
  "c \<in> set (custom_tool_call_ids items) \<longleftrightarrow> CustomKey c \<in> set (call_keys items)"
proof (induction items)
  case (Cons x xs)
  then show ?case
    by (cases x)
       (simp_all add: custom_tool_call_ids_def call_keys_Cons key_of_call_def split: option.split)
qed (simp add: custom_tool_call_ids_def)

lemma tool_search_call_ids_iff:
  "c \<in> set (tool_search_call_ids items) \<longleftrightarrow> SearchKey c \<in> set (call_keys items)"
proof (induction items)
  case (Cons x xs)
  then show ?case
    by (cases x)
       (simp_all add: tool_search_call_ids_def call_keys_Cons key_of_call_def split: option.split)
qed (simp add: tool_search_call_ids_def)

lemmas ids_iff = function_output_ids_iff custom_tool_output_ids_iff tool_search_output_ids_iff
  function_call_ids_iff custom_tool_call_ids_iff tool_search_call_ids_iff

lemma client_not_server: "str ''client'' \<noteq> str ''server''"
  by code_simp

lemma missing_output_none: "missing_output v items item = None \<longleftrightarrow> answered items item"
  by (cases item)
     (simp_all add: missing_output_def answered_def key_of_call_def ids_iff split: option.split)

lemma missing_output_some:
  assumes "missing_output v items item = Some (out, reports)"
  shows "key_of_call item = key_of_output out \<and> key_of_output out \<noteq> None \<and>
    key_of_call out = None \<and> \<not> from_server out"
  using assms
  by (cases item)
     (auto simp: missing_output_def key_of_call_def key_of_output_def from_server_def
        client_not_server split: option.splits if_splits)

lemma orphan_report_none: "orphan_report items item = None \<longleftrightarrow> called items item"
  by (cases item)
     (simp_all add: orphan_report_def called_def key_of_output_def from_server_def ids_iff
        split: option.split)
subsection \<open>Normalisation item by item\<close>

text \<open>The output that follows an item in the completed history.\<close>

definition completion :: "(rstring \<Rightarrow> rstring) \<Rightarrow> response_item list \<Rightarrow> response_item \<Rightarrow> response_item list" where
  "completion v items item =
     (case missing_output v items item of None \<Rightarrow> [] | Some (out, _) \<Rightarrow> [out])"

definition completed :: "(rstring \<Rightarrow> rstring) \<Rightarrow> response_item list \<Rightarrow> response_item list" where
  "completed v items = concat (map (\<lambda>item. item # completion v items item) items)"

lemma insert_all:
  fixes f :: "'a \<Rightarrow> ('a \<times> 'r) option"
  shows "length pre = n \<Longrightarrow>
   fold (\<lambda>(idx, out, _) its. insert_at (idx + 1) out its)
     (rev [(idx, m). (idx, x) \<leftarrow> enumerate n xs, m \<leftarrow> (case f x of None \<Rightarrow> [] | Some m \<Rightarrow> [m])])
     (pre @ xs) =
   pre @ concat (map (\<lambda>x. x # (case f x of None \<Rightarrow> [] | Some (out, _) \<Rightarrow> [out])) xs)"
proof (induction xs arbitrary: n pre)
  case (Cons x xs)
  then show ?case
    using Cons.IH [of "pre @ [x]" "Suc n"]
    by (auto simp: insert_at_def split: option.split)
qed simp

lemma ensure_completed: "fst (ensure_call_outputs_present v items) = completed v items"
  using insert_all [of "[]" 0 "missing_output v items" items]
  by (simp add: ensure_call_outputs_present_def missing_outputs_to_insert_def completed_def
        completion_def Let_def)

lemma completion_cases:
  "(completion v items item = [] \<and> answered items item) \<or>
   (\<exists>out k. completion v items item = [out] \<and> key_of_call item = Some k \<and>
      key_of_output out = Some k \<and> key_of_call out = None \<and> \<not> from_server out)"
proof (cases "missing_output v items item")
  case None
  then show ?thesis by (simp add: completion_def flip: missing_output_none [of v])
next
  case (Some m)
  then show ?thesis
    using missing_output_some [of v items item "fst m" "snd m"]
    by (auto simp: completion_def split: prod.split)
qed

lemma in_completed:
  "x \<in> set (completed v items) \<longleftrightarrow>
     x \<in> set items \<or> (\<exists>y\<in>set items. x \<in> set (completion v items y))"
  by (auto simp: completed_def)

lemma completion_key:
  assumes "x \<in> set (completion v items y)"
  shows "key_of_output x = key_of_call y" "key_of_call x = None" "\<not> from_server x"
    "key_of_output x \<noteq> None"
  using assms completion_cases [of v items y] by auto

lemma call_keys_completed: "call_keys (completed v items) = call_keys items"
proof -
  have "call_keys (completion v items' y) = []" for items' y
    using completion_cases [of v items' y] by (auto simp: call_keys_Cons)
  then have "call_keys (concat (map (\<lambda>y. y # completion v items' y) ys)) = call_keys ys" for items' ys
  proof (induction ys)
    case (Cons y ys)
    then show ?case
      by (simp add: call_keys_Cons split: option.split)
  qed simp
  then show ?thesis by (simp add: completed_def)
qed

lemma answered_completed:
  assumes "x \<in> set (completed v items)"
  shows "answered (completed v items) x"
proof (cases "key_of_call x")
  case (Some k)
  then have x: "x \<in> set items" using assms completion_key(2) by (fastforce simp: in_completed)
  show ?thesis
    using completion_cases [of v items x]
  proof (elim disjE conjE exE)
    assume "answered items x"
    then show ?thesis
      using Some by (auto simp: answered_def set_output_keys in_completed)
  next
    fix out k'
    assume "completion v items x = [out]" "key_of_call x = Some k'" "key_of_output out = Some k'"
    then show ?thesis
      using x by (force simp: answered_def set_output_keys in_completed)
  qed
qed (simp add: answered_def)

lemma remove_orphans_called: "fst (remove_orphan_outputs items) = filter (called items) items"
  by (simp add: remove_orphan_outputs_def orphan_report_none)

lemma call_is_called: "key_of_call x = Some k \<Longrightarrow> called items x"
  by (simp add: called_def call_not_output)

lemma call_keys_filter_called: "call_keys (filter (called items) xs) = call_keys xs"
  by (induction xs) (auto simp: call_keys_Cons call_is_called split: option.split)

lemma paired_normalized:
  fixes v items
  defines "its \<equiv> completed v items"
  shows "paired (filter (called its) its)"
proof -
  have "answered (filter (called its) its) x" if x: "x \<in> set its" for x
  proof (cases "key_of_call x")
    case (Some k)
    with x have "k \<in> set (output_keys its)" "k \<in> set (call_keys its)"
      using answered_completed [of x v items] by (auto simp: its_def answered_def set_call_keys)
    then show ?thesis
      using Some by (fastforce simp: answered_def set_output_keys called_def)
  qed (simp add: answered_def)
  moreover have "called (filter (called its) its) x" if "called its x" for x
    using that by (simp add: called_def call_keys_filter_called split: option.splits)
  ultimately show ?thesis by (simp add: paired_def list_all_iff)
qed

lemma paired_normal:
  assumes "paired items"
  shows "ensure_call_outputs_present v items = (items, [])" "remove_orphan_outputs items = (items, [])"
proof -
  have none: "missing_output v items x = None" "orphan_report items x = None" if "x \<in> set items" for x
    using assms that by (auto simp: missing_output_none orphan_report_none paired_def list_all_iff)
  then have "missing_outputs_to_insert v items = []"
    by (auto simp: missing_outputs_to_insert_def concat_eq_Nil_conv in_set_enumerate_eq)
  then show "ensure_call_outputs_present v items = (items, [])"
    by (simp add: ensure_call_outputs_present_def)
  show "remove_orphan_outputs items = (items, [])"
    using none by (simp add: remove_orphan_outputs_def concat_eq_Nil_conv filter_id_conv)
qed

subsection \<open>Media\<close>

definition carries_image :: "response_item \<Rightarrow> bool" where
  "carries_image item =
     (case item of
        Message _ _ cs _ _ \<Rightarrow> list_ex is_InputImage cs
      | FunctionCallOutput _ _ p _ \<Rightarrow> list_ex is_OutImage (output_items p)
      | CustomToolCallOutput _ _ _ p _ \<Rightarrow> list_ex is_OutImage (output_items p)
      | ImageGenerationCall _ _ _ r _ \<Rightarrow> r \<noteq> []
      | _ \<Rightarrow> False)"

definition carries_audio :: "response_item \<Rightarrow> bool" where
  "carries_audio item =
     (case item of
        Message _ _ cs _ _ \<Rightarrow> list_ex is_InputAudio cs
      | FunctionCallOutput _ _ p _ \<Rightarrow> list_ex is_OutAudio (output_items p)
      | CustomToolCallOutput _ _ _ p _ \<Rightarrow> list_ex is_OutAudio (output_items p)
      | _ \<Rightarrow> False)"

definition unreadable :: "input_modality list \<Rightarrow> response_item \<Rightarrow> bool" where
  "unreadable mods item \<longleftrightarrow>
     (ImageInput \<notin> set mods \<and> carries_image item) \<or> (AudioInput \<notin> set mods \<and> carries_audio item)"

definition strip_media :: "input_modality list \<Rightarrow> response_item \<Rightarrow> response_item" where
  "strip_media mods item =
     (let seen = (if ImageInput \<in> set mods then item else strip_images_item item)
      in if AudioInput \<in> set mods then seen else strip_audio_item seen)"

lemma strip_all:
  "strip_audio_when_unsupported mods (strip_images_when_unsupported mods items) =
     map (strip_media mods) items"
  by (auto simp: strip_audio_when_unsupported_def strip_images_when_unsupported_def strip_media_def
        Let_def intro!: map_idI [symmetric])

lemma map_payload_items: "output_items (map_payload f p) = map f (output_items p)"
  by (simp add: output_items_def map_payload_def split: function_call_output_body.split)

lemma map_payload_id: "list_all (\<lambda>c. f c = c) (output_items p) \<Longrightarrow> map_payload f p = p"
  by (cases "body p") (simp_all add: output_items_def map_payload_def list_all_iff map_idI)

lemma strip_images_none: "\<not> carries_image (strip_images_item item)"
  by (cases item)
     (auto simp: strip_images_item_def carries_image_def map_payload_items list_ex_iff)

lemma strip_audio_none: "\<not> carries_audio (strip_audio_item item)"
  by (cases item)
     (auto simp: strip_audio_item_def carries_audio_def map_payload_items list_ex_iff)

lemma strip_audio_images: "carries_image (strip_audio_item item) \<longleftrightarrow> carries_image item"
  by (cases item)
     (auto simp: strip_audio_item_def carries_image_def map_payload_items list_ex_iff)

lemma strip_images_id: "\<not> carries_image item \<Longrightarrow> strip_images_item item = item"
  by (cases item)
     (auto simp: strip_images_item_def carries_image_def list_ex_iff list_all_iff
        intro!: map_payload_id map_idI)

lemma strip_audio_id: "\<not> carries_audio item \<Longrightarrow> strip_audio_item item = item"
  by (cases item)
     (auto simp: strip_audio_item_def carries_audio_def list_ex_iff list_all_iff
        intro!: map_payload_id map_idI)

lemma strip_media_readable: "\<not> unreadable mods (strip_media mods item)"
  by (simp add: unreadable_def strip_media_def strip_images_none strip_audio_none strip_audio_images
        Let_def)

lemma strip_media_id: "\<not> unreadable mods item \<Longrightarrow> strip_media mods item = item"
  by (auto simp: unreadable_def strip_media_def strip_images_id strip_audio_id Let_def)

lemma strip_images_keys [simp]:
  "key_of_call (strip_images_item item) = key_of_call item"
  "key_of_output (strip_images_item item) = key_of_output item"
  "from_server (strip_images_item item) = from_server item"
  by (cases item; simp add: strip_images_item_def key_of_call_def key_of_output_def from_server_def)+

lemma strip_audio_keys [simp]:
  "key_of_call (strip_audio_item item) = key_of_call item"
  "key_of_output (strip_audio_item item) = key_of_output item"
  "from_server (strip_audio_item item) = from_server item"
  by (cases item; simp add: strip_audio_item_def key_of_call_def key_of_output_def from_server_def)+

lemma strip_media_keys [simp]:
  "key_of_call (strip_media mods item) = key_of_call item"
  "key_of_output (strip_media mods item) = key_of_output item"
  "from_server (strip_media mods item) = from_server item"
  by (simp_all add: strip_media_def Let_def)

lemma paired_strip: "paired (map (strip_media mods) items) \<longleftrightarrow> paired items"
proof -
  have "call_keys (map (strip_media mods) items) = call_keys items"
    "output_keys (map (strip_media mods) items) = output_keys items"
    by (induction items) (simp_all add: call_keys_Cons output_keys_Cons split: option.split)
  then show ?thesis
    by (simp add: paired_def list_all_iff answered_def called_def cong: option.case_cong)
qed

subsection \<open>The prompt\<close>

lemma for_prompt_result:
  defines "its v cm \<equiv> completed v (cm_items cm)"
  shows "fst (for_prompt v mods cm) = map (strip_media mods) (filter (called (its v cm)) (its v cm))"
proof -
  obtain items1 r1 where e: "ensure_call_outputs_present v (cm_items cm) = (items1, r1)"
    by fastforce
  obtain items2 r2 where o: "remove_orphan_outputs items1 = (items2, r2)" by fastforce
  have "items1 = its v cm" "items2 = filter (called items1) items1"
    using ensure_completed [of v "cm_items cm"] remove_orphans_called [of items1] e o
    by (simp_all add: its_def)
  with o show ?thesis
    by (simp add: for_prompt_def normalize_history_def e strip_all)
qed

lemma filter_no_output:
  "filter (\<lambda>x. key_of_output x = None) (filter (called its) (completed v items)) =
     filter (\<lambda>x. key_of_output x = None) items"
proof -
  have none: "filter (\<lambda>x. key_of_output x = None) (completion v items' y) = []" for items' y
    using completion_key(4) by (fastforce simp: filter_empty_conv)
  have "filter (\<lambda>x. key_of_output x = None) (concat (map (\<lambda>y. y # completion v items' y) ys)) =
      filter (\<lambda>x. key_of_output x = None) ys" for items' ys
    by (induction ys) (simp_all add: none)
  moreover have "filter (\<lambda>x. key_of_output x = None) (filter (called its) xs) =
      filter (\<lambda>x. key_of_output x = None) xs" for xs
    by (induction xs) (simp_all add: called_def)
  ultimately show ?thesis by (simp only: completed_def)
qed

lemma paired_readable_normal:
  assumes "paired items" "list_all (\<lambda>x. \<not> unreadable mods x) items"
  shows "normalize_history v mods items = (items, [])"
  using assms
  by (simp add: normalize_history_def paired_normal strip_all list_all_iff strip_media_id map_idI)

text \<open>
  C9. Whatever the history holds, the prompt made from it pairs every call with an output of the
  same kind and identifier and every output with a call (a search the server ran needs none),
  carries no image and no audio the model cannot read, keeps every item that is not a tool
  output, in order and up to the media that were stripped, and is left alone, without any
  error report, by normalising it a second time.
\<close>

theorem for_prompt_normal:
  "case for_prompt v mods cm of (prompt, reports) \<Rightarrow>
     paired prompt \<and>
     list_all (\<lambda>item. \<not> unreadable mods item) prompt \<and>
     filter (\<lambda>item. key_of_output item = None) prompt =
       map (strip_media mods) (filter (\<lambda>item. key_of_output item = None) (cm_items cm)) \<and>
     normalize_history w mods prompt = (prompt, [])"
proof -
  define its where "its = completed v (cm_items cm)"
  define prompt where "prompt = map (strip_media mods) (filter (called its) its)"
  have r: "fst (for_prompt v mods cm) = prompt"
    by (simp add: for_prompt_result prompt_def its_def)
  have p: "paired prompt" "list_all (\<lambda>item. \<not> unreadable mods item) prompt"
    using paired_normalized [of v "cm_items cm"]
    by (simp_all add: prompt_def paired_strip its_def list_all_iff strip_media_readable)
  have "filter (\<lambda>item. key_of_output item = None) prompt =
      map (strip_media mods) (filter (\<lambda>item. key_of_output item = None) (cm_items cm))"
    by (simp add: prompt_def filter_map o_def its_def filter_no_output del: filter_filter)
  with p r show ?thesis
    by (cases "for_prompt v mods cm") (simp add: paired_readable_normal)
qed

subsection \<open>Dropping the oldest item\<close>

definition item_key :: "response_item \<Rightarrow> call_key option" where
  "item_key item = (case key_of_call item of Some k \<Rightarrow> Some k | None \<Rightarrow> key_of_output item)"

definition well_keyed :: "response_item list \<Rightarrow> bool" where
  "well_keyed items \<longleftrightarrow> paired items \<and> distinct (call_keys items) \<and> distinct (output_keys items)"

definition without_key :: "call_key option \<Rightarrow> response_item list \<Rightarrow> response_item list" where
  "without_key k items = filter (\<lambda>y. k = None \<or> item_key y \<noteq> k) items"

lemma item_key_call: "key_of_call x = Some k \<Longrightarrow> item_key x = Some k"
  by (simp add: item_key_def)

lemma item_key_output: "key_of_output x = Some k \<Longrightarrow> item_key x = Some k"
  by (auto simp: item_key_def dest: call_not_output split: option.split)

lemma map_filter_filter:
  "List.map_filter f (filter p xs) = filter q (List.map_filter f xs)"
  if "\<And>x k. f x = Some k \<Longrightarrow> p x \<longleftrightarrow> q k"
  using that by (induction xs) (auto simp: List.map_filter_simps split: option.split)

lemma call_keys_without_key: "call_keys (without_key k items) = filter (\<lambda>j. k \<noteq> Some j) (call_keys items)"
  unfolding call_keys_def without_key_def by (rule map_filter_filter) (auto dest: item_key_call)

lemma output_keys_without_key: "output_keys (without_key k items) = filter (\<lambda>j. k \<noteq> Some j) (output_keys items)"
  unfolding output_keys_def without_key_def by (rule map_filter_filter) (auto dest: item_key_output)

lemma well_keyed_without_key:
  assumes "well_keyed items"
  shows "well_keyed (without_key k items)"
proof -
  have "answered (without_key k items) y \<and> called (without_key k items) y"
    if "y \<in> set (without_key k items)" for y
  proof -
    have y: "answered items y" "called items y" "k = None \<or> item_key y \<noteq> k"
      using assms that by (auto simp: well_keyed_def paired_def list_all_iff without_key_def)
    then show ?thesis
      using item_key_call [of y] item_key_output [of y]
      by (auto simp: answered_def called_def call_keys_without_key output_keys_without_key
            split: option.splits)
  qed
  then show ?thesis
    using assms
    by (simp add: well_keyed_def paired_def list_all_iff call_keys_without_key output_keys_without_key)
qed

lemma remove_first_matching_none: "\<not> list_ex p xs \<Longrightarrow> remove_first_matching p xs = xs"
  by (induction xs) auto

lemma remove_first_matching_key:
  assumes "distinct (List.map_filter f xs)" "\<And>x. p x \<longleftrightarrow> f x = Some k"
  shows "remove_first_matching p xs = filter (\<lambda>x. f x \<noteq> Some k) xs"
  using assms(1)
proof (induction xs)
  case (Cons x xs)
  show ?case
  proof (cases "f x = Some k")
    case True
    then have "\<forall>y\<in>set xs. f y \<noteq> Some k"
      using Cons.prems by (auto simp: List.map_filter_simps)
    then show ?thesis using True by (simp add: assms(2))
  next
    case False
    then show ?thesis
      using Cons by (auto simp: List.map_filter_simps assms(2) split: option.splits)
  qed
qed simp

lemma is_output_for:
  "is_function_output_for c x \<longleftrightarrow> key_of_output x = Some (FunctionKey c)"
  "is_custom_output_for c x \<longleftrightarrow> key_of_output x = Some (CustomKey c)"
  "is_tool_search_output_for c x \<longleftrightarrow> key_of_output x = Some (SearchKey c)"
  by (cases x; simp add: is_function_output_for_def is_custom_output_for_def
        is_tool_search_output_for_def key_of_output_def split: option.split)+

lemma is_call_for:
  "is_custom_call_for c x \<longleftrightarrow> key_of_call x = Some (CustomKey c)"
  "is_tool_search_call_for c x \<longleftrightarrow> key_of_call x = Some (SearchKey c)"
  "is_function_call_for c x \<or> is_local_shell_call_for c x \<longleftrightarrow> key_of_call x = Some (FunctionKey c)"
  by (cases x; simp add: is_custom_call_for_def is_tool_search_call_for_def
        is_function_call_for_def is_local_shell_call_for_def key_of_call_def split: option.split)+

lemma remove_call_for:
  assumes "distinct (call_keys items)"
  shows "(if list_ex (is_function_call_for c) items
          then remove_first_matching (is_function_call_for c) items
          else if list_ex (is_local_shell_call_for c) items
          then remove_first_matching (is_local_shell_call_for c) items else items) =
    filter (\<lambda>x. key_of_call x \<noteq> Some (FunctionKey c)) items"
  using assms
proof (induction items)
  case (Cons x xs)
  show ?case
  proof (cases "key_of_call x = Some (FunctionKey c)")
    case True
    then have rest: "\<forall>y\<in>set xs. key_of_call y \<noteq> Some (FunctionKey c)"
      using Cons.prems by (auto simp: call_keys_Cons set_call_keys)
    then have "filter (\<lambda>x. key_of_call x \<noteq> Some (FunctionKey c)) xs = xs"
      and "\<not> list_ex (is_function_call_for c) xs"
      using is_call_for(3) [of c] by (auto simp: filter_id_conv list_ex_iff)
    then show ?thesis using True is_call_for(3) [of c x] by auto
  next
    case False
    then show ?thesis
      using Cons is_call_for(3) [of c x] by (auto simp: call_keys_Cons split: option.splits if_splits)
  qed
qed simp

lemma remove_corresponding_cases:
  assumes "distinct (call_keys items)" "distinct (output_keys items)"
  shows "remove_corresponding_for x items =
    filter (\<lambda>y. (key_of_call x = None \<or> key_of_output y \<noteq> key_of_call x) \<and>
                 (key_of_output x = None \<or> key_of_call y \<noteq> key_of_output x)) items"
proof -
  have out: "remove_first_matching p items = filter (\<lambda>y. key_of_output y \<noteq> Some k) items"
    if "\<And>y. p y \<longleftrightarrow> key_of_output y = Some k" for p k
    using assms(2) that unfolding output_keys_def by (rule remove_first_matching_key)
  have cal: "remove_first_matching p items = filter (\<lambda>y. key_of_call y \<noteq> Some k) items"
    if "\<And>y. p y \<longleftrightarrow> key_of_call y = Some k" for p k
    using assms(1) that unfolding call_keys_def by (rule remove_first_matching_key)
  show ?thesis
    by (cases x)
       (simp_all add: remove_corresponding_for_def key_of_call_def key_of_output_def
          out [OF is_output_for(1)] out [OF is_output_for(2)] out [OF is_output_for(3)]
          cal [OF is_call_for(1)] cal [OF is_call_for(2)] remove_call_for assms
          split: option.split)
qed

lemma remove_corresponding_without_key:
  assumes "well_keyed (x # xs)"
  shows "remove_corresponding_for x xs = without_key (item_key x) xs"
proof -
  have d: "distinct (call_keys xs)" "distinct (output_keys xs)"
    using assms by (auto simp: well_keyed_def call_keys_Cons output_keys_Cons split: option.splits)
  have fresh: "key_of_call x = Some k \<Longrightarrow> y \<in> set xs \<Longrightarrow> key_of_call y \<noteq> Some k"
    "key_of_output x = Some k \<Longrightarrow> y \<in> set xs \<Longrightarrow> key_of_output y \<noteq> Some k" for k y
    using assms
    by (auto simp: well_keyed_def call_keys_Cons output_keys_Cons set_call_keys set_output_keys split: option.splits)
  have "((key_of_call x = None \<or> key_of_output y \<noteq> key_of_call x) \<and>
         (key_of_output x = None \<or> key_of_call y \<noteq> key_of_output x)) \<longleftrightarrow>
        (item_key x = None \<or> item_key y \<noteq> item_key x)" if "y \<in> set xs" for y
    using that fresh [of _ y] call_not_output [of x] call_not_output [of y]
    by (cases "key_of_call x"; cases "key_of_output x"; cases "key_of_call y"; cases "key_of_output y")
       (auto simp: item_key_def)
  then show ?thesis
    unfolding remove_corresponding_cases [OF d] without_key_def by (rule filter_cong [OF refl])
qed

lemma without_own_key: "item_key x \<noteq> None \<Longrightarrow> without_key (item_key x) (x # xs) = without_key (item_key x) xs"
  by (simp add: without_key_def)

lemma no_key: "item_key x = None \<Longrightarrow> key_of_call x = None \<and> key_of_output x = None"
  by (simp add: item_key_def split: option.splits)

lemma well_keyed_tail:
  assumes "well_keyed (x # xs)"
  shows "well_keyed (without_key (item_key x) xs)"
proof (cases "item_key x")
  case None
  then have "key_of_call x = None" "key_of_output x = None" by (simp_all add: no_key)
  with assms None show ?thesis
    by (simp add: well_keyed_def paired_def list_all_iff answered_def called_def without_key_def
          call_keys_Cons output_keys_Cons cong: option.case_cong)
next
  case (Some k)
  then show ?thesis
    using well_keyed_without_key [OF assms, of "Some k"] without_own_key [of x xs] by simp
qed

text \<open>
  C28. Dropping the oldest item from a history in which calls and outputs are paired and no two
  calls and no two outputs share an identifier removes that item together with its counterpart
  and nothing else, and leaves such a history again, so that it may be repeated; the world-state
  baseline is forgotten and everything else is kept.
\<close>

theorem remove_first_item_keeps_pairs:
  assumes "well_keyed (cm_items cm)"
  shows "well_keyed (cm_items (remove_first_item cm)) \<and>
    remove_first_item cm =
      (case cm_items cm of
         [] \<Rightarrow> cm
       | x # xs \<Rightarrow> cm\<lparr>cm_items := without_key (item_key x) xs, world_state_baseline := None\<rparr>)"
proof (cases "cm_items cm")
  case (Cons x xs)
  with assms show ?thesis
    by (simp add: remove_first_item_def remove_corresponding_without_key well_keyed_tail)
qed (use assms in \<open>simp add: remove_first_item_def\<close>)

definition ex_history :: "response_item list" where
  "ex_history =
     [FunctionCall None (str ''shell'') None [] None (str ''a'') None,
      CustomToolCall None None (str ''a'') (str ''apply_patch'') None [] None,
      FunctionCallOutput None (str ''a'') aborted None,
      CustomToolCallOutput None (str ''a'') None aborted None]"

theorem remove_first_item_keeps_pairs_witness:
  "\<exists>cm. cm_items cm = ex_history \<and> length (cm_items (remove_first_item cm)) = 2 \<and>
     well_keyed (cm_items (remove_first_item cm))"
proof (intro exI conjI)
  let ?cm = "new_context_manager\<lparr>cm_items := ex_history\<rparr>"
  show "cm_items ?cm = ex_history" by simp
  show "length (cm_items (remove_first_item ?cm)) = 2" by code_simp
  have "well_keyed (cm_items ?cm)" by code_simp
  then show "well_keyed (cm_items (remove_first_item ?cm))"
    using remove_first_item_keeps_pairs by blast
qed

subsection \<open>Rollback\<close>

definition is_context :: "response_item \<Rightarrow> bool" where
  "is_context item \<longleftrightarrow> is_dev_context item \<or> is_user_context item"

lemma roles_differ:
  "str ''developer'' \<noteq> str ''user''" "str ''developer'' \<noteq> str ''assistant''"
  "str ''user'' \<noteq> str ''assistant''"
  by code_simp+

lemma context_no_boundary: "is_context item \<Longrightarrow> \<not> is_user_turn_boundary comm item"
  using roles_differ
  by (cases item)
     (auto simp: is_context_def is_dev_context_def is_user_context_def is_user_turn_boundary_def)

lemma mixed_is_dev: "is_mixed_dev_context item \<Longrightarrow> is_dev_context item"
  by (cases item) (auto simp: is_mixed_dev_context_def)

lemma dev_not_user: "is_dev_context item \<Longrightarrow> \<not> is_user_context item"
  using roles_differ by (cases item) (auto simp: is_dev_context_def is_user_context_def)

lemma trim_spec:
  assumes "f \<le> c" "c \<le> length items"
  shows "\<exists>c'. trim_pre_turn_context_updates items f c r =
      (c', if list_ex is_mixed_dev_context (drop c' (take c items)) then None else r) \<and>
    f \<le> c' \<and> c' \<le> c \<and> list_all is_context (drop c' (take c items)) \<and>
    (c' = f \<or> \<not> is_context (items ! (c' - 1)))"
  using assms
proof (induction c arbitrary: r)
  case 0
  then show ?case by (simp add: trim_pre_turn_context_updates.simps)
next
  case (Suc c)
  note step = trim_pre_turn_context_updates.simps [of items f "Suc c" r]
  show ?case
  proof (cases "f \<le> c \<and> is_context (items ! c)")
    case True
    define r' where "r' = (if is_mixed_dev_context (items ! c) then None else r)"
    have rec: "trim_pre_turn_context_updates items f (Suc c) r =
        trim_pre_turn_context_updates items f c r'"
      using True dev_not_user mixed_is_dev by (auto simp: step r'_def is_context_def Let_def)
    obtain c' where c': "trim_pre_turn_context_updates items f c r' =
        (c', if list_ex is_mixed_dev_context (drop c' (take c items)) then None else r')"
      "f \<le> c'" "c' \<le> c" "list_all is_context (drop c' (take c items))"
      "c' = f \<or> \<not> is_context (items ! (c' - 1))"
      using Suc.IH [of r'] Suc.prems True by auto
    have "drop c' (take (Suc c) items) = drop c' (take c items) @ [items ! c]"
      using Suc.prems(2) c'(3) by (simp add: take_Suc_conv_app_nth)
    then show ?thesis
      using c' True rec by (intro exI [of _ c']) (auto simp: r'_def)
  next
    case False
    then have "trim_pre_turn_context_updates items f (Suc c) r = (Suc c, r)"
      by (auto simp: step is_context_def Let_def)
    then show ?thesis using False Suc.prems by (intro exI [of _ "Suc c"]) auto
  qed
qed
lemma positions_snoc:
  "user_message_positions comm (xs @ [x]) =
     user_message_positions comm xs @ (if is_user_turn_boundary comm x then [length xs] else [])"
  by (simp add: user_message_positions_def enumerate_append_eq)

lemma positions_Nil [simp]: "user_message_positions comm [] = []"
  by (simp add: user_message_positions_def)

lemma length_positions:
  "length (user_message_positions comm items) = length (filter (is_user_turn_boundary comm) items)"
  by (induction items rule: rev_induct) (simp_all add: positions_snoc)

lemma position_boundary:
  assumes "j < length (user_message_positions comm items)"
  defines "p \<equiv> user_message_positions comm items ! j"
  shows "p < length items \<and> is_user_turn_boundary comm (items ! p) \<and>
    length (filter (is_user_turn_boundary comm) (take p items)) = j"
  using assms(1) unfolding p_def
proof (induction items rule: rev_induct)
  case (snoc x xs)
  show ?case
  proof (cases "j < length (user_message_positions comm xs)")
    case True
    with snoc.IH show ?thesis by (simp add: positions_snoc nth_append)
  next
    case False
    with snoc.prems have "is_user_turn_boundary comm x" "j = length (user_message_positions comm xs)"
      by (auto simp: positions_snoc split: if_splits)
    then show ?thesis using length_positions [of comm xs] by (simp add: positions_snoc nth_append)
  qed
qed simp

lemma take_first_position:
  assumes "user_message_positions comm items = f # ps"
  shows "take f items = takeWhile (\<lambda>x. \<not> is_user_turn_boundary comm x) items"
proof -
  have "f < length items" "is_user_turn_boundary comm (items ! f)"
    "filter (is_user_turn_boundary comm) (take f items) = []"
    using position_boundary [of 0 comm items] assms by auto
  moreover from this have "\<not> is_user_turn_boundary comm (items ! i)" if "i < f" for i
    using that nth_mem [of i "take f items"] by (auto simp: filter_empty_conv)
  ultimately show ?thesis by (subst takeWhile_eq_take_P_nth [of f]) auto
qed

text \<open>The context messages at the end of a list, and what is above them.\<close>

definition context_tail :: "response_item list \<Rightarrow> response_item list" where
  "context_tail items = rev (takeWhile is_context (rev items))"

definition above_context :: "response_item list \<Rightarrow> response_item list" where
  "above_context items = rev (dropWhile is_context (rev items))"

lemma split_context:
  assumes "list_all is_context ys" "xs = [] \<or> \<not> is_context (last xs)"
  shows "context_tail (xs @ ys) = ys" "above_context (xs @ ys) = xs"
proof -
  have "takeWhile is_context (rev xs) = [] \<and> dropWhile is_context (rev xs) = rev xs"
    using assms(2) by (cases xs rule: rev_cases) auto
  then show "context_tail (xs @ ys) = ys" "above_context (xs @ ys) = xs"
    using assms(1)
    by (simp_all add: context_tail_def above_context_def takeWhile_append dropWhile_append list_all_iff)
qed

lemma trim_splits:
  assumes "f \<le> c" "c \<le> length items"
  defines "turns \<equiv> drop f (take c items)"
  shows "\<exists>c'. trim_pre_turn_context_updates items f c r =
      (c', if list_ex is_mixed_dev_context (context_tail turns) then None else r) \<and>
    take c' items = take f items @ above_context turns"
proof -
  obtain c' where c': "trim_pre_turn_context_updates items f c r =
      (c', if list_ex is_mixed_dev_context (drop c' (take c items)) then None else r)"
    "f \<le> c'" "c' \<le> c" "list_all is_context (drop c' (take c items))"
    "c' = f \<or> \<not> is_context (items ! (c' - 1))"
    using trim_spec [OF assms(1,2), of r] by blast
  have t: "turns = drop f (take c' items) @ drop c' (take c items)"
  proof -
    have "take c items = take c' items @ drop c' (take c items)"
      using c'(3) by (metis append_take_drop_id min.absorb1 take_take)
    then show ?thesis
      using c'(2,3) assms(2) unfolding turns_def
      by (metis append_Nil2 diff_is_0_eq drop_append drop_eq_Nil length_take min.absorb2 order_trans drop0)
  qed
  have "drop f (take c' items) = [] \<or> \<not> is_context (last (drop f (take c' items)))"
    using c'(2,3,5) assms(2) by (auto simp: last_conv_nth min_absorb2)
  note s = split_context [OF c'(4) this, folded t]
  have "take c' items = take f items @ drop f (take c' items)"
    using c'(2) by (metis append_take_drop_id min.absorb1 take_take)
  with c'(1) s show ?thesis by auto
qed

definition rolled_back :: "response_item list \<Rightarrow> json option \<Rightarrow> context_manager \<Rightarrow> context_manager" where
  "rolled_back items reference cm =
     cm\<lparr>cm_items := items, reference_context_item := reference,
        history_version := saturating_add (history_version cm) 1, world_state_baseline := None\<rparr>"

lemma drop_turns_unfold:
  assumes "n \<noteq> 0" "user_message_positions comm (cm_items cm) = f # qs"
    "(if n \<ge> length (f # qs) then f else (f # qs) ! (length (f # qs) - n)) = c"
    "trim_pre_turn_context_updates (cm_items cm) f c (reference_context_item cm) = (c', r)"
  shows "drop_last_n_user_turns comm n cm = rolled_back (take c' (cm_items cm)) r cm"
  using assms(1)
  by (simp only: drop_last_n_user_turns_def Let_def assms(2-4) list.case prod.case if_False)
     (simp add: rolled_back_def replace_items_def)

lemma drop_turns_cut:
  fixes comm
  defines "B \<equiv> is_user_turn_boundary comm"
  assumes "n \<noteq> 0" "list_ex B (cm_items cm)"
  shows "\<exists>turns rest.
    cm_items cm = takeWhile (\<lambda>x. \<not> B x) (cm_items cm) @ turns @ rest \<and>
    length (filter B rest) = min n (length (filter B (cm_items cm))) \<and>
    rest \<noteq> [] \<and> B (hd rest) \<and>
    drop_last_n_user_turns comm n cm =
      rolled_back (takeWhile (\<lambda>x. \<not> B x) (cm_items cm) @ above_context turns)
        (if list_ex is_mixed_dev_context (context_tail turns) then None
         else reference_context_item cm) cm"
proof -
  let ?items = "cm_items cm"
  define ps where "ps = user_message_positions comm ?items"
  have "filter B ?items \<noteq> []" using assms(3) by (auto simp: filter_empty_conv list_ex_iff)
  then obtain f qs where ps: "ps = f # qs"
    using length_positions [of comm ?items] by (cases ps) (auto simp: ps_def B_def)
  define j where "j = length ps - n"
  have j: "j < length ps" using assms(2) ps by (simp add: j_def)
  define c where "c = ps ! j"
  have c: "c < length ?items" "B (?items ! c)" "length (filter B (take c ?items)) = j"
    using position_boundary [of j comm ?items] j by (simp_all add: c_def ps_def B_def)
  have f: "take f ?items = takeWhile (\<lambda>x. \<not> B x) ?items"
    using take_first_position [of comm ?items f qs] ps by (simp add: ps_def B_def)
  have fc: "f \<le> c"
  proof (rule ccontr)
    assume "\<not> f \<le> c"
    then have "?items ! c \<in> set (take f ?items)" using c(1) by (auto simp: in_set_conv_nth)
    with c(2) f show False by (metis (mono_tags, lifting) set_takeWhileD)
  qed
  have cut: "(if n \<ge> length ps then f else ps ! (length ps - n)) = c"
    by (auto simp: c_def j_def ps)
  define turns where "turns = drop f (take c ?items)"
  obtain c' where c': "trim_pre_turn_context_updates ?items f c (reference_context_item cm) =
      (c', if list_ex is_mixed_dev_context (context_tail turns) then None
           else reference_context_item cm)" "take c' ?items = take f ?items @ above_context turns"
    using trim_splits [OF fc, of ?items "reference_context_item cm"] c(1)
    by (auto simp: turns_def)
  show ?thesis
  proof (rule exI [of _ turns], rule exI [of _ "drop c ?items"], intro conjI)
    have "take c ?items = take f ?items @ turns"
      using fc by (metis append_take_drop_id min.absorb1 take_take turns_def)
    then show "?items = takeWhile (\<lambda>x. \<not> B x) ?items @ turns @ drop c ?items"
      by (metis append.assoc append_take_drop_id f)
    have "length (filter B ?items) = length (filter B (take c ?items)) + length (filter B (drop c ?items))"
      by (metis append_take_drop_id filter_append length_append)
    then show "length (filter B (drop c ?items)) = min n (length (filter B ?items))"
      using c(3) length_positions [of comm ?items] by (simp add: j_def ps_def B_def)
    show "drop c ?items \<noteq> []" "B (hd (drop c ?items))"
      using c by (simp_all add: hd_drop_conv_nth)
    show "drop_last_n_user_turns comm n cm =
        rolled_back (takeWhile (\<lambda>x. \<not> B x) ?items @ above_context turns)
          (if list_ex is_mixed_dev_context (context_tail turns) then None
           else reference_context_item cm) cm"
      using drop_turns_unfold [OF assms(2) ps [unfolded ps_def] cut [unfolded ps] c'(1)]
      by (simp only: c'(2) f)
  qed
qed


end
