(* ===== verification/Stream_Parser.thy ===== *)
theory Stream_Parser
  imports Bytes
begin

section \<open>Streaming text parsers\<close>

text \<open>
  The parsers of \<^verbatim>\<open>utils/stream-parser\<close>: \<^verbatim>\<open>inline_hidden_tag.rs\<close>,
  \<^verbatim>\<open>citation.rs\<close>, \<^verbatim>\<open>assistant_text.rs\<close> and \<^verbatim>\<open>utf8_stream.rs\<close>.
  Offsets into a string are counted in chars: searching a valid string for a valid
  string, and its prefixes on char boundaries, are the same in bytes and in chars.
  The loop of \<^verbatim>\<open>push_str\<close> is a partial function; \<^const>\<open>None\<close> stands for a loop that
  never ends. A panic of the constructor is \<^const>\<open>None\<close> as well.
\<close>

record 'e stream_text_chunk =
  visible_text :: rstring
  extracted :: "'e list"

definition no_text :: "'e stream_text_chunk" where
  "no_text = \<lparr>visible_text = [], extracted = []\<rparr>"

definition chunk_is_empty_text :: "'e stream_text_chunk \<Rightarrow> bool" where
  "chunk_is_empty_text c \<longleftrightarrow> visible_text c = [] \<and> extracted c = []"

text \<open>\<^verbatim>\<open>visible_text.push_str\<close> and \<^verbatim>\<open>extracted.extend\<close>\<close>

definition join_chunks :: "'e stream_text_chunk \<Rightarrow> 'e stream_text_chunk \<Rightarrow> 'e stream_text_chunk" where
  "join_chunks a b =
     \<lparr>visible_text = visible_text a @ visible_text b, extracted = extracted a @ extracted b\<rparr>"

subsection \<open>Hidden inline tags\<close>

record 't extracted_inline_tag =
  ext_tag :: 't
  ext_content :: rstring

record 't inline_tag_spec =
  spec_tag :: 't
  spec_open :: rstring
  spec_close :: rstring

record 't active_tag =
  act_tag :: 't
  act_close :: rstring
  act_content :: rstring

record 't inline_hidden_tag_parser =
  hp_specs :: "'t inline_tag_spec list"
  hp_pending :: rstring
  hp_active :: "'t active_tag option"

definition new_inline_hidden_tag_parser ::
  "'t inline_tag_spec list \<Rightarrow> 't inline_hidden_tag_parser option" where
  "new_inline_hidden_tag_parser specs =
     (if specs = [] then None
      else if list_ex (\<lambda>spec. spec_open spec = [] \<or> spec_close spec = []) specs then None
      else Some \<lparr>hp_specs = specs, hp_pending = [], hp_active = None\<rparr>)"

text \<open>The earliest opener, the longest of those, the first of those.\<close>

definition opener_before :: "nat \<times> nat \<times> nat \<Rightarrow> nat \<times> nat \<times> nat \<Rightarrow> bool" where
  "opener_before a b =
     (case (a, b) of ((pa, la, ia), (pb, lb, ib)) \<Rightarrow>
        pa < pb \<or> (pa = pb \<and> (lb < la \<or> (la = lb \<and> ia < ib))))"

primrec min_opener :: "(nat \<times> nat \<times> nat) list \<Rightarrow> (nat \<times> nat \<times> nat) option" where
  "min_opener [] = None"
| "min_opener (x # xs) =
     (case min_opener xs of
        None \<Rightarrow> Some x
      | Some y \<Rightarrow> if opener_before y x then Some y else Some x)"

definition find_next_open :: "'t inline_hidden_tag_parser \<Rightarrow> (nat \<times> nat) option" where
  "find_next_open p =
     map_option (\<lambda>(pos, _, idx). (pos, idx))
       (min_opener
          (List.map_filter
             (\<lambda>(idx, spec). map_option (\<lambda>pos. (pos, utf8_len (spec_open spec), idx))
                              (find_sub (spec_open spec) (hp_pending p)))
             (enumerate 0 (hp_specs p))))"

definition longest_suffix_prefix_len :: "rstring \<Rightarrow> rstring \<Rightarrow> nat" where
  "longest_suffix_prefix_len s needle =
     (case List.find (\<lambda>k. ends_with (take k needle) s) (rev [1..<Suc (min (length s) (length needle - 1))])
      of None \<Rightarrow> 0 | Some k \<Rightarrow> k)"

definition max_open_prefix_suffix_len :: "'t inline_hidden_tag_parser \<Rightarrow> nat" where
  "max_open_prefix_suffix_len p =
     fold max (map (\<lambda>spec. longest_suffix_prefix_len (hp_pending p) (spec_open spec)) (hp_specs p)) 0"

definition drain_visible_to_suffix_match ::
  "nat \<Rightarrow> 't inline_hidden_tag_parser \<Rightarrow> 't extracted_inline_tag stream_text_chunk \<Rightarrow>
   't inline_hidden_tag_parser \<times> 't extracted_inline_tag stream_text_chunk" where
  "drain_visible_to_suffix_match keep_suffix_len p out =
     (let n = length (hp_pending p) - keep_suffix_len
      in if n = 0 then (p, out)
         else (p\<lparr>hp_pending := drop n (hp_pending p)\<rparr>,
               out\<lparr>visible_text := visible_text out @ take n (hp_pending p)\<rparr>))"

text \<open>The part of the loop that ends it, with no complete delimiter in the pending text.\<close>

definition push_rest ::
  "'t inline_hidden_tag_parser \<Rightarrow> 't extracted_inline_tag stream_text_chunk \<Rightarrow>
   't inline_hidden_tag_parser \<times> 't extracted_inline_tag stream_text_chunk" where
  "push_rest p out =
     (case hp_active p of
        Some active \<Rightarrow>
          (let n = length (hp_pending p) - longest_suffix_prefix_len (hp_pending p) (act_close active)
           in if n = 0 then (p, out)
              else (p\<lparr>hp_active :=
                         Some (active\<lparr>act_content := act_content active @ take n (hp_pending p)\<rparr>),
                      hp_pending := drop n (hp_pending p)\<rparr>, out))
      | None \<Rightarrow> drain_visible_to_suffix_match (max_open_prefix_suffix_len p) p out)"

partial_function (option) push_loop ::
  "'t inline_hidden_tag_parser \<Rightarrow> 't extracted_inline_tag stream_text_chunk \<Rightarrow>
   ('t inline_hidden_tag_parser \<times> 't extracted_inline_tag stream_text_chunk) option" where
  "push_loop p out =
     (case hp_active p of
        Some active \<Rightarrow>
          (case find_sub (act_close active) (hp_pending p) of
             Some close_idx \<Rightarrow>
               push_loop
                 (p\<lparr>hp_active := None,
                    hp_pending := drop (close_idx + length (act_close active)) (hp_pending p)\<rparr>)
                 (out\<lparr>extracted := extracted out @
                       [\<lparr>ext_tag = act_tag active,
                         ext_content = act_content active @ take close_idx (hp_pending p)\<rparr>]\<rparr>)
           | None \<Rightarrow> Some (push_rest p out))
      | None \<Rightarrow>
          (case find_next_open p of
             Some (open_idx, spec_idx) \<Rightarrow>
               (let spec = hp_specs p ! spec_idx
                in push_loop
                     (p\<lparr>hp_active := Some \<lparr>act_tag = spec_tag spec, act_close = spec_close spec,
                                          act_content = []\<rparr>,
                        hp_pending := drop (open_idx + length (spec_open spec)) (hp_pending p)\<rparr>)
                     (out\<lparr>visible_text := visible_text out @ take open_idx (hp_pending p)\<rparr>))
           | None \<Rightarrow> Some (push_rest p out)))"

declare push_loop.simps [code]

definition push_str ::
  "rstring \<Rightarrow> 't inline_hidden_tag_parser \<Rightarrow>
   ('t inline_hidden_tag_parser \<times> 't extracted_inline_tag stream_text_chunk) option" where
  "push_str chunk p = push_loop (p\<lparr>hp_pending := hp_pending p @ chunk\<rparr>) no_text"

definition finish_tags ::
  "'t inline_hidden_tag_parser \<Rightarrow>
   't inline_hidden_tag_parser \<times> 't extracted_inline_tag stream_text_chunk" where
  "finish_tags p =
     (case hp_active p of
        Some active \<Rightarrow>
          (p\<lparr>hp_active := None, hp_pending := []\<rparr>,
           no_text\<lparr>extracted :=
             [\<lparr>ext_tag = act_tag active, ext_content = act_content active @ hp_pending p\<rparr>]\<rparr>)
      | None \<Rightarrow> (p\<lparr>hp_pending := []\<rparr>, no_text\<lparr>visible_text := hp_pending p\<rparr>))"

subsection \<open>Citations\<close>

datatype citation_tag = Citation

definition CITATION_OPEN :: rstring where "CITATION_OPEN = str ''<oai-mem-citation>''"
definition CITATION_CLOSE :: rstring where "CITATION_CLOSE = str ''</oai-mem-citation>''"

definition citation_spec :: "citation_tag inline_tag_spec" where
  "citation_spec = \<lparr>spec_tag = Citation, spec_open = CITATION_OPEN, spec_close = CITATION_CLOSE\<rparr>"

definition new_citation_parser :: "citation_tag inline_hidden_tag_parser option" where
  "new_citation_parser = new_inline_hidden_tag_parser [citation_spec]"

definition citation_chunk ::
  "citation_tag extracted_inline_tag stream_text_chunk \<Rightarrow> rstring stream_text_chunk" where
  "citation_chunk inner =
     \<lparr>visible_text = visible_text inner, extracted = map ext_content (extracted inner)\<rparr>"

definition citation_push_str ::
  "rstring \<Rightarrow> citation_tag inline_hidden_tag_parser \<Rightarrow>
   (citation_tag inline_hidden_tag_parser \<times> rstring stream_text_chunk) option" where
  "citation_push_str chunk p = map_option (\<lambda>(p', inner). (p', citation_chunk inner)) (push_str chunk p)"

definition citation_finish ::
  "citation_tag inline_hidden_tag_parser \<Rightarrow>
   citation_tag inline_hidden_tag_parser \<times> rstring stream_text_chunk" where
  "citation_finish p = (case finish_tags p of (p', inner) \<Rightarrow> (p', citation_chunk inner))"

definition strip_citations :: "rstring \<Rightarrow> (rstring \<times> rstring list) option" where
  "strip_citations text =
     (case new_citation_parser of
        None \<Rightarrow> None
      | Some p \<Rightarrow>
          (case citation_push_str text p of
             None \<Rightarrow> None
           | Some (p1, out) \<Rightarrow>
               (let all = join_chunks out (snd (citation_finish p1))
                in Some (visible_text all, extracted all))))"

text \<open>\<^verbatim>\<open>AssistantTextStreamParser\<close> renames the fields of a citation chunk.\<close>

record assistant_text_chunk =
  at_visible_text :: rstring
  at_citations :: "rstring list"

definition assistant_chunk :: "rstring stream_text_chunk \<Rightarrow> assistant_text_chunk" where
  "assistant_chunk c = \<lparr>at_visible_text = visible_text c, at_citations = extracted c\<rparr>"

definition assistant_push_str ::
  "rstring \<Rightarrow> citation_tag inline_hidden_tag_parser \<Rightarrow>
   (citation_tag inline_hidden_tag_parser \<times> assistant_text_chunk) option" where
  "assistant_push_str chunk p = map_option (\<lambda>(p', c). (p', assistant_chunk c)) (citation_push_str chunk p)"

definition assistant_finish ::
  "citation_tag inline_hidden_tag_parser \<Rightarrow>
   citation_tag inline_hidden_tag_parser \<times> assistant_text_chunk" where
  "assistant_finish p = (case citation_finish p of (p', c) \<Rightarrow> (p', assistant_chunk c))"

end
