(* ===== verification/Stream_Parser_Correct.thy ===== *)
theory Stream_Parser_Correct
  imports Stream_Parser
begin

section \<open>Streaming does not change what is parsed\<close>

text \<open>
  The loop of \<^verbatim>\<open>push_str\<close> ends for every parser the constructor accepts, and a parser of
  one kind of tag gives the same visible text and the same contents however its input is cut.
\<close>

subsection \<open>Searching\<close>

lemma find_sub_Some:
  "n \<noteq> [] \<Longrightarrow> find_sub n h = Some i \<longleftrightarrow>
     starts_with n (drop i h) \<and> (\<forall>j<i. \<not> starts_with n (drop j h))"
proof (induction n h arbitrary: i rule: find_sub.induct)
  case (1 n)
  then show ?case by (simp add: starts_with_def)
next
  case (2 n c h)
  show ?case
  proof (cases i)
    case 0
    then show ?thesis by auto
  next
    case (Suc k)
    then show ?thesis using 2 by (auto simp: All_less_Suc2)
  qed
qed

lemma find_sub_None: "n \<noteq> [] \<Longrightarrow> find_sub n h = None \<longleftrightarrow> (\<forall>j. \<not> starts_with n (drop j h))"
proof (induction n h rule: find_sub.induct)
  case (1 n)
  then show ?case by (simp add: starts_with_def)
next
  case (2 n c h)
  have "(\<forall>j. \<not> starts_with n (drop j (c # h))) \<longleftrightarrow>
      \<not> starts_with n (c # h) \<and> (\<forall>j. \<not> starts_with n (drop j h))"
    by (metis drop0 drop_Suc_Cons old.nat.exhaust)
  with 2 show ?case by auto
qed

lemma starts_with_le: "starts_with n s \<Longrightarrow> length n \<le> length s"
  by (metis length_take min.cobounded1 min.commute starts_with_def)

lemma starts_with_extend: "length n \<le> length s \<Longrightarrow> starts_with n (s @ b) \<longleftrightarrow> starts_with n s"
  by (simp add: starts_with_def)

lemma find_sub_append:
  assumes "n \<noteq> []" "find_sub n s = Some i"
  shows "find_sub n (s @ b) = Some i"
proof -
  have i: "starts_with n (drop i s)" "\<And>j. j < i \<Longrightarrow> \<not> starts_with n (drop j s)"
    using assms by (auto simp: find_sub_Some)
  then have len: "i + length n \<le> length s"
    using starts_with_le [OF i(1)] assms(1) by (cases "i \<le> length s") auto
  have "starts_with n (drop j (s @ b)) \<longleftrightarrow> starts_with n (drop j s)" if "j \<le> i" for j
    using that len by (simp add: starts_with_extend)
  with i show ?thesis using assms(1) by (auto simp: find_sub_Some)
qed

text \<open>From position \<open>j\<close> on, the text is a proper prefix of the delimiter.\<close>

definition tail_at :: "rstring \<Rightarrow> rstring \<Rightarrow> nat \<Rightarrow> bool" where
  "tail_at s n j \<longleftrightarrow> j \<le> length s \<and> length s - j < length n \<and> starts_with (drop j s) n"

definition first_tail :: "rstring \<Rightarrow> rstring \<Rightarrow> nat" where
  "first_tail s n = length s - longest_suffix_prefix_len s n"

lemma ends_with_drop: "k \<le> length s \<Longrightarrow> k \<le> length n \<Longrightarrow>
    ends_with (take k n) s \<longleftrightarrow> starts_with (drop (length s - k) s) n"
  by (auto simp: ends_with_def starts_with_def take_rev rev_swap)

lemma nth_rev_upt: "j < m \<Longrightarrow> rev [1..<Suc m] ! j = m - j"
  using nth_upt [of 1 "m - Suc j" "Suc m"] by (simp add: rev_nth del: upt_Suc)

lemma longest_suffix_prefix_Max:
  fixes s n
  assumes "n \<noteq> []"
  defines "k \<equiv> longest_suffix_prefix_len s n"
  shows "k \<le> length s \<and> k < length n \<and> ends_with (take k n) s \<and>
    (\<forall>k'. k < k' \<longrightarrow> k' \<le> length s \<longrightarrow> k' < length n \<longrightarrow> \<not> ends_with (take k' n) s)"
proof -
  define m where "m = min (length s) (length n - 1)"
  have m: "k' \<le> m \<longleftrightarrow> k' \<le> length s \<and> k' < length n" for k'
    using assms(1) by (cases n) (auto simp: m_def)
  have k: "k = (case List.find (\<lambda>k. ends_with (take k n) s) (rev [1..<Suc m]) of None \<Rightarrow> 0 | Some k \<Rightarrow> k)"
    by (simp add: k_def longest_suffix_prefix_len_def m_def)
  show ?thesis
  proof (cases "List.find (\<lambda>k. ends_with (take k n) s) (rev [1..<Suc m])")
    case None
    then have "k = 0" by (simp add: k del: upt_Suc)
    moreover have "ends_with (take 0 n) s" by (simp add: ends_with_def starts_with_def)
    moreover have "\<not> ends_with (take k' n) s" if "0 < k'" "k' \<le> m" for k'
      using None that by (auto simp: find_None_iff simp del: upt_Suc)
    ultimately show ?thesis using m assms(1) by simp
  next
    case (Some x)
    then obtain i where i: "i < m" "ends_with (take x n) s" "x = m - i"
      "\<And>j. j < i \<Longrightarrow> \<not> ends_with (take (m - j) n) s"
      using nth_rev_upt [of _ m] by (auto simp: find_Some_iff simp del: upt_Suc)
    have "\<not> ends_with (take k' n) s" if "x < k'" "k' \<le> m" for k'
      using i(4) [of "m - k'"] i(1,3) that by simp
    moreover have "k = x" using Some by (simp add: k del: upt_Suc)
    moreover have "x \<le> m" using i(3) by simp
    ultimately show ?thesis using m i(2) by simp
  qed
qed

lemma first_tail:
  assumes "n \<noteq> []"
  shows "tail_at s n (first_tail s n)" "\<And>j. j < first_tail s n \<Longrightarrow> \<not> tail_at s n j"
proof -
  note k = longest_suffix_prefix_Max [OF assms, of s]
  show "tail_at s n (first_tail s n)"
    using k by (auto simp: tail_at_def first_tail_def ends_with_drop)
  fix j
  assume j: "j < first_tail s n"
  show "\<not> tail_at s n j"
  proof
    assume "tail_at s n j"
    then have "j \<le> length s" "length s - j < length n" "starts_with (drop j s) n"
      by (simp_all add: tail_at_def)
    moreover have "longest_suffix_prefix_len s n < length s - j" using j by (simp add: first_tail_def)
    ultimately show False using k ends_with_drop [of "length s - j" s n] by auto
  qed
qed

lemma first_tail_unique:
  "n \<noteq> [] \<Longrightarrow> tail_at s n j \<Longrightarrow> (\<And>i. i < j \<Longrightarrow> \<not> tail_at s n i) \<Longrightarrow> first_tail s n = j"
  by (metis first_tail linorder_less_linear)

lemma tail_shift: "m \<le> length s \<Longrightarrow> tail_at (s @ b) n (m + j) \<longleftrightarrow> tail_at (drop m s @ b) n j"
  by (auto simp: tail_at_def add.commute)

lemma tail_prefix:
  assumes "tail_at (s @ b) n j" "j < length s"
  shows "tail_at s n j"
proof -
  have "take (length (drop j s)) (take (length (drop j s @ b)) n) = drop j s"
    using assms by (simp add: tail_at_def starts_with_def)
  then have "starts_with (drop j s) n" by (simp add: starts_with_def min_def)
  with assms show ?thesis by (auto simp: tail_at_def)
qed

lemma occurrence_tail:
  assumes "starts_with n (drop j (s @ b))" "\<not> starts_with n (drop j s)" "j < length s"
  shows "tail_at s n j"
proof -
  have len: "length s - j < length n"
  proof (rule ccontr)
    assume "\<not> length s - j < length n"
    with assms show False by (simp add: starts_with_extend)
  qed
  have "take (length s - j) n = take (length s - j) (take (length n) (drop j s @ drop (j - length s) b))"
    using assms(1) by (simp add: starts_with_def)
  also have "\<dots> = drop j s" using len assms(3) by (simp add: min_def)
  finally show ?thesis using len assms(3) by (simp add: tail_at_def starts_with_def)
qed

lemma first_tail_append:
  assumes "n \<noteq> []"
  shows "first_tail (s @ b) n = first_tail s n + first_tail (drop (first_tail s n) s @ b) n"
proof (rule first_tail_unique [OF assms])
  let ?m = "first_tail s n"
  have le: "?m \<le> length s" by (simp add: first_tail_def)
  show "tail_at (s @ b) n (?m + first_tail (drop ?m s @ b) n)"
    using first_tail(1) [OF assms] le by (simp add: tail_shift)
  fix i
  assume i: "i < ?m + first_tail (drop ?m s @ b) n"
  show "\<not> tail_at (s @ b) n i"
  proof (cases "i < ?m")
    case True
    then show ?thesis using tail_prefix [of s b n i] first_tail(2) [OF assms, of i s] le by auto
  next
    case False
    then show ?thesis
      using i first_tail(2) [OF assms, of "i - ?m" "drop ?m s @ b"] tail_shift [OF le, of b n "i - ?m"]
      by simp
  qed
qed

lemma find_sub_across:
  assumes "n \<noteq> []" "find_sub n s = None"
  defines "m \<equiv> first_tail s n"
  shows "find_sub n (s @ b) = map_option ((+) m) (find_sub n (drop m s @ b))"
proof -
  have le: "m \<le> length s" by (simp add: m_def first_tail_def)
  have before: "\<not> starts_with n (drop j (s @ b))" if "j < m" for j
    using that le occurrence_tail [of n j s b] first_tail(2) [OF assms(1)] assms(1,2)
    by (auto simp: find_sub_None m_def)
  have shift: "drop (m + j) (s @ b) = drop j (drop m s @ b)" for j
    using le by (simp add: add.commute)
  show ?thesis
  proof (cases "find_sub n (drop m s @ b)")
    case None
    then have "\<not> starts_with n (drop j (s @ b))" for j
      using before [of j] shift [of "j - m"] assms(1)
      by (cases "j < m") (simp_all add: find_sub_None del: drop_append)
    then have "find_sub n (s @ b) = None" using find_sub_None [OF assms(1)] by blast
    with None show ?thesis by simp
  next
    case (Some i)
    then have i: "starts_with n (drop i (drop m s @ b))" "\<And>j. j < i \<Longrightarrow> \<not> starts_with n (drop j (drop m s @ b))"
      using assms(1) by (auto simp: find_sub_Some)
    have "\<not> starts_with n (drop j (s @ b))" if "j < m + i" for j
      using before i(2) [of "j - m"] shift [of "j - m"] that
      by (cases "j < m") (simp_all del: drop_append)
    with i(1) shift [of i] assms(1) have "find_sub n (s @ b) = Some (m + i)"
      by (simp add: find_sub_Some del: drop_append)
    with Some show ?thesis by simp
  qed
qed

subsection \<open>The loop ends\<close>

text \<open>Every delimiter the parser may look for is not empty.\<close>

definition delimited :: "'t inline_hidden_tag_parser \<Rightarrow> bool" where
  "delimited p \<longleftrightarrow>
     list_all (\<lambda>spec. spec_open spec \<noteq> [] \<and> spec_close spec \<noteq> []) (hp_specs p) \<and>
     (case hp_active p of None \<Rightarrow> True | Some active \<Rightarrow> act_close active \<noteq> [])"

lemma min_opener_in: "min_opener xs = Some x \<Longrightarrow> x \<in> set xs"
  by (induction xs arbitrary: x) (auto split: option.splits if_splits)

lemma find_next_open_spec:
  assumes "find_next_open p = Some (pos, idx)"
  shows "idx < length (hp_specs p) \<and> find_sub (spec_open (hp_specs p ! idx)) (hp_pending p) = Some pos"
proof -
  obtain l where "min_opener (List.map_filter
      (\<lambda>(idx, spec). map_option (\<lambda>pos. (pos, utf8_len (spec_open spec), idx))
                       (find_sub (spec_open spec) (hp_pending p)))
      (enumerate 0 (hp_specs p))) = Some (pos, l, idx)"
    using assms by (auto simp: find_next_open_def)
  from min_opener_in [OF this] show ?thesis
    by (auto simp: List.map_filter_def in_set_enumerate_eq)
qed

lemma find_sub_le: "n \<noteq> [] \<Longrightarrow> find_sub n s = Some i \<Longrightarrow> i + length n \<le> length s"
  using starts_with_le [of n "drop i s"] by (cases "i \<le> length s") (auto simp: find_sub_Some)

lemma find_sub_drop:
  "n \<noteq> [] \<Longrightarrow> find_sub n s = Some i \<Longrightarrow> length s - (i + length n) < length s"
  using find_sub_le [of n s i] by (cases n) auto

lemma push_rest_delimited: "delimited p \<Longrightarrow> delimited (fst (push_rest p out))"
  by (auto simp: push_rest_def delimited_def drain_visible_to_suffix_match_def Let_def
        split: option.splits)

lemma push_loop_ends:
  "delimited p \<Longrightarrow> \<exists>p' out'. push_loop p out = Some (p', out') \<and> delimited p'"
proof (induction "length (hp_pending p)" arbitrary: p out rule: less_induct)
  case less
  have rest: "\<exists>p' out'. Some (push_rest p out) = Some (p', out') \<and> delimited p'"
    using push_rest_delimited [OF less.prems, of out] by (metis prod.collapse)
  show ?case
  proof (cases "hp_active p")
    case (Some active)
    then have ne: "act_close active \<noteq> []" using less.prems by (simp add: delimited_def)
    show ?thesis
    proof (cases "find_sub (act_close active) (hp_pending p)")
      case None
      then show ?thesis using Some rest by (simp add: push_loop.simps [of p])
    next
      case (Some i)
      define q where "q = p\<lparr>hp_active := None,
        hp_pending := drop (i + length (act_close active)) (hp_pending p)\<rparr>"
      have "length (hp_pending q) < length (hp_pending p)" "delimited q"
        using find_sub_drop [OF ne Some] ne less.prems by (auto simp: q_def delimited_def)
      then show ?thesis
        using \<open>hp_active p = Some active\<close> Some less.hyps [of q]
        by (simp add: push_loop.simps [of p] flip: q_def)
    qed
  next
    case None
    show ?thesis
    proof (cases "find_next_open p")
      case nothing: None
      then show ?thesis using None rest by (simp add: push_loop.simps [of p])
    next
      case (Some r)
      obtain pos idx where r: "r = (pos, idx)" by fastforce
      define spec where "spec = hp_specs p ! idx"
      have spec: "find_sub (spec_open spec) (hp_pending p) = Some pos" "spec \<in> set (hp_specs p)"
        using find_next_open_spec [of p pos idx] Some r by (auto simp: spec_def)
      then have ne: "spec_open spec \<noteq> []" "spec_close spec \<noteq> []"
        using less.prems by (auto simp: delimited_def list_all_iff)
      define q where "q = p\<lparr>
        hp_active := Some \<lparr>act_tag = spec_tag spec, act_close = spec_close spec, act_content = []\<rparr>,
        hp_pending := drop (pos + length (spec_open spec)) (hp_pending p)\<rparr>"
      have "length (hp_pending q) < length (hp_pending p)" "delimited q"
        using find_sub_drop [OF ne(1) spec(1)] ne less.prems by (auto simp: q_def delimited_def)
      then show ?thesis
        using None Some r less.hyps [of q]
        by (simp add: push_loop.simps [of p] Let_def flip: q_def spec_def)
    qed
  qed
qed

text \<open>What a parser returns on some chunks, one after the other.\<close>

primrec feed ::
  "(rstring \<Rightarrow> 's \<Rightarrow> ('s \<times> 'e stream_text_chunk) option) \<Rightarrow> rstring list \<Rightarrow> 's \<Rightarrow>
   ('s \<times> 'e stream_text_chunk) option" where
  "feed push [] s = Some (s, no_text)"
| "feed push (chunk # chunks) s =
     (case push chunk s of
        None \<Rightarrow> None
      | Some (s1, out1) \<Rightarrow> map_option (\<lambda>(s2, out2). (s2, join_chunks out1 out2)) (feed push chunks s1))"

lemma feed_ends: "delimited p \<Longrightarrow> \<exists>p' out. feed push_str chunks p = Some (p', out) \<and> delimited p'"
proof (induction chunks arbitrary: p)
  case (Cons c cs)
  have "delimited (p\<lparr>hp_pending := hp_pending p @ c\<rparr>)" using Cons.prems by (simp add: delimited_def)
  then obtain p1 out1 where "push_str c p = Some (p1, out1)" "delimited p1"
    using push_loop_ends unfolding push_str_def by blast
  moreover obtain p2 out2 where "feed push_str cs p1 = Some (p2, out2)" "delimited p2"
    using Cons.IH calculation(2) by blast
  ultimately show ?case by simp
qed simp

lemma delimited_new: "new_inline_hidden_tag_parser specs = Some p \<Longrightarrow> delimited p"
  by (auto simp: new_inline_hidden_tag_parser_def delimited_def list_all_iff list_ex_iff split: if_splits)

text \<open>
  C31. A parser the constructor accepts never loops: whatever tags it has and whatever text it is
  given, in any pieces, every \<^verbatim>\<open>push_str\<close> returns.
\<close>

theorem push_str_terminates:
  assumes "new_inline_hidden_tag_parser specs = Some p"
  shows "\<exists>p' out. feed push_str chunks p = Some (p', out)"
  using feed_ends [OF delimited_new [OF assms]] by blast

theorem push_str_terminates_witness:
  "\<exists>p p' out. new_inline_hidden_tag_parser [citation_spec] = Some p \<and>
     feed push_str [str ''a<oai-mem-'', str ''citation>b'', str ''</oai''] p = Some (p', out)"
proof -
  have "new_inline_hidden_tag_parser [citation_spec] =
      Some \<lparr>hp_specs = [citation_spec], hp_pending = [], hp_active = None\<rparr>" by code_simp
  with push_str_terminates [OF this] show ?thesis by blast
qed

subsection \<open>One kind of tag\<close>

definition single :: "'t inline_hidden_tag_parser \<Rightarrow> bool" where
  "single p \<longleftrightarrow> delimited p \<and> length (hp_specs p) = 1"

definition needle :: "'t inline_hidden_tag_parser \<Rightarrow> rstring" where
  "needle p =
     (case hp_active p of Some active \<Rightarrow> act_close active | None \<Rightarrow> spec_open (hd (hp_specs p)))"

text \<open>Text goes to the open tag or to the visible text; a delimiter opens or closes the tag.\<close>

definition absorb ::
  "rstring \<Rightarrow> 't inline_hidden_tag_parser \<times> 't extracted_inline_tag stream_text_chunk \<Rightarrow>
   't inline_hidden_tag_parser \<times> 't extracted_inline_tag stream_text_chunk" where
  "absorb t = (\<lambda>(p, out).
     (case hp_active p of
        Some active \<Rightarrow> (p\<lparr>hp_active := Some (active\<lparr>act_content := act_content active @ t\<rparr>)\<rparr>, out)
      | None \<Rightarrow> (p, out\<lparr>visible_text := visible_text out @ t\<rparr>)))"

definition switch ::
  "'t inline_hidden_tag_parser \<times> 't extracted_inline_tag stream_text_chunk \<Rightarrow>
   't inline_hidden_tag_parser \<times> 't extracted_inline_tag stream_text_chunk" where
  "switch = (\<lambda>(p, out).
     (case hp_active p of
        Some active \<Rightarrow>
          (p\<lparr>hp_active := None\<rparr>,
           out\<lparr>extracted := extracted out @
                 [\<lparr>ext_tag = act_tag active, ext_content = act_content active\<rparr>]\<rparr>)
      | None \<Rightarrow>
          (p\<lparr>hp_active := Some \<lparr>act_tag = spec_tag (hd (hp_specs p)),
                                act_close = spec_close (hd (hp_specs p)), act_content = []\<rparr>\<rparr>, out)))"

definition with_pending :: "rstring \<Rightarrow> 't inline_hidden_tag_parser \<times> 'o \<Rightarrow> 't inline_hidden_tag_parser \<times> 'o" where
  "with_pending s = (\<lambda>(p, out). (p\<lparr>hp_pending := s\<rparr>, out))"

abbreviation run ::
  "'t inline_hidden_tag_parser \<times> 't extracted_inline_tag stream_text_chunk \<Rightarrow>
   ('t inline_hidden_tag_parser \<times> 't extracted_inline_tag stream_text_chunk) option" where
  "run c \<equiv> push_loop (fst c) (snd c)"

lemma single_specs: "single p \<Longrightarrow> \<exists>spec. hp_specs p = [spec]"
  by (auto simp: single_def length_Suc_conv)

lemma needle_ne: "single p \<Longrightarrow> needle p \<noteq> []"
  using single_specs [of p]
  by (auto simp: single_def delimited_def needle_def split: option.splits)

lemma absorb_append: "absorb (a @ b) c = absorb b (absorb a c)"
  by (auto simp: absorb_def split: prod.split option.split)

lemma absorb_Nil [simp]: "absorb [] c = c"
  by (auto simp: absorb_def split: prod.split option.split)

lemma absorb_pending: "absorb t (with_pending s c) = with_pending s (absorb t c)"
  by (auto simp: absorb_def with_pending_def split: prod.split option.split)

lemma switch_pending: "switch (with_pending s c) = with_pending s (switch c)"
  by (auto simp: switch_def with_pending_def split: prod.split option.split)

lemma with_pending_sel [simp]:
  "hp_pending (fst (with_pending s c)) = s" "with_pending s (with_pending t c) = with_pending s c"
  "needle (fst (with_pending s c)) = needle (fst c)" "single (fst (with_pending s c)) = single (fst c)"
  by (auto simp: with_pending_def needle_def single_def delimited_def split: prod.split option.split)

lemma absorb_sel [simp]:
  "hp_pending (fst (absorb t c)) = hp_pending (fst c)" "needle (fst (absorb t c)) = needle (fst c)"
  "single (fst (absorb t c)) = single (fst c)"
  by (auto simp: absorb_def needle_def single_def delimited_def split: prod.split option.split)

lemma switch_single [simp]: "single (fst c) \<Longrightarrow> single (fst (switch c))"
  using single_specs [of "fst c"]
  by (auto simp: switch_def single_def delimited_def split: prod.splits option.splits)

lemma find_next_open_single:
  "hp_specs p = [spec] \<Longrightarrow>
     find_next_open p = map_option (\<lambda>i. (i, 0)) (find_sub (spec_open spec) (hp_pending p))"
  by (cases "find_sub (spec_open spec) (hp_pending p)")
     (simp_all add: find_next_open_def List.map_filter_def)

lemma push_rest_single:
  assumes "single p"
  defines "m \<equiv> first_tail (hp_pending p) (needle p)"
  shows "push_rest p out = with_pending (drop m (hp_pending p)) (absorb (take m (hp_pending p)) (p, out))"
proof -
  obtain spec where spec: "hp_specs p = [spec]" using single_specs [OF assms(1)] by blast
  show ?thesis
    by (cases "hp_active p")
       (auto simp: push_rest_def m_def needle_def absorb_def with_pending_def first_tail_def spec
          drain_visible_to_suffix_match_def max_open_prefix_suffix_len_def Let_def)
qed

lemma run_single:
  assumes "single (fst c)"
  defines "s \<equiv> hp_pending (fst c)" and "n \<equiv> needle (fst c)"
  shows "run c =
    (case find_sub n s of
       Some i \<Rightarrow> run (with_pending (drop (i + length n) s) (switch (absorb (take i s) c)))
     | None \<Rightarrow> Some (with_pending (drop (first_tail s n) s) (absorb (take (first_tail s n) s) c)))"
proof -
  obtain p out where c: "c = (p, out)" by fastforce
  obtain spec where spec: "hp_specs p = [spec]" using single_specs assms(1) c by fastforce
  have rest: "push_rest p out = with_pending (drop (first_tail s n) s) (absorb (take (first_tail s n) s) c)"
    using push_rest_single [of p out] assms(1) c by (simp add: s_def n_def)
  show ?thesis
  proof (cases "hp_active p")
    case None
    then show ?thesis
      using rest spec
      by (auto simp: push_loop.simps [of p] c s_def n_def needle_def find_next_open_single absorb_def
            switch_def with_pending_def split: option.split)
  next
    case (Some active)
    then show ?thesis
      using rest
      by (auto simp: push_loop.simps [of p] c s_def n_def needle_def absorb_def switch_def
            with_pending_def split: option.split)
  qed
qed

lemma run_pieces:
  assumes "single (fst c)"
  shows "run (with_pending (hp_pending (fst c) @ b) c) =
    (case run c of None \<Rightarrow> None | Some d \<Rightarrow> run (with_pending (hp_pending (fst d) @ b) d))"
  using assms
proof (induction "length (hp_pending (fst c))" arbitrary: c rule: less_induct)
  case less
  define s where "s = hp_pending (fst c)"
  define n where "n = needle (fst c)"
  have ne: "n \<noteq> []" using needle_ne less.prems by (simp add: n_def)
  note c = run_single [OF less.prems, folded s_def n_def]
  have cb: "run (with_pending (s @ b) c) =
    (case find_sub n (s @ b) of
       Some i \<Rightarrow> run (with_pending (drop (i + length n) (s @ b)) (switch (absorb (take i (s @ b)) c)))
     | None \<Rightarrow> Some (with_pending (drop (first_tail (s @ b) n) (s @ b))
                 (absorb (take (first_tail (s @ b) n) (s @ b)) c)))"
    using run_single [of "with_pending (s @ b) c"] less.prems
    by (simp add: n_def absorb_pending switch_pending cong: option.case_cong)
  show ?case
  proof (cases "find_sub n s")
    case (Some i)
    define d where "d = with_pending (drop (i + length n) s) (switch (absorb (take i s) c))"
    have i: "i + length n \<le> length s" using find_sub_le [OF ne Some] .
    have "length (hp_pending (fst d)) < length (hp_pending (fst c))" "single (fst d)"
      using find_sub_drop [OF ne Some] less.prems by (simp_all add: d_def s_def)
    note IH = less.hyps [OF this]
    have "with_pending (drop (i + length n) (s @ b)) (switch (absorb (take i (s @ b)) c)) =
        with_pending (hp_pending (fst d) @ b) d"
      using i by (simp add: d_def)
    with cb find_sub_append [OF ne Some, of b]
    have "run (with_pending (s @ b) c) = run (with_pending (hp_pending (fst d) @ b) d)"
      by (simp only: option.case)
    moreover have "run c = run d" using c Some by (simp only: option.case d_def)
    ultimately show ?thesis using IH by (simp only: s_def)
  next
    case None
    define m where "m = first_tail s n"
    define d where "d = with_pending (drop m s) (absorb (take m s) c)"
    have m: "m \<le> length s" by (simp add: m_def first_tail_def)
    have tk: "take (m + j) (s @ b) = take m s @ take j (drop m s @ b)" for j
      using m take_add [of m j "s @ b"] by simp
    have step: "absorb (take (m + j) (s @ b)) c = absorb (take j (drop m s @ b)) (absorb (take m s) c)"
      "drop (m + j) (s @ b) = drop j (drop m s @ b)" for j
      using m by (simp_all only: tk absorb_append) (simp add: add.commute)
    have db: "run (with_pending (hp_pending (fst d) @ b) d) =
      (case find_sub n (drop m s @ b) of
         Some j \<Rightarrow> run (with_pending (drop (j + length n) (drop m s @ b))
                    (switch (absorb (take j (drop m s @ b)) (absorb (take m s) c))))
       | None \<Rightarrow> Some (with_pending (drop (first_tail (drop m s @ b) n) (drop m s @ b))
                 (absorb (take (first_tail (drop m s @ b) n) (drop m s @ b)) (absorb (take m s) c))))"
      using run_single [of "with_pending (hp_pending (fst d) @ b) d"] less.prems
      by (simp add: n_def d_def absorb_pending switch_pending cong: option.case_cong)
    have "run (with_pending (s @ b) c) = run (with_pending (hp_pending (fst d) @ b) d)"
      using cb db find_sub_across [OF ne None, of b] first_tail_append [OF ne, of s b] step
      by (cases "find_sub n (drop m s @ b)") (simp_all add: add.assoc flip: m_def)
    then show ?thesis using c None by (simp add: m_def d_def s_def)
  qed
qed

subsection \<open>Pieces and the whole\<close>

lemma join_no_text [simp]: "join_chunks no_text c = c" "join_chunks c no_text = c"
  by (simp_all add: join_chunks_def no_text_def)

lemma join_assoc: "join_chunks (join_chunks a b) c = join_chunks a (join_chunks b c)"
  by (simp add: join_chunks_def)

lemma join_cancel: "join_chunks a b = join_chunks a c \<longleftrightarrow> b = c"
  by (auto simp: join_chunks_def)

definition prepend :: "'e stream_text_chunk \<Rightarrow> 's \<times> 'e stream_text_chunk \<Rightarrow> 's \<times> 'e stream_text_chunk" where
  "prepend o1 = (\<lambda>(s, out). (s, join_chunks o1 out))"

lemma prepend_sel [simp]: "fst (prepend o1 c) = fst c" "prepend o1 (s, no_text) = (s, o1)"
  "prepend o1 c = prepend o1 d \<longleftrightarrow> c = d" "prepend no_text c = c"
  by (auto simp: prepend_def join_cancel split: prod.splits)

lemma prepend_moves:
  "absorb t (prepend o1 c) = prepend o1 (absorb t c)" "switch (prepend o1 c) = prepend o1 (switch c)"
  "with_pending s (prepend o1 c) = prepend o1 (with_pending s c)"
  by (auto simp: prepend_def absorb_def switch_def with_pending_def join_chunks_def
        split: prod.split option.split)

lemma run_prepend: "single (fst c) \<Longrightarrow> run (prepend o1 c) = map_option (prepend o1) (run c)"
proof (induction "length (hp_pending (fst c))" arbitrary: c rule: less_induct)
  case less
  define s where "s = hp_pending (fst c)"
  define n where "n = needle (fst c)"
  have ne: "n \<noteq> []" using needle_ne less.prems by (simp add: n_def)
  note c = run_single [OF less.prems, folded s_def n_def]
  note pc = run_single [of "prepend o1 c", unfolded prepend_sel, OF less.prems, folded s_def n_def]
  show ?case
  proof (cases "find_sub n s")
    case None
    then show ?thesis using c pc by (simp add: prepend_moves)
  next
    case (Some i)
    define d where "d = with_pending (drop (i + length n) s) (switch (absorb (take i s) c))"
    have "length (hp_pending (fst d)) < length (hp_pending (fst c))" "single (fst d)"
      using find_sub_drop [OF ne Some] less.prems by (simp_all add: d_def s_def)
    from less.hyps [OF this] show ?thesis
      using Some c pc by (simp add: prepend_moves flip: d_def)
  qed
qed

lemma run_single_keeps: "single (fst c) \<Longrightarrow> run c = Some d \<Longrightarrow> single (fst d)"
proof (induction "length (hp_pending (fst c))" arbitrary: c rule: less_induct)
  case less
  define s where "s = hp_pending (fst c)"
  define n where "n = needle (fst c)"
  have ne: "n \<noteq> []" using needle_ne less.prems by (simp add: n_def)
  note c = run_single [OF less.prems(1), folded s_def n_def]
  show ?case
  proof (cases "find_sub n s")
    case None
    then show ?thesis using c less.prems by auto
  next
    case (Some i)
    define e where "e = with_pending (drop (i + length n) s) (switch (absorb (take i s) c))"
    have "length (hp_pending (fst e)) < length (hp_pending (fst c))" "single (fst e)"
      using find_sub_drop [OF ne Some] less.prems by (simp_all add: e_def s_def)
    from less.hyps [OF this] show ?thesis using Some c less.prems(2) by (simp add: e_def)
  qed
qed

text \<open>Nothing is left to do about the pending text.\<close>

definition settled :: "'t inline_hidden_tag_parser \<Rightarrow> bool" where
  "settled p \<longleftrightarrow> single p \<and> push_str [] p = Some (p, no_text)"

lemma push_str_run: "push_str t p = run (with_pending (hp_pending p @ t) (p, no_text))"
  by (simp add: push_str_def with_pending_def)

lemma push_str_append:
  assumes "single p"
  shows "push_str (a @ b) p =
    (case push_str a p of None \<Rightarrow> None | Some (p1, o1) \<Rightarrow> map_option (prepend o1) (push_str b p1))"
proof -
  define c where "c = with_pending (hp_pending p @ a) (p, no_text :: 'a extracted_inline_tag stream_text_chunk)"
  have c: "single (fst c)" using assms by (simp add: c_def)
  have whole: "push_str (a @ b) p = (case run c of None \<Rightarrow> None
      | Some d \<Rightarrow> run (with_pending (hp_pending (fst d) @ b) d))"
    using run_pieces [OF c, of b] by (simp add: push_str_run c_def)
  show ?thesis
  proof (cases "run c")
    case None
    then show ?thesis using whole by (simp add: push_str_run flip: c_def)
  next
    case (Some d)
    obtain p1 o1 where d: "d = (p1, o1)" by fastforce
    have "run (prepend o1 (with_pending (hp_pending p1 @ b) (p1, no_text))) =
        map_option (prepend o1) (push_str b p1)"
      unfolding push_str_run using run_single_keeps [OF c Some] d by (intro run_prepend) simp
    moreover have "prepend o1 (with_pending (hp_pending p1 @ b) (p1, no_text)) =
        with_pending (hp_pending p1 @ b) d"
      by (simp add: d with_pending_def prepend_def)
    ultimately have "run (with_pending (hp_pending (fst d) @ b) d) = map_option (prepend o1) (push_str b p1)"
      by (simp only: d fst_conv)
    then show ?thesis using whole Some d by (simp add: push_str_run [of a] flip: c_def)
  qed
qed

lemma push_str_settles:
  assumes "single p"
  shows "\<exists>p' out. push_str t p = Some (p', out) \<and> settled p'"
proof -
  have "delimited (p\<lparr>hp_pending := hp_pending p @ t\<rparr>)" using assms by (simp add: single_def delimited_def)
  then obtain p' out where p': "push_str t p = Some (p', out)"
    using push_loop_ends unfolding push_str_def by blast
  then have "single p'"
    using run_single_keeps [of "with_pending (hp_pending p @ t) (p, no_text)" "(p', out)"] assms
    by (simp add: push_str_run)
  moreover have "map_option (prepend out) (push_str [] p') = Some (p', out)"
    using push_str_append [OF assms, of t "[]"] p' by simp
  then have "push_str [] p' = Some (p', no_text)"
    by (metis (no_types, lifting) map_option_eq_Some prepend_sel(2,3))
  ultimately show ?thesis using p' by (simp add: settled_def)
qed

subsection \<open>Parsers of a stream\<close>

text \<open>
  What the trait \<^verbatim>\<open>StreamTextParser\<close> promises its clients: on the states it reaches, a push
  returns, an empty one does nothing, and pushing a text in two pieces gives what pushing it
  whole gives.
\<close>

locale stream_text_parser =
  fixes push :: "rstring \<Rightarrow> 's \<Rightarrow> ('s \<times> 'e stream_text_chunk) option"
    and flush :: "'s \<Rightarrow> 's \<times> 'e stream_text_chunk"
    and ready :: "'s \<Rightarrow> bool"
  assumes push_ready: "ready s \<Longrightarrow> \<exists>s' out. push t s = Some (s', out) \<and> ready s'"
    and push_nothing: "ready s \<Longrightarrow> push [] s = Some (s, no_text)"
    and push_pieces: "ready s \<Longrightarrow> push (a @ b) s =
      (case push a s of None \<Rightarrow> None | Some (s1, o1) \<Rightarrow> map_option (prepend o1) (push b s1))"
begin

lemma feed_concat: "ready s \<Longrightarrow> feed push chunks s = push (concat chunks) s"
proof (induction chunks arbitrary: s)
  case (Cons c cs)
  obtain s1 o1 where c: "push c s = Some (s1, o1)" "ready s1" using push_ready Cons.prems by blast
  then show ?case
    using Cons.IH [OF c(2)] push_pieces [OF Cons.prems] by (simp add: prepend_def)
qed (simp add: push_nothing)

end

text \<open>The chunks of a stream and its end.\<close>

definition collect_text ::
  "(rstring \<Rightarrow> 's \<Rightarrow> ('s \<times> 'e stream_text_chunk) option) \<Rightarrow> ('s \<Rightarrow> 's \<times> 'e stream_text_chunk) \<Rightarrow>
   rstring list \<Rightarrow> 's \<Rightarrow> 'e stream_text_chunk option" where
  "collect_text push flush chunks s =
     map_option (\<lambda>(s1, out). join_chunks out (snd (flush s1))) (feed push chunks s)"

interpretation tags: stream_text_parser push_str finish_tags settled
proof
  show "settled p \<Longrightarrow> \<exists>p' out. push_str t p = Some (p', out) \<and> settled p'"
    for p :: "'a inline_hidden_tag_parser" and t
    by (rule push_str_settles) (simp add: settled_def)
  show "settled p \<Longrightarrow> push_str [] p = Some (p, no_text)" for p :: "'a inline_hidden_tag_parser"
    by (simp add: settled_def)
  show "settled p \<Longrightarrow> push_str (a @ b) p =
      (case push_str a p of None \<Rightarrow> None | Some (p1, o1) \<Rightarrow> map_option (prepend o1) (push_str b p1))"
    for p :: "'a inline_hidden_tag_parser" and a b
    by (rule push_str_append) (simp add: settled_def)
qed

lemma citation_prepend:
  "citation_chunk (join_chunks a b) = join_chunks (citation_chunk a) (citation_chunk b)"
  "citation_chunk no_text = no_text"
  by (simp_all add: citation_chunk_def join_chunks_def no_text_def)

interpretation citations: stream_text_parser citation_push_str citation_finish settled
proof
  fix p :: "citation_tag inline_hidden_tag_parser" and t a b
  assume p: "settled p"
  show "\<exists>p' out. citation_push_str t p = Some (p', out) \<and> settled p'"
    using tags.push_ready [OF p, of t] by (auto simp: citation_push_str_def)
  show "citation_push_str [] p = Some (p, no_text)"
    by (simp add: citation_push_str_def tags.push_nothing [OF p] citation_prepend)
  show "citation_push_str (a @ b) p =
      (case citation_push_str a p of None \<Rightarrow> None
       | Some (p1, o1) \<Rightarrow> map_option (prepend o1) (citation_push_str b p1))"
    using tags.push_ready [OF p, of a]
    by (auto simp: citation_push_str_def tags.push_pieces [OF p] prepend_def citation_prepend
          option.map_comp o_def split_beta intro!: arg_cong2 [of _ _ _ _ map_option])
qed

subsection \<open>Citations\<close>

text \<open>What is visible of a text, and its citations, by searching the whole text.\<close>

function cite :: "rstring \<Rightarrow> rstring \<times> rstring list" where
  "cite s =
     (case find_sub CITATION_OPEN s of
        None \<Rightarrow> (s, [])
      | Some i \<Rightarrow>
          (let rest = drop (i + length CITATION_OPEN) s
           in case find_sub CITATION_CLOSE rest of
                None \<Rightarrow> (take i s, [rest])
              | Some j \<Rightarrow>
                  (case cite (drop (j + length CITATION_CLOSE) rest) of
                     (visible, cited) \<Rightarrow> (take i s @ visible, take j rest # cited))))"
  by pat_completeness auto
termination
proof (relation "measure length", simp)
  fix s i rest j
  assume "find_sub CITATION_OPEN s = Some i" "rest = drop (i + length CITATION_OPEN) s"
  moreover have "CITATION_OPEN \<noteq> []" by code_simp
  ultimately show "(drop (j + length CITATION_CLOSE) rest, s) \<in> measure length"
    using find_sub_drop [of CITATION_OPEN s i] by simp
qed

declare cite.simps [simp del]

definition outside :: "rstring \<Rightarrow> citation_tag inline_hidden_tag_parser" where
  "outside s = \<lparr>hp_specs = [citation_spec], hp_pending = s, hp_active = None\<rparr>"

definition inside :: "rstring \<Rightarrow> rstring \<Rightarrow> citation_tag inline_hidden_tag_parser" where
  "inside t s = \<lparr>hp_specs = [citation_spec], hp_pending = s,
     hp_active = Some \<lparr>act_tag = Citation, act_close = CITATION_CLOSE, act_content = t\<rparr>\<rparr>"

lemma delimiters: "CITATION_OPEN \<noteq> []" "CITATION_CLOSE \<noteq> []"
  by code_simp+

lemma single_citation [simp]: "single (outside s)" "single (inside t s)"
  by (simp_all add: outside_def inside_def single_def delimited_def citation_spec_def delimiters)

lemma needle_citation [simp]: "needle (outside s) = CITATION_OPEN" "needle (inside t s) = CITATION_CLOSE"
  by (simp_all add: needle_def outside_def inside_def citation_spec_def)

lemma citation_sel [simp]: "hp_pending (outside s) = s" "hp_pending (inside t s) = s"
  by (simp_all add: outside_def inside_def)

lemma citation_moves [simp]:
  "absorb t (outside s, out) = (outside s, out\<lparr>visible_text := visible_text out @ t\<rparr>)"
  "absorb t (inside u s, out) = (inside (u @ t) s, out)"
  "switch (outside s, out) = (inside [] s, out)"
  "switch (inside u s, out) =
     (outside s, out\<lparr>extracted := extracted out @ [\<lparr>ext_tag = Citation, ext_content = u\<rparr>]\<rparr>)"
  "with_pending r (outside s, out) = (outside r, out)" "with_pending r (inside u s, out) = (inside u r, out)"
  by (simp_all add: absorb_def switch_def with_pending_def outside_def inside_def citation_spec_def)

lemma run_outside:
  "run (outside s, out) =
     (case find_sub CITATION_OPEN s of
        Some i \<Rightarrow> run (inside [] (drop (i + length CITATION_OPEN) s),
                   out\<lparr>visible_text := visible_text out @ take i s\<rparr>)
      | None \<Rightarrow> Some (outside (drop (first_tail s CITATION_OPEN) s),
                   out\<lparr>visible_text := visible_text out @ take (first_tail s CITATION_OPEN) s\<rparr>))"
  using run_single [of "(outside s, out)"] by (simp cong: option.case_cong)

lemma run_inside:
  "run (inside t s, out) =
     (case find_sub CITATION_CLOSE s of
        Some i \<Rightarrow> run (outside (drop (i + length CITATION_CLOSE) s),
                   out\<lparr>extracted := extracted out @ [\<lparr>ext_tag = Citation, ext_content = t @ take i s\<rparr>]\<rparr>)
      | None \<Rightarrow> Some (inside (t @ take (first_tail s CITATION_CLOSE) s)
                         (drop (first_tail s CITATION_CLOSE) s), out))"
  using run_single [of "(inside t s, out)"] by (simp cong: option.case_cong)

lemma finish_citation:
  "finish_tags (outside s) = (outside [], \<lparr>visible_text = s, extracted = []\<rparr>)"
  "finish_tags (inside t s) =
     (outside [], \<lparr>visible_text = [], extracted = [\<lparr>ext_tag = Citation, ext_content = t @ s\<rparr>]\<rparr>)"
  by (simp_all add: finish_tags_def outside_def inside_def no_text_def)

lemma run_cite:
  "\<exists>q o1. run (outside s, out) = Some (q, o1) \<and>
     citation_chunk (join_chunks o1 (snd (finish_tags q))) =
       join_chunks (citation_chunk out) \<lparr>visible_text = fst (cite s), extracted = snd (cite s)\<rparr>"
proof (induction s arbitrary: out rule: cite.induct)
  case (1 s)
  show ?case
  proof (cases "find_sub CITATION_OPEN s")
    case None
    then show ?thesis
      using cite.simps [of s]
      by (simp add: run_outside [simplified] finish_citation citation_chunk_def join_chunks_def)
  next
    case (Some i)
    define rest where "rest = drop (i + length CITATION_OPEN) s"
    note o = run_outside [of s out, unfolded Some option.case, folded rest_def]
    show ?thesis
    proof (cases "find_sub CITATION_CLOSE rest")
      case None
      then show ?thesis
        using cite.simps [of s] Some o
        by (simp add: run_inside [simplified] finish_citation citation_chunk_def join_chunks_def
              flip: rest_def)
    next
      case closed: (Some j)
      define out' where "out' = out\<lparr>visible_text := visible_text out @ take i s,
        extracted := extracted out @ [\<lparr>ext_tag = Citation, ext_content = take j rest\<rparr>]\<rparr>"
      have r: "run (outside s, out) = run (outside (drop (j + length CITATION_CLOSE) rest), out')"
        using o closed by (simp add: run_inside [simplified] out'_def)
      show ?thesis
        using 1 [OF Some rest_def closed, of out'] cite.simps [of s] Some closed
        by (auto simp: r [simplified] out'_def citation_chunk_def join_chunks_def split_beta
              simp flip: rest_def)
    qed
  qed
qed

lemma new_citation_parser_eq: "new_citation_parser = Some (outside [])"
  by (simp add: new_citation_parser_def new_inline_hidden_tag_parser_def outside_def citation_spec_def
        delimiters)

lemma settled_citation: "settled (outside [])"
  by (simp add: settled_def push_str_def no_text_def) code_simp

lemma citation_push_cite:
  "\<exists>p out. citation_push_str s (outside []) = Some (p, out) \<and>
     join_chunks out (snd (citation_finish p)) = \<lparr>visible_text = fst (cite s), extracted = snd (cite s)\<rparr>"
proof -
  have "push_str s (outside []) = run (outside s, no_text)"
    by (simp add: push_str_def outside_def)
  then show ?thesis
    using run_cite [of s no_text]
    by (auto simp: citation_push_str_def citation_finish_def citation_prepend split_beta)
qed

lemma collect_citations:
  "collect_text citation_push_str citation_finish chunks (outside []) =
     Some \<lparr>visible_text = fst (cite (concat chunks)), extracted = snd (cite (concat chunks))\<rparr>"
  using citation_push_cite [of "concat chunks"]
  by (auto simp: collect_text_def citations.feed_concat [OF settled_citation])

text \<open>
  C19. However an assistant's text is cut into chunks, streaming it through the citation parser
  returns, shows the same text and extracts the same citations as searching the complete text
  from one literal delimiter to the next, an unclosed citation running to the end of the text;
  \<^verbatim>\<open>strip_citations\<close> is the case of a single chunk.
\<close>

theorem citations_in_pieces:
  "map_option (\<lambda>c. (visible_text c, extracted c))
     (Option.bind new_citation_parser (collect_text citation_push_str citation_finish chunks)) =
     Some (cite (concat chunks)) \<and>
   strip_citations (concat chunks) = Some (cite (concat chunks))"
  using citation_push_cite [of "concat chunks"]
  by (auto simp: new_citation_parser_eq collect_citations strip_citations_def Let_def)

end
