(* ===== verification/Utf8_Stream.thy ===== *)
theory Utf8_Stream
  imports Stream_Parser_Correct
begin

section \<open>Bytes of a stream\<close>

text \<open>
  \<^verbatim>\<open>utf8_stream.rs\<close>: a text parser fed with bytes, where a chunk may end inside a code point.
  \<^verbatim>\<open>std::str::from_utf8\<close> is modelled with the errors it reports: the length of an invalid
  sequence, or none when the bytes end inside a sequence that is valid so far.
\<close>

subsection \<open>Decoding\<close>

datatype utf8_step = Scalar rchar nat | BadSequence nat | CutOff

definition is_continuation :: "nat \<Rightarrow> bool" where
  "is_continuation b \<longleftrightarrow> 128 \<le> b \<and> b \<le> 191"

definition second_byte_ok :: "nat \<Rightarrow> nat \<Rightarrow> bool" where
  "second_byte_ok a b =
     (if a = 224 then 160 \<le> b \<and> b \<le> 191
      else if a = 237 then 128 \<le> b \<and> b \<le> 159
      else if a = 240 then 144 \<le> b \<and> b \<le> 191
      else if a = 244 then 128 \<le> b \<and> b \<le> 143
      else is_continuation b)"

definition decode_two :: "nat \<Rightarrow> nat list \<Rightarrow> utf8_step" where
  "decode_two a bs =
     (case bs of
        [] \<Rightarrow> CutOff
      | b # _ \<Rightarrow> if is_continuation b then Scalar ((a - 192) * 64 + (b - 128)) 2 else BadSequence 1)"

definition decode_three :: "nat \<Rightarrow> nat list \<Rightarrow> utf8_step" where
  "decode_three a bs =
     (case bs of
        [] \<Rightarrow> CutOff
      | b # cs \<Rightarrow>
          (if \<not> second_byte_ok a b then BadSequence 1
           else case cs of
                  [] \<Rightarrow> CutOff
                | c # _ \<Rightarrow>
                    (if is_continuation c
                     then Scalar ((a - 224) * 4096 + (b - 128) * 64 + (c - 128)) 3
                     else BadSequence 2)))"

definition decode_four :: "nat \<Rightarrow> nat list \<Rightarrow> utf8_step" where
  "decode_four a bs =
     (case bs of
        [] \<Rightarrow> CutOff
      | b # cs \<Rightarrow>
          (if \<not> second_byte_ok a b then BadSequence 1
           else case cs of
                  [] \<Rightarrow> CutOff
                | c # ds \<Rightarrow>
                    (if \<not> is_continuation c then BadSequence 2
                     else case ds of
                            [] \<Rightarrow> CutOff
                          | d # _ \<Rightarrow>
                              (if is_continuation d
                               then Scalar ((a - 240) * 262144 + (b - 128) * 4096 + (c - 128) * 64 + (d - 128)) 4
                               else BadSequence 3))))"

definition decode_next :: "nat \<Rightarrow> nat list \<Rightarrow> utf8_step" where
  "decode_next a bs =
     (if a < 128 then Scalar a 1
      else if 194 \<le> a \<and> a \<le> 223 then decode_two a bs
      else if 224 \<le> a \<and> a \<le> 239 then decode_three a bs
      else if 240 \<le> a \<and> a \<le> 244 then decode_four a bs
      else BadSequence 1)"

lemma decode_next_len: "decode_next a bs = Scalar c n \<Longrightarrow> 0 < n \<and> n \<le> Suc (length bs)"
  by (auto simp: decode_next_def decode_two_def decode_three_def decode_four_def
        split: if_splits list.splits)

text \<open>The text decoded, how decoding ended, and the bytes left.\<close>

datatype utf8_end = AllDecoded | Invalid nat | Incomplete

function utf8_scan :: "byte list \<Rightarrow> rstring \<times> utf8_end \<times> byte list" where
  "utf8_scan bs =
     (case bs of
        [] \<Rightarrow> ([], AllDecoded, [])
      | b # rest \<Rightarrow>
          (case decode_next (unat b) (map unat rest) of
             BadSequence n \<Rightarrow> ([], Invalid n, bs)
           | CutOff \<Rightarrow> ([], Incomplete, bs)
           | Scalar c n \<Rightarrow> (case utf8_scan (drop n bs) of (t, e, r) \<Rightarrow> (c # t, e, r))))"
  by pat_completeness auto
termination
  by (relation "measure length") (auto dest: decode_next_len)

declare utf8_scan.simps [simp del]

record utf8_error =
  valid_up_to :: nat
  error_len :: "nat option"

definition from_utf8 :: "byte list \<Rightarrow> (utf8_error, rstring) result" where
  "from_utf8 bs =
     (case utf8_scan bs of
        (t, AllDecoded, r) \<Rightarrow> Inr t
      | (t, Invalid n, r) \<Rightarrow> Inl \<lparr>valid_up_to = length bs - length r, error_len = Some n\<rparr>
      | (t, Incomplete, r) \<Rightarrow> Inl \<lparr>valid_up_to = length bs - length r, error_len = None\<rparr>)"

subsection \<open>The parser\<close>

datatype utf8_stream_parser_error = InvalidUtf8 nat nat | IncompleteUtf8AtEof

record 's utf8_stream_parser =
  utf8_inner :: 's
  pending_utf8 :: "byte list"

definition new_utf8_stream_parser :: "'s \<Rightarrow> 's utf8_stream_parser" where
  "new_utf8_stream_parser inner = \<lparr>utf8_inner = inner, pending_utf8 = []\<rparr>"

type_synonym 'a parsed = "(utf8_stream_parser_error, 'a) result"

definition push_bytes ::
  "(rstring \<Rightarrow> 's \<Rightarrow> ('s \<times> 'e stream_text_chunk) option) \<Rightarrow> byte list \<Rightarrow> 's utf8_stream_parser \<Rightarrow>
   ('s utf8_stream_parser \<times> 'e stream_text_chunk parsed) option" where
  "push_bytes push chunk p =
     (let old_len = length (pending_utf8 p);
          buf = pending_utf8 p @ chunk
      in case from_utf8 buf of
           Inr text \<Rightarrow>
             map_option (\<lambda>(s, out). (\<lparr>utf8_inner = s, pending_utf8 = []\<rparr>, Inr out)) (push text (utf8_inner p))
         | Inl err \<Rightarrow>
             (case error_len err of
                Some n \<Rightarrow>
                  Some (p\<lparr>pending_utf8 := take old_len buf\<rparr>, Inl (InvalidUtf8 (valid_up_to err) n))
              | None \<Rightarrow>
                  (if valid_up_to err = 0 then Some (p\<lparr>pending_utf8 := buf\<rparr>, Inr no_text)
                   else case from_utf8 (take (valid_up_to err) buf) of
                          Inr text \<Rightarrow>
                            map_option
                              (\<lambda>(s, out). (\<lparr>utf8_inner = s, pending_utf8 = drop (valid_up_to err) buf\<rparr>, Inr out))
                              (push text (utf8_inner p))
                        | Inl prefix_err \<Rightarrow>
                            Some (p\<lparr>pending_utf8 := take old_len buf\<rparr>,
                                  Inl (InvalidUtf8 (valid_up_to prefix_err)
                                    (case error_len prefix_err of None \<Rightarrow> 0 | Some n \<Rightarrow> n))))))"

definition utf8_failure :: "utf8_error \<Rightarrow> utf8_stream_parser_error" where
  "utf8_failure err =
     (case error_len err of Some n \<Rightarrow> InvalidUtf8 (valid_up_to err) n | None \<Rightarrow> IncompleteUtf8AtEof)"

definition finish_bytes ::
  "(rstring \<Rightarrow> 's \<Rightarrow> ('s \<times> 'e stream_text_chunk) option) \<Rightarrow> ('s \<Rightarrow> 's \<times> 'e stream_text_chunk) \<Rightarrow>
   's utf8_stream_parser \<Rightarrow> ('s utf8_stream_parser \<times> 'e stream_text_chunk parsed) option" where
  "finish_bytes push flush p =
     (if pending_utf8 p = []
      then case flush (utf8_inner p) of (s, tail) \<Rightarrow>
             Some (p\<lparr>utf8_inner := s\<rparr>, Inr (join_chunks no_text tail))
      else case from_utf8 (pending_utf8 p) of
             Inl err \<Rightarrow> Some (p, Inl (utf8_failure err))
           | Inr text \<Rightarrow>
               map_option
                 (\<lambda>(s, out). (case flush s of (s1, tail) \<Rightarrow>
                    (\<lparr>utf8_inner = s1, pending_utf8 = []\<rparr>, Inr (join_chunks out tail))))
                 (push text (utf8_inner p)))"

definition into_inner :: "'s utf8_stream_parser \<Rightarrow> 's parsed" where
  "into_inner p =
     (if pending_utf8 p = [] then Inr (utf8_inner p)
      else case from_utf8 (pending_utf8 p) of
             Inr _ \<Rightarrow> Inr (utf8_inner p)
           | Inl err \<Rightarrow> Inl (utf8_failure err))"

definition into_inner_lossy :: "'s utf8_stream_parser \<Rightarrow> 's" where
  "into_inner_lossy p = utf8_inner p"

text \<open>A client that stops at the first error.\<close>

primrec feed_bytes ::
  "(rstring \<Rightarrow> 's \<Rightarrow> ('s \<times> 'e stream_text_chunk) option) \<Rightarrow> byte list list \<Rightarrow> 's utf8_stream_parser \<Rightarrow>
   ('s utf8_stream_parser \<times> 'e stream_text_chunk parsed) option" where
  "feed_bytes push [] p = Some (p, Inr no_text)"
| "feed_bytes push (chunk # chunks) p =
     (case push_bytes push chunk p of
        None \<Rightarrow> None
      | Some (p1, Inl e) \<Rightarrow> Some (p1, Inl e)
      | Some (p1, Inr out) \<Rightarrow>
          map_option (\<lambda>(p2, r). (p2, map_sum id (join_chunks out) r)) (feed_bytes push chunks p1))"

definition collect_bytes ::
  "(rstring \<Rightarrow> 's \<Rightarrow> ('s \<times> 'e stream_text_chunk) option) \<Rightarrow> ('s \<Rightarrow> 's \<times> 'e stream_text_chunk) \<Rightarrow>
   byte list list \<Rightarrow> 's \<Rightarrow> 'e stream_text_chunk parsed option" where
  "collect_bytes push flush chunks s =
     (case feed_bytes push chunks (new_utf8_stream_parser s) of
        None \<Rightarrow> None
      | Some (p, Inl e) \<Rightarrow> Some (Inl e)
      | Some (p, Inr out) \<Rightarrow>
          map_option (\<lambda>(_, r). map_sum id (join_chunks out) r) (finish_bytes push flush p))"

end
