(* ===== verification/Utf8_Stream_Correct.thy ===== *)
theory Utf8_Stream_Correct
  imports Utf8_Stream
begin

section \<open>Where the bytes are cut does not matter\<close>

text \<open>
  Decoding of a byte string in pieces, and the byte parser over any text parser that keeps the
  contract \<^verbatim>\<open>stream_text_parser\<close>.
\<close>

subsection \<open>Decoding in pieces\<close>

lemma decode_append:
  "decode_next a bs = Scalar c n \<Longrightarrow> decode_next a (bs @ ds) = Scalar c n"
  "decode_next a bs = BadSequence n \<Longrightarrow> decode_next a (bs @ ds) = BadSequence n"
  by (auto simp: decode_next_def decode_two_def decode_three_def decode_four_def
        split: if_splits list.splits)

lemma decode_take:
  "decode_next a bs = Scalar c n \<Longrightarrow> decode_next a (take (n - 1) bs @ ds) = Scalar c n"
  by (auto simp: decode_next_def decode_two_def decode_three_def decode_four_def
        split: if_splits list.splits)

lemma scan_Nil [simp]: "utf8_scan [] = ([], AllDecoded, [])"
  by (simp add: utf8_scan.simps)

lemma scan_Scalar:
  "decode_next (unat x) (map unat xs) = Scalar c n \<Longrightarrow>
     utf8_scan (x # xs) = (case utf8_scan (drop n (x # xs)) of (t, e, r) \<Rightarrow> (c # t, e, r))"
  by (subst utf8_scan.simps) simp

lemma scan_append:
  "utf8_scan (a @ b) =
     (case utf8_scan a of (t, e, r) \<Rightarrow>
        (case e of
           Invalid n \<Rightarrow> (t, Invalid n, r @ b)
         | _ \<Rightarrow> (case utf8_scan (r @ b) of (t', e', r') \<Rightarrow> (t @ t', e', r'))))"
proof (induction a rule: utf8_scan.induct)
  case (1 a)
  show ?case
  proof (cases a)
    case Nil
    then show ?thesis by (simp split: prod.split)
  next
    case (Cons x xs)
    show ?thesis
    proof (cases "decode_next (unat x) (map unat xs)")
      case (Scalar c n)
      then have n: "n \<le> length a" using decode_next_len Cons by fastforce
      have "utf8_scan (a @ b) = (case utf8_scan (drop n a @ b) of (t, e, r) \<Rightarrow> (c # t, e, r))"
        using scan_Scalar [of x "xs @ b" c n] decode_append(1) [OF Scalar] drop_append [of n a b] Cons n
        by simp
      moreover have "utf8_scan a = (case utf8_scan (drop n a) of (t, e, r) \<Rightarrow> (c # t, e, r))"
        using scan_Scalar [OF Scalar] Cons by simp
      ultimately show ?thesis
        using 1 [OF Cons Scalar] by (auto split: prod.splits utf8_end.splits)
    next
      case (BadSequence n)
      then show ?thesis
        using decode_append(2) [OF BadSequence] Cons by (simp add: utf8_scan.simps)
    next
      case CutOff
      then have "utf8_scan a = ([], Incomplete, a)" using Cons by (simp add: utf8_scan.simps)
      then show ?thesis by (simp split: prod.split)
    qed
  qed
qed

lemma scan_split:
  "utf8_scan a = (t, e, r) \<Longrightarrow>
     \<exists>u. a = u @ r \<and> utf8_scan u = (t, AllDecoded, []) \<and> utf8_scan r = ([], e, r) \<and>
         (u = [] \<longleftrightarrow> t = [])"
proof (induction a arbitrary: t rule: utf8_scan.induct)
  case (1 a)
  show ?case
  proof (cases a)
    case Nil
    then show ?thesis using "1.prems" by simp
  next
    case (Cons x xs)
    show ?thesis
    proof (cases "decode_next (unat x) (map unat xs)")
      case (Scalar c n)
      then have n: "0 < n" "n \<le> length a" using decode_next_len Cons by fastforce+
      obtain t' where t': "utf8_scan (drop n a) = (t', e, r)" "t = c # t'"
        using "1.prems" scan_Scalar [OF Scalar] Cons by (auto split: prod.splits)
      then obtain u where u: "drop n a = u @ r" "utf8_scan u = (t', AllDecoded, [])" "utf8_scan r = ([], e, r)"
        using "1.IH" [OF Cons Scalar t'(1)] by blast
      have hd: "take n a @ u = x # (take (n - 1) xs @ u)" using Cons n(1) by (cases n) simp_all
      have "utf8_scan (take n a @ u) = (t, AllDecoded, [])"
        using scan_Scalar [of x "take (n - 1) xs @ u" c n, folded hd]
          decode_take [OF Scalar, of "map unat u"] n u(2) t'(2)
        by (simp add: take_map)
      moreover have "a = (take n a @ u) @ r" using u(1) by (metis append.assoc append_take_drop_id)
      ultimately show ?thesis using u(3) t'(2) n Cons by (intro exI [of _ "take n a @ u"]) auto
    next
      case (BadSequence n)
      then show ?thesis using "1.prems" Cons by (auto simp: utf8_scan.simps)
    next
      case CutOff
      then show ?thesis using "1.prems" Cons by (auto simp: utf8_scan.simps)
    qed
  qed
qed

lemma scan_end: "utf8_scan r = ([], AllDecoded, r) \<Longrightarrow> r = []"
  by (cases r) (auto simp: utf8_scan.simps split: utf8_step.splits prod.splits)
lemma from_utf8_scan:
  "utf8_scan bs = (t, e, r) \<Longrightarrow> from_utf8 bs =
     (case e of
        AllDecoded \<Rightarrow> Inr t
      | Invalid n \<Rightarrow> Inl \<lparr>valid_up_to = length bs - length r, error_len = Some n\<rparr>
      | Incomplete \<Rightarrow> Inl \<lparr>valid_up_to = length bs - length r, error_len = None\<rparr>)"
  by (simp add: from_utf8_def split: utf8_end.split)

subsection \<open>The byte parser over any text parser\<close>

context stream_text_parser
begin

lemma push_bytes_scan:
  assumes "ready (utf8_inner p)" "utf8_scan (pending_utf8 p @ chunk) = (t, e, r)"
  shows "push_bytes push chunk p =
    (case e of
       Invalid n \<Rightarrow> Some (p, Inl (InvalidUtf8 (length (pending_utf8 p @ chunk) - length r) n))
     | _ \<Rightarrow> map_option (\<lambda>(s, out). (\<lparr>utf8_inner = s, pending_utf8 = r\<rparr>, Inr out)) (push t (utf8_inner p)))"
proof -
  define buf where "buf = pending_utf8 p @ chunk"
  obtain u where u: "buf = u @ r" "utf8_scan u = (t, AllDecoded, [])" "utf8_scan r = ([], e, r)"
    "u = [] \<longleftrightarrow> t = []"
    using scan_split [OF assms(2)] by (auto simp: buf_def)
  note f = from_utf8_scan [OF assms(2), folded buf_def]
  show ?thesis
  proof (cases e)
    case AllDecoded
    then show ?thesis using f scan_end [of r] u(3) by (simp add: push_bytes_def Let_def flip: buf_def)
  next
    case (Invalid n)
    then show ?thesis using f by (simp add: push_bytes_def Let_def buf_def)
  next
    case Incomplete
    then have g: "from_utf8 buf = Inl \<lparr>valid_up_to = length u, error_len = None\<rparr>"
      using f u(1) by simp
    show ?thesis
    proof (cases "u = []")
      case True
      with u(1,4) have "buf = r" "t = []" by simp_all
      then show ?thesis
        using True Incomplete g push_nothing [OF assms(1)]
        by (simp add: push_bytes_def Let_def flip: buf_def)
    next
      case False
      have "from_utf8 u = Inr t" using from_utf8_scan [OF u(2)] by simp
      with False Incomplete g u(1) show ?thesis by (simp add: push_bytes_def Let_def flip: buf_def)
    qed
  qed
qed

lemma feed_bytes_scan:
  assumes "ready (utf8_inner p)" "utf8_scan (pending_utf8 p) = ([], e0, pending_utf8 p)"
    "\<And>n. e0 \<noteq> Invalid n" "utf8_scan (pending_utf8 p @ concat chunks) = (t, e, r)"
  shows "case e of
      Invalid n \<Rightarrow> \<exists>p' v. feed_bytes push chunks p = Some (p', Inl (InvalidUtf8 v n))
    | _ \<Rightarrow> feed_bytes push chunks p =
        map_option (\<lambda>(s, out). (\<lparr>utf8_inner = s, pending_utf8 = r\<rparr>, Inr out)) (push t (utf8_inner p))"
  using assms
proof (induction chunks arbitrary: p e0 t)
  case Nil
  then show ?case by (auto simp: push_nothing split: utf8_end.split)
next
  case (Cons c cs)
  obtain t1 e1 r1 where one: "utf8_scan (pending_utf8 p @ c) = (t1, e1, r1)" by (metis prod_cases3)
  note all = scan_append [of "pending_utf8 p @ c" "concat cs"]
  show ?case
  proof (cases "\<exists>n. e1 = Invalid n")
    case True
    then show ?thesis
      using push_bytes_scan [OF Cons.prems(1) one] all one Cons.prems(4) by auto
  next
    case False
    obtain s1 o1 where s1: "push t1 (utf8_inner p) = Some (s1, o1)" "ready s1"
      using push_ready [OF Cons.prems(1)] by blast
    define p1 where "p1 = \<lparr>utf8_inner = s1, pending_utf8 = r1\<rparr>"
    have pb: "push_bytes push c p = Some (p1, Inr o1)"
      using push_bytes_scan [OF Cons.prems(1) one] False s1(1)
      by (simp add: p1_def split: utf8_end.splits)
    obtain t2 where t2: "utf8_scan (r1 @ concat cs) = (t2, e, r)" "t = t1 @ t2"
      using all one False Cons.prems(4) by (auto split: prod.splits utf8_end.splits)
    have r1: "utf8_scan r1 = ([], e1, r1)" using scan_split [OF one] by blast
    have IH: "case e of
        Invalid n \<Rightarrow> \<exists>p' v. feed_bytes push cs p1 = Some (p', Inl (InvalidUtf8 v n))
      | _ \<Rightarrow> feed_bytes push cs p1 =
          map_option (\<lambda>(s, out). (\<lparr>utf8_inner = s, pending_utf8 = r\<rparr>, Inr out)) (push t2 s1)"
      using Cons.IH [of p1 e1 t2] False r1 s1(2) t2(1)
      by (simp add: p1_def cong: utf8_end.case_cong)
    have "push t (utf8_inner p) = map_option (prepend o1) (push t2 s1)"
      using push_pieces [OF Cons.prems(1), of t1 t2] s1(1) t2(2) by simp
    with IH pb show ?thesis
      by (auto simp: prepend_def option.map_comp o_def split_beta split: utf8_end.splits)
  qed
qed

lemma collect_bytes_scan:
  assumes "ready s" "utf8_scan (concat chunks) = (t, e, r)"
  shows "case e of
      AllDecoded \<Rightarrow> collect_bytes push flush chunks s = map_option Inr (collect_text push flush [t] s)
    | Incomplete \<Rightarrow> collect_bytes push flush chunks s = Some (Inl IncompleteUtf8AtEof)
    | Invalid n \<Rightarrow> \<exists>v. collect_bytes push flush chunks s = Some (Inl (InvalidUtf8 v n))"
proof -
  let ?p = "new_utf8_stream_parser s"
  have f: "case e of
      Invalid n \<Rightarrow> \<exists>p' v. feed_bytes push chunks ?p = Some (p', Inl (InvalidUtf8 v n))
    | _ \<Rightarrow> feed_bytes push chunks ?p =
        map_option (\<lambda>(s, out). (\<lparr>utf8_inner = s, pending_utf8 = r\<rparr>, Inr out)) (push t s)"
    using feed_bytes_scan [of ?p AllDecoded chunks t e r] assms
    by (simp add: new_utf8_stream_parser_def cong: utf8_end.case_cong)
  obtain s1 o1 where s1: "push t s = Some (s1, o1)" "ready s1" using push_ready [OF assms(1)] by blast
  have r: "utf8_scan r = ([], e, r)" using scan_split [OF assms(2)] by blast
  show ?thesis
  proof (cases e)
    case AllDecoded
    then have "r = []" using r scan_end by simp
    with AllDecoded f s1 show ?thesis
      by (simp add: collect_bytes_def finish_bytes_def collect_text_def split_beta)
  next
    case (Invalid n)
    then show ?thesis using f by (auto simp: collect_bytes_def)
  next
    case Incomplete
    then have "r \<noteq> []" using r by auto
    with Incomplete f s1 r show ?thesis
      by (simp add: collect_bytes_def finish_bytes_def from_utf8_def utf8_failure_def)
  qed
qed

end

subsection \<open>Encoding\<close>

definition is_scalar :: "rchar \<Rightarrow> bool" where
  "is_scalar c \<longleftrightarrow> c < 55296 \<or> (57344 \<le> c \<and> c < 1114112)"

definition encode_utf8 :: "rchar \<Rightarrow> nat list" where
  "encode_utf8 c =
     (if c < 128 then [c]
      else if c < 2048 then [192 + c div 64, 128 + c mod 64]
      else if c < 65536 then [224 + c div 4096, 128 + c div 64 mod 64, 128 + c mod 64]
      else [240 + c div 262144, 128 + c div 4096 mod 64, 128 + c div 64 mod 64, 128 + c mod 64])"

definition utf8_bytes :: "rstring \<Rightarrow> byte list" where
  "utf8_bytes s = concat (map (\<lambda>c. map of_nat (encode_utf8 c)) s)"

lemma split_64: "(c :: nat) = c div 64 * 64 + c mod 64" "c div 64 = c div 4096 * 64 + c div 64 mod 64"
  "c div 4096 = c div 262144 * 64 + c div 4096 mod 64"
  using div_mult2_eq [of c 64 64] div_mult_mod_eq [of "c div 64" 64]
    div_mult2_eq [of c 4096 64] div_mult_mod_eq [of "c div 4096" 64] by simp_all

lemma decode_encode:
  assumes "is_scalar c"
  shows "\<exists>b bs. encode_utf8 c = b # bs \<and> decode_next b (bs @ ds) = Scalar c (length (encode_utf8 c)) \<and>
    list_all (\<lambda>x. x < 256) (encode_utf8 c)"
proof -
  have m: "c mod 64 \<le> 63" "c div 64 mod 64 \<le> 63" "c div 4096 mod 64 \<le> 63"
    by (simp_all add: less_Suc_eq_le [symmetric])
  consider "c < 128" | "128 \<le> c" "c < 2048" | "2048 \<le> c" "c < 65536" | "65536 \<le> c" by linarith
  then show ?thesis
  proof cases
    case 1
    then show ?thesis by (simp add: encode_utf8_def decode_next_def)
  next
    case 2
    define q where "q = c div 64"
    have "q < 32" "2 \<le> q" using 2 by (simp_all add: q_def less_eq_div_iff_mult_less_eq)
    then show ?thesis
      using 2 m(1) split_64(1) [of c]
      by (simp add: encode_utf8_def decode_next_def decode_two_def is_continuation_def flip: q_def)
  next
    case 3
    then have "c div 4096 < 16" by linarith
    moreover have "c div 4096 = 0 \<Longrightarrow> 32 \<le> c div 64 mod 64" using 3 split_64(2) [of c] by linarith
    moreover have "c div 4096 = 13 \<Longrightarrow> c div 64 mod 64 < 32"
      using assms split_64(1,2) [of c] m unfolding is_scalar_def by linarith
    moreover have "c div 4096 * 4096 + c div 64 mod 64 * 64 + c mod 64 = c"
      using split_64(1,2) [of c] by linarith
    ultimately show ?thesis
      using 3 m
      by (auto simp: encode_utf8_def decode_next_def decode_three_def second_byte_ok_def is_continuation_def)
  next
    case 4
    then have "c div 262144 \<le> 4" using assms unfolding is_scalar_def by linarith
    moreover have "c div 262144 = 0 \<Longrightarrow> 16 \<le> c div 4096 mod 64" using 4 split_64(3) [of c] by linarith
    moreover have "c div 262144 = 4 \<Longrightarrow> c div 4096 mod 64 < 16"
      using assms 4 split_64 [of c] m unfolding is_scalar_def by linarith
    moreover have "c div 262144 * 262144 + c div 4096 mod 64 * 4096 + c div 64 mod 64 * 64 + c mod 64 = c"
      using split_64 [of c] by linarith
    ultimately show ?thesis
      using 4 m
      by (auto simp: encode_utf8_def decode_next_def decode_four_def second_byte_ok_def is_continuation_def)
  qed
qed

lemma scan_encoded: "list_all is_scalar s \<Longrightarrow> utf8_scan (utf8_bytes s) = (s, AllDecoded, [])"
proof (induction s)
  case (Cons c s)
  obtain b bs where e: "encode_utf8 c = b # bs"
    "decode_next b (bs @ map unat (utf8_bytes s)) = Scalar c (length (b # bs))"
    "list_all (\<lambda>x. x < 256) (b # bs)"
    using decode_encode [of c "map unat (utf8_bytes s)"] Cons.prems by auto
  have u: "map (unat \<circ> (of_nat :: nat \<Rightarrow> byte)) bs = bs" "unat (of_nat b :: byte) = b"
    using e(3) by (auto simp: list_all_iff unat_of_nat_byte intro!: map_idI)
  have "utf8_bytes (c # s) = of_nat b # (map of_nat bs @ utf8_bytes s)"
    using e(1) by (simp add: utf8_bytes_def)
  moreover have "utf8_scan (of_nat b # (map of_nat bs @ utf8_bytes s)) = (c # s, AllDecoded, [])"
    using scan_Scalar [of "of_nat b" "map of_nat bs @ utf8_bytes s" c "length (b # bs)"] e(2) u Cons
    by simp
  ultimately show ?case by simp
qed (simp add: utf8_bytes_def)

text \<open>
  C12. However the bytes of a stream are cut into chunks, also inside a code point, the byte parser
  over the citation parser returns: with what searching the decoded text gives when the bytes
  are UTF-8, with the incomplete code point at the end when they end inside one, and with
  the length of the first invalid sequence otherwise. A chunk that is refused leaves the parser
  as it was.
\<close>

theorem utf8_citations_in_pieces:
  "(case utf8_scan (concat chunks) of
      (text, AllDecoded, _) \<Rightarrow>
        Option.bind new_citation_parser (collect_bytes citation_push_str citation_finish chunks) =
          Some (Inr \<lparr>visible_text = fst (cite text), extracted = snd (cite text)\<rparr>)
    | (_, Incomplete, _) \<Rightarrow>
        Option.bind new_citation_parser (collect_bytes citation_push_str citation_finish chunks) =
          Some (Inl IncompleteUtf8AtEof)
    | (_, Invalid n, _) \<Rightarrow>
        \<exists>v. Option.bind new_citation_parser (collect_bytes citation_push_str citation_finish chunks) =
          Some (Inl (InvalidUtf8 v n))) \<and>
   (case push_bytes citation_push_str chunk p of Some (p', Inl e) \<Rightarrow> p' = p | _ \<Rightarrow> True)"
proof -
  obtain t e r where s: "utf8_scan (concat chunks) = (t, e, r)" by (metis prod_cases3)
  have "case push_bytes citation_push_str chunk p of Some (p', Inl e) \<Rightarrow> p' = p | _ \<Rightarrow> True"
    by (auto simp: push_bytes_def Let_def split: option.split sum.split prod.split)
  with citations.collect_bytes_scan [OF settled_citation s] collect_citations [of "[t]"] s
  show ?thesis by (auto simp: new_citation_parser_eq split: utf8_end.splits)
qed

end
