(* ===== verification/Char_Boundaries.thy ===== *)
theory Char_Boundaries
  imports Text_Truncation
begin

section \<open>Byte positions in text\<close>

text \<open>
  What the text area uses of \<^verbatim>\<open>str\<close> and \<^verbatim>\<open>String\<close>: char boundaries, slices by byte ranges,
  \<^verbatim>\<open>char_indices\<close>, searching and \<^verbatim>\<open>replace_range\<close>. A byte range that does not lie on char
  boundaries, is reversed or exceeds the text panics, which is \<open>None\<close>. The lemmas say how
  boundaries and slices move when a range of the text is replaced.
\<close>

definition is_char_boundary :: "rstring \<Rightarrow> nat \<Rightarrow> bool" where
  "is_char_boundary s p = (split_at_byte p s \<noteq> None)"

definition str_slice :: "nat \<Rightarrow> nat \<Rightarrow> rstring \<Rightarrow> rstring option" where
  "str_slice a b s = (if a \<le> b then Option.bind (slice_to b s) (slice_from a) else None)"

fun char_indices :: "nat \<Rightarrow> rstring \<Rightarrow> (nat \<times> rchar) list" where
  "char_indices k [] = []"
| "char_indices k (c # s) = (k, c) # char_indices (k + char_len_utf8 c) s"

definition find_char :: "(rchar \<Rightarrow> bool) \<Rightarrow> rstring \<Rightarrow> (nat \<times> rchar) option" where
  "find_char P s = List.find (\<lambda>(_, c). P c) (char_indices 0 s)"

definition rfind_char :: "(rchar \<Rightarrow> bool) \<Rightarrow> rstring \<Rightarrow> (nat \<times> rchar) option" where
  "rfind_char P s = List.find (\<lambda>(_, c). P c) (rev (char_indices 0 s))"

definition replace_bytes :: "nat \<Rightarrow> nat \<Rightarrow> rstring \<Rightarrow> rstring \<Rightarrow> rstring option" where
  "replace_bytes a b t s =
     (if a \<le> b
      then Option.bind (slice_to a s) (\<lambda>x. Option.bind (slice_from b s) (\<lambda>z. Some (x @ t @ z)))
      else None)"

subsection \<open>Boundaries\<close>

lemma split_at_byte_Some:
  "split_at_byte p s = Some (a, b) \<longleftrightarrow> s = a @ b \<and> utf8_len a = p"
proof
  assume "split_at_byte p s = Some (a, b)"
  then show "s = a @ b \<and> utf8_len a = p"
    by (induction p s arbitrary: a b rule: split_at_byte.induct)
      (auto split: if_splits option.splits)
qed auto

lemma is_char_boundary_iff: "is_char_boundary s p \<longleftrightarrow> (\<exists>a b. s = a @ b \<and> utf8_len a = p)"
proof -
  have "is_char_boundary s p \<longleftrightarrow> (\<exists>x. split_at_byte p s = Some x)"
    by (simp add: is_char_boundary_def)
  then show ?thesis by (simp add: split_paired_Ex split_at_byte_Some)
qed

lemma boundaryE:
  assumes "is_char_boundary s p"
  obtains a b where "s = a @ b" "utf8_len a = p"
  using assms by (auto simp: is_char_boundary_iff)

lemma boundary_0 [simp]: "is_char_boundary s 0"
  by (auto simp: is_char_boundary_iff)

lemma boundary_append [simp]:
  "is_char_boundary (a @ b) (utf8_len a)" "is_char_boundary s (utf8_len s)"
  unfolding is_char_boundary_iff by (blast, metis append_Nil2)

lemma boundary_append3 [simp]: "is_char_boundary (a @ b @ c) (utf8_len a + utf8_len b)"
  using boundary_append(1) [of "a @ b" c] by simp

lemma boundary_le: "is_char_boundary s p \<Longrightarrow> p \<le> utf8_len s"
  by (auto simp: is_char_boundary_iff)

lemma prefix_by_len:
  assumes "a @ b = a' @ b'" "utf8_len a \<le> utf8_len a'"
  shows "\<exists>c. a' = a @ c \<and> b = c @ b'"
  using assms by (auto simp: append_eq_append_conv2)

lemma same_len_prefix: "a @ b = a' @ b' \<Longrightarrow> utf8_len a = utf8_len a' \<Longrightarrow> a = a' \<and> b = b'"
  by (metis Pair_inject option.inject split_at_byte_prefix)

lemma boundary2E:
  assumes "is_char_boundary s p" "is_char_boundary s q" "p \<le> q"
  obtains a b c where "s = a @ b @ c" "utf8_len a = p" "utf8_len a + utf8_len b = q"
proof -
  obtain a x where a: "s = a @ x" "utf8_len a = p" using assms(1) by (rule boundaryE)
  obtain y c where y: "s = y @ c" "utf8_len y = q" using assms(2) by (rule boundaryE)
  obtain b where "y = a @ b" "x = b @ c" using prefix_by_len [of a x y c] a y assms(3) by auto
  with a y show ?thesis by (intro that [of a b c]) auto
qed

lemma boundary_shift:
  "is_char_boundary (a @ b) (utf8_len a + p) \<longleftrightarrow> is_char_boundary b p"
proof
  assume l: "is_char_boundary (a @ b) (utf8_len a + p)"
  obtain u v where u: "a @ b = u @ v" "utf8_len u = utf8_len a + p" using l by (rule boundaryE)
  obtain c where "u = a @ c" "b = c @ v" using prefix_by_len [of a b u v] u by auto
  with u show "is_char_boundary b p" by (auto simp: is_char_boundary_iff)
next
  assume "is_char_boundary b p"
  then obtain u v where "b = u @ v" "utf8_len u = p" by (rule boundaryE)
  then have "a @ b = (a @ u) @ v" "utf8_len (a @ u) = utf8_len a + p" by simp_all
  then show "is_char_boundary (a @ b) (utf8_len a + p)" unfolding is_char_boundary_iff by blast
qed

lemma boundary_prefix:
  assumes "p \<le> utf8_len a"
  shows "is_char_boundary (a @ b) p \<longleftrightarrow> is_char_boundary a p"
proof
  assume l: "is_char_boundary (a @ b) p"
  obtain u v where u: "a @ b = u @ v" "utf8_len u = p" using l by (rule boundaryE)
  obtain c where "a = u @ c" using prefix_by_len [of u v a b] u assms by auto
  with u show "is_char_boundary a p" by auto
next
  assume "is_char_boundary a p"
  then obtain u v where "a = u @ v" "utf8_len u = p" by (rule boundaryE)
  then show "is_char_boundary (a @ b) p" by auto
qed

subsection \<open>Slices\<close>

lemma slice_append [simp]:
  "str_slice (utf8_len a) (utf8_len a + utf8_len b) (a @ b @ c) = Some b"
proof -
  have "slice_to (utf8_len a + utf8_len b) ((a @ b) @ c) = Some (a @ b)"
    using slice_prefix(1) [of "a @ b" c] by simp
  then show ?thesis by (simp add: str_slice_def)
qed

lemma slice_defined:
  assumes "is_char_boundary s p" "is_char_boundary s q" "p \<le> q"
  obtains a b c where "s = a @ b @ c" "utf8_len a = p" "q = p + utf8_len b" "str_slice p q s = Some b"
  using assms boundary2E [of s p q] slice_append by metis

lemma slice_to_defined:
  assumes "is_char_boundary s p"
  obtains a b where "s = a @ b" "utf8_len a = p" "slice_to p s = Some a" "slice_from p s = Some b"
  using assms by (metis boundaryE slice_prefix)

lemma slice_SomeD:
  assumes "str_slice p q s = Some b"
  shows "\<exists>a c. s = a @ b @ c \<and> utf8_len a = p \<and> q = p + utf8_len b"
proof -
  obtain y c where "p \<le> q" "s = y @ c" "utf8_len y = q" "slice_from p y = Some b"
    using assms
    by (auto simp: str_slice_def slice_to_def split_at_byte_Some bind_eq_Some_conv split: if_splits)
  moreover from this obtain a where "y = a @ b" "utf8_len a = p"
    by (auto simp: slice_from_def split_at_byte_Some)
  ultimately show ?thesis by auto
qed

lemma slice_Some_iff:
  "str_slice p q s = Some b \<longleftrightarrow> (\<exists>a c. s = a @ b @ c \<and> utf8_len a = p \<and> q = p + utf8_len b)"
  using slice_SomeD by auto

subsection \<open>Searching\<close>

lemma char_indices_in:
  "(i, c) \<in> set (char_indices k s) \<Longrightarrow> \<exists>a b. s = a @ c # b \<and> i = k + utf8_len a"
proof (induction s arbitrary: k)
  case (Cons d s)
  show ?case
  proof (cases "(i, c) = (k, d)")
    case True
    then have "d # s = [] @ c # s \<and> i = k + utf8_len []" by simp
    then show ?thesis by blast
  next
    case False
    then have "(i, c) \<in> set (char_indices (k + char_len_utf8 d) s)" using Cons.prems by auto
    then obtain a b where "s = a @ c # b" "i = k + char_len_utf8 d + utf8_len a"
      using Cons.IH by blast
    then have "d # s = (d # a) @ c # b \<and> i = k + utf8_len (d # a)" by simp
    then show ?thesis by blast
  qed
qed simp

lemma char_indices_append:
  "char_indices k (a @ b) = char_indices k a @ char_indices (k + utf8_len a) b"
  by (induction a arbitrary: k) (simp_all add: add.assoc)

lemma find_in_set: "List.find P xs = Some x \<Longrightarrow> x \<in> set xs \<and> P x"
  by (induction xs) (auto split: if_splits)

lemma find_char_SomeD:
  assumes "find_char P s = Some (i, c)"
  shows "\<exists>a b. s = a @ c # b \<and> i = utf8_len a \<and> P c"
proof -
  have "(i, c) \<in> set (char_indices 0 s)" "P c"
    using assms unfolding find_char_def by (auto dest!: find_in_set)
  then show ?thesis using char_indices_in [of i c 0 s] by auto
qed

lemma rfind_char_SomeD:
  assumes "rfind_char P s = Some (i, c)"
  shows "\<exists>a b. s = a @ c # b \<and> i = utf8_len a \<and> P c"
proof -
  have "(i, c) \<in> set (rev (char_indices 0 s))" "P c"
    using assms unfolding rfind_char_def by (auto dest!: find_in_set)
  then show ?thesis using char_indices_in [of i c 0 s] by auto
qed

subsection \<open>Replacing a range\<close>

lemma replace_bytes_append [simp]:
  "replace_bytes (utf8_len a) (utf8_len a + utf8_len b) t (a @ b @ c) = Some (a @ t @ c)"
proof -
  have "slice_from (utf8_len a + utf8_len b) ((a @ b) @ c) = Some c"
    using slice_prefix(2) [of "a @ b" c] by simp
  then show ?thesis by (simp add: replace_bytes_def)
qed

lemma replace_bytes_defined:
  assumes "is_char_boundary s p" "is_char_boundary s q" "p \<le> q"
  obtains a b c where "s = a @ b @ c" "utf8_len a = p" "q = p + utf8_len b"
    "replace_bytes p q t s = Some (a @ t @ c)"
  using assms boundary2E [of s p q] replace_bytes_append by metis

text \<open>Boundaries and slices before and after a replaced range.\<close>

lemma replaced_boundary_before:
  assumes "is_char_boundary (a @ b @ c) p" "p \<le> utf8_len a"
  shows "is_char_boundary (a @ t @ c) p"
  using assms boundary_prefix by metis

lemma replaced_boundary_after:
  assumes "is_char_boundary (a @ b @ c) p" "utf8_len a + utf8_len b \<le> p"
  shows "is_char_boundary (a @ t @ c) (p + utf8_len t - utf8_len b)"
proof -
  obtain q where q: "p = utf8_len (a @ b) + q" using assms(2) le_Suc_ex by auto
  have "is_char_boundary c q" using assms(1) boundary_shift [of "a @ b" c q] q by simp
  then have "is_char_boundary ((a @ t) @ c) (utf8_len (a @ t) + q)" by (simp only: boundary_shift)
  then show ?thesis by (simp add: q add.commute add.left_commute)
qed

lemma slice_before:
  assumes "str_slice p q (a @ b @ c) = Some u" "q \<le> utf8_len a"
  shows "str_slice p q (a @ t @ c) = Some u"
proof -
  obtain x y where x: "a @ b @ c = x @ u @ y" "utf8_len x = p" "q = p + utf8_len u"
    using slice_SomeD [OF assms(1)] by blast
  obtain z where "a = (x @ u) @ z" using prefix_by_len [of "x @ u" y a "b @ c"] x assms(2) by auto
  then show ?thesis using x by (auto simp: slice_Some_iff)
qed

lemma slice_after:
  assumes "str_slice p q (a @ b @ c) = Some u" "utf8_len a + utf8_len b \<le> p"
  shows "str_slice (p + utf8_len t - utf8_len b) (q + utf8_len t - utf8_len b) (a @ t @ c) = Some u"
proof -
  obtain x y where x: "a @ b @ c = x @ u @ y" "utf8_len x = p" "q = p + utf8_len u"
    using slice_SomeD [OF assms(1)] by blast
  obtain z where z: "x = (a @ b) @ z" "c = z @ u @ y"
    using prefix_by_len [of "a @ b" c x "u @ y"] x assms(2) by auto
  have "a @ t @ c = (a @ t @ z) @ u @ y" "utf8_len (a @ t @ z) = p + utf8_len t - utf8_len b"
    using z x by simp_all
  moreover have "q + utf8_len t - utf8_len b = p + utf8_len t - utf8_len b + utf8_len u"
    using x z by simp
  ultimately show ?thesis unfolding slice_Some_iff by blast
qed

end
