(* ===== verification/Key_Bindings.thy ===== *)
theory Key_Bindings
  imports Prelude "HOL-Library.Word"
begin

section \<open>Key events and key bindings\<close>

text \<open>
  Key events as crossterm reports them and the bindings of \<^verbatim>\<open>tui/src/key_hint.rs\<close>, with the keymaps
  of \<^verbatim>\<open>tui/src/keymap.rs\<close> the text area reads. Terminals report shifted letters and control
  chords in several ways; matching compares normal forms.
\<close>

unbundle bit_operations_syntax

datatype key_code =
  Backspace | Enter | LeftKey | RightKey | UpKey | DownKey | Home | End | PageUp | PageDown | Tab
| BackTab | Delete | Insert | FKey nat | CharKey rchar | NullKey | Esc | OtherKey nat

type_synonym key_modifiers = "8 word"

definition mod_none :: key_modifiers where "mod_none = 0"
definition mod_shift :: key_modifiers where "mod_shift = 1"
definition mod_control :: key_modifiers where "mod_control = 2"

datatype key_event_kind = KeyPress | KeyRepeat | KeyRelease

record key_event =
  ev_code :: key_code
  ev_modifiers :: key_modifiers
  ev_kind :: key_event_kind

record key_binding =
  kb_key :: key_code
  kb_modifiers :: key_modifiers

definition c0_control_char_to_ctrl_char :: "rchar \<Rightarrow> rchar option" where
  "c0_control_char_to_ctrl_char ch =
     (if ch = 0 then Some 32
      else if ch \<le> 26 then Some (ch - 1 + 97)
      else if 28 \<le> ch \<and> ch \<le> 31 then Some (ch - 28 + 52)
      else None)"

definition normalize_key_parts :: "key_code \<Rightarrow> key_modifiers \<Rightarrow> key_code \<times> key_modifiers" where
  "normalize_key_parts key m =
     (case key of
        CharKey ch \<Rightarrow>
          (case (if m = 0 then c0_control_char_to_ctrl_char ch else None) of
             Some d \<Rightarrow> (CharKey d, mod_control OR m)
           | None \<Rightarrow>
               if 65 \<le> ch \<and> ch \<le> 90 then (CharKey (ch + 32), m OR mod_shift) else (key, m))
      | _ \<Rightarrow> (key, m))"

definition press_or_repeat :: "key_event \<Rightarrow> bool" where
  "press_or_repeat e = (ev_kind e = KeyPress \<or> ev_kind e = KeyRepeat)"

definition is_press :: "key_binding \<Rightarrow> key_event \<Rightarrow> bool" where
  "is_press b e =
     (normalize_key_parts (kb_key b) (kb_modifiers b) =
        normalize_key_parts (ev_code e) (ev_modifiers e) \<and> press_or_repeat e)"

definition is_pressed :: "key_binding list \<Rightarrow> key_event \<Rightarrow> bool" where
  "is_pressed bs e = list_ex (\<lambda>b. is_press b e) bs"

definition is_altgr :: "key_modifiers \<Rightarrow> bool" where
  "is_altgr m = False"

subsection \<open>Keymaps\<close>

record editor_keymap =
  insert_newline :: "key_binding list"
  move_left :: "key_binding list"
  move_right :: "key_binding list"
  move_up :: "key_binding list"
  move_down :: "key_binding list"
  move_word_left :: "key_binding list"
  move_word_right :: "key_binding list"
  move_line_start :: "key_binding list"
  move_line_end :: "key_binding list"
  delete_backward_key :: "key_binding list"
  delete_forward_key :: "key_binding list"
  delete_backward_word_key :: "key_binding list"
  delete_forward_word_key :: "key_binding list"
  kill_line_start :: "key_binding list"
  kill_whole_line :: "key_binding list"
  kill_line_end :: "key_binding list"
  yank_key :: "key_binding list"

record vim_normal_keymap =
  enter_insert :: "key_binding list"
  append_after_cursor :: "key_binding list"
  append_line_end :: "key_binding list"
  insert_line_start :: "key_binding list"
  open_line_below :: "key_binding list"
  open_line_above :: "key_binding list"
  vim_left :: "key_binding list"
  vim_right :: "key_binding list"
  vim_up :: "key_binding list"
  vim_down :: "key_binding list"
  move_word_forward :: "key_binding list"
  move_word_backward :: "key_binding list"
  move_word_end :: "key_binding list"
  vim_line_start :: "key_binding list"
  vim_line_end :: "key_binding list"
  delete_char :: "key_binding list"
  substitute_char :: "key_binding list"
  delete_to_line_end :: "key_binding list"
  change_to_line_end :: "key_binding list"
  vim_yank_line :: "key_binding list"
  paste_after :: "key_binding list"
  start_delete_operator :: "key_binding list"
  start_yank_operator :: "key_binding list"
  start_change_operator :: "key_binding list"
  cancel_operator :: "key_binding list"

record vim_operator_keymap =
  op_delete_line :: "key_binding list"
  op_yank_line :: "key_binding list"
  motion_left :: "key_binding list"
  motion_right :: "key_binding list"
  motion_up :: "key_binding list"
  motion_down :: "key_binding list"
  motion_word_forward :: "key_binding list"
  motion_word_backward :: "key_binding list"
  motion_word_end :: "key_binding list"
  motion_line_start :: "key_binding list"
  motion_line_end :: "key_binding list"
  select_inner_text_object :: "key_binding list"
  select_around_text_object :: "key_binding list"
  op_cancel :: "key_binding list"

record vim_text_object_keymap =
  obj_word :: "key_binding list"
  obj_big_word :: "key_binding list"
  obj_parentheses :: "key_binding list"
  obj_brackets :: "key_binding list"
  obj_braces :: "key_binding list"
  obj_double_quote :: "key_binding list"
  obj_single_quote :: "key_binding list"
  obj_backtick :: "key_binding list"
  obj_cancel :: "key_binding list"

text \<open>The four keymaps a text area holds.\<close>

record keymaps =
  km_editor :: editor_keymap
  km_vim_normal :: vim_normal_keymap
  km_vim_operator :: vim_operator_keymap
  km_vim_text_object :: vim_text_object_keymap

subsection \<open>Normal forms\<close>

text \<open>Normalising is idempotent, so a binding may be stored in either form.\<close>

lemma normalize_key_parts_idem:
  "normalize_key_parts k m = (k', m') \<Longrightarrow> normalize_key_parts k' m' = (k', m')"
proof (cases k)
  case (CharKey ch)
  have s: "m OR mod_shift \<noteq> 0" and c: "mod_control \<noteq> 0"
    by (simp_all add: mod_shift_def mod_control_def or_eq_0_iff)
  assume "normalize_key_parts k m = (k', m')"
  then show ?thesis using CharKey s c
    by (auto simp: normalize_key_parts_def c0_control_char_to_ctrl_char_def split: if_splits)
qed (auto simp: normalize_key_parts_def)

text \<open>A binding with shift matches the upper case letter, a control chord its raw control char.\<close>

lemma is_press_shifted:
  assumes "97 \<le> c" "c \<le> 122" "press_or_repeat e"
    and "ev_code e = CharKey (c - 32)" "ev_modifiers e = 0"
  shows "is_press \<lparr>kb_key = CharKey c, kb_modifiers = mod_shift\<rparr> e"
  using assms
  by (auto simp: is_press_def normalize_key_parts_def c0_control_char_to_ctrl_char_def mod_shift_def)

lemma is_press_control:
  assumes "97 \<le> c" "c \<le> 122" "press_or_repeat e"
    and "ev_code e = CharKey (c - 96)" "ev_modifiers e = 0"
  shows "is_press \<lparr>kb_key = CharKey c, kb_modifiers = mod_control\<rparr> e"
  using assms
  by (auto simp: is_press_def normalize_key_parts_def c0_control_char_to_ctrl_char_def
      mod_control_def)

end
