(* ===== verification/Text_Area.thy ===== *)
theory Text_Area
  imports Char_Boundaries Key_Bindings "HOL-Library.Monad_Syntax"
begin

section \<open>The text area of the composer\<close>

text \<open>
  The editable buffer of \<^verbatim>\<open>tui/src/bottom_pane/textarea.rs\<close>: its text with a cursor, atomic
  elements (placeholders), the kill buffer, the cache of wrapped lines and the Vim mode.
  Positions are byte offsets; an operation that slices the text is an option, \<open>None\<close> being the
  panic of a slice off the char boundaries. Grapheme and word segmentation, column widths
  and line wrapping rest on other crates and are the fields of a record of functions. A text is
  shorter than \<open>2 ^ 63\<close> bytes, so additions on positions neither saturate nor overflow.
\<close>

subsection \<open>Segmentation and widths\<close>

datatype boundary_result = Boundary nat | NoBoundary | BoundaryError

record unicode_ops =
  prev_boundary :: "rstring \<Rightarrow> nat \<Rightarrow> boundary_result"
  next_boundary :: "rstring \<Rightarrow> nat \<Rightarrow> boundary_result"
  grapheme_indices :: "rstring \<Rightarrow> (nat \<times> rstring) list"
  split_word_bound_indices :: "rstring \<Rightarrow> (nat \<times> rstring) list"
  unicode_width :: "rstring \<Rightarrow> nat"
  wrap_ranges :: "nat \<Rightarrow> rstring \<Rightarrow> (nat \<times> nat) list"

definition display_width :: "unicode_ops \<Rightarrow> rstring \<Rightarrow> nat" where
  "display_width u s =
     unicode_width u s + length (filter (\<lambda>c. c = 65438 \<or> c = 65439) s)"

definition WORD_SEPARATORS :: rstring where
  "WORD_SEPARATORS =
     str ''`~!@#$%^&*()-=+[{]}'' @ [92] @ str ''|;:'' @ [39, 34] @ str '',.<>/?''"

definition is_word_separator :: "rchar \<Rightarrow> bool" where
  "is_word_separator c = (c \<in> set WORD_SEPARATORS)"

text \<open>
  The pieces of one segment: a piece is cut where separators and other chars meet. The piece
  being read starts at byte \<open>start\<close>.
\<close>

fun segment_pieces :: "nat \<Rightarrow> bool \<Rightarrow> rstring \<Rightarrow> rstring \<Rightarrow> (nat \<times> rstring) list" where
  "segment_pieces start in_separator piece [] = [(start, piece)]"
| "segment_pieces start in_separator piece (c # cs) =
     (if is_word_separator c = in_separator
      then segment_pieces start in_separator (piece @ [c]) cs
      else (start, piece) #
           segment_pieces (start + utf8_len piece) (is_word_separator c) [c] cs)"

definition split_word_pieces :: "unicode_ops \<Rightarrow> rstring \<Rightarrow> (nat \<times> rstring) list" where
  "split_word_pieces u run =
     concat (map (\<lambda>(segment_start, segment).
       (case segment of
          [] \<Rightarrow> []
        | c # cs \<Rightarrow> segment_pieces segment_start (is_word_separator c) [c] cs))
       (split_word_bound_indices u run))"

definition text_for_display :: "rstring \<Rightarrow> rstring" where
  "text_for_display s = map (\<lambda>c. if c = 9 then 32 else c) s"

subsection \<open>State\<close>

record text_element =
  el_id :: nat
  el_start :: nat
  el_end :: nat

record text_element_snapshot =
  sn_id :: nat
  sn_range :: "nat \<times> nat"
  sn_text :: rstring

record wrap_cache =
  wc_width :: nat
  wc_lines :: "(nat \<times> nat) list"

datatype kill_buffer_kind = Characterwise | Linewise

datatype vim_mode = VimNormal | VimInsert

datatype vim_operator = OpDelete | OpYank | OpChange

datatype vim_text_object_scope = ScopeInner | ScopeAround

datatype vim_pending =
  PendingNone | PendingOperator vim_operator | PendingTextObject vim_operator vim_text_object_scope

record text_area =
  ta_text :: rstring
  ta_cursor :: nat
  ta_wrap_cache :: "wrap_cache option"
  ta_preferred_col :: "nat option"
  ta_elements :: "text_element list"
  ta_next_element_id :: nat
  ta_kill_buffer :: rstring
  ta_kill_buffer_kind :: kill_buffer_kind
  ta_vim_enabled :: bool
  ta_vim_mode :: vim_mode
  ta_vim_pending :: vim_pending
  ta_keymaps :: keymaps

definition text_area_new :: "keymaps \<Rightarrow> text_area" where
  "text_area_new defaults =
     \<lparr>ta_text = [], ta_cursor = 0, ta_wrap_cache = None, ta_preferred_col = None,
      ta_elements = [], ta_next_element_id = 1, ta_kill_buffer = [],
      ta_kill_buffer_kind = Characterwise, ta_vim_enabled = False, ta_vim_mode = VimInsert,
      ta_vim_pending = PendingNone, ta_keymaps = defaults\<rparr>"

definition set_keymap_bindings :: "keymaps \<Rightarrow> text_area \<Rightarrow> text_area" where
  "set_keymap_bindings km A = A\<lparr>ta_keymaps := km\<rparr>"

abbreviation ta_len :: "text_area \<Rightarrow> nat" where
  "ta_len A \<equiv> utf8_len (ta_text A)"

subsection \<open>Clamping positions\<close>

function prev_char_boundary :: "rstring \<Rightarrow> nat \<Rightarrow> nat" where
  "prev_char_boundary s prev =
     (if 0 < prev \<and> \<not> is_char_boundary s prev then prev_char_boundary s (prev - 1) else prev)"
  by pat_completeness auto

termination by (relation "measure snd") auto

function next_char_boundary :: "rstring \<Rightarrow> nat \<Rightarrow> nat" where
  "next_char_boundary s nxt =
     (if nxt < utf8_len s \<and> \<not> is_char_boundary s nxt then next_char_boundary s (nxt + 1) else nxt)"
  by pat_completeness auto

termination by (relation "measure (\<lambda>(s, n). utf8_len s - n)") auto

declare prev_char_boundary.simps [simp del] next_char_boundary.simps [simp del]

definition clamp_pos_to_char_boundary :: "rstring \<Rightarrow> nat \<Rightarrow> nat" where
  "clamp_pos_to_char_boundary s pos =
     (let pos = min pos (utf8_len s)
      in if is_char_boundary s pos then pos
         else let prev = prev_char_boundary s pos; nxt = next_char_boundary s pos
              in if pos - prev \<le> nxt - pos then prev else nxt)"

definition find_element_containing :: "text_element list \<Rightarrow> nat \<Rightarrow> text_element option" where
  "find_element_containing es pos = List.find (\<lambda>e. el_start e < pos \<and> pos < el_end e) es"

definition clamp_pos_to_nearest_boundary :: "text_area \<Rightarrow> nat \<Rightarrow> nat" where
  "clamp_pos_to_nearest_boundary A pos =
     (let pos = clamp_pos_to_char_boundary (ta_text A) pos
      in case find_element_containing (ta_elements A) pos of
           Some e \<Rightarrow>
             (if pos - el_start e \<le> el_end e - pos
              then clamp_pos_to_char_boundary (ta_text A) (el_start e)
              else clamp_pos_to_char_boundary (ta_text A) (el_end e))
         | None \<Rightarrow> pos)"

definition clamp_pos_for_insertion :: "text_area \<Rightarrow> nat \<Rightarrow> nat" where
  "clamp_pos_for_insertion A pos =
     (let pos = clamp_pos_to_char_boundary (ta_text A) pos
      in case find_element_containing (ta_elements A) pos of
           Some e \<Rightarrow>
             (if pos - el_start e \<le> el_end e - pos
              then clamp_pos_to_char_boundary (ta_text A) (el_start e)
              else clamp_pos_to_char_boundary (ta_text A) (el_end e))
         | None \<Rightarrow> pos)"

definition adjust_pos_out_of_elements :: "text_area \<Rightarrow> nat \<Rightarrow> bool \<Rightarrow> nat" where
  "adjust_pos_out_of_elements A pos prefer_start =
     (case find_element_containing (ta_elements A) pos of
        Some e \<Rightarrow> if prefer_start then el_start e else el_end e
      | None \<Rightarrow> pos)"

subsection \<open>Elements under edits\<close>

definition expand_step :: "text_element \<Rightarrow> nat \<times> nat \<times> bool \<Rightarrow> nat \<times> nat \<times> bool" where
  "expand_step e r =
     (case r of (a, b, changed) \<Rightarrow>
        if el_start e < b \<and> a < el_end e
        then let a' = min a (el_start e); b' = max b (el_end e)
             in if a' \<noteq> a \<or> b' \<noteq> b then (a', b', True) else (a, b, changed)
        else (a, b, changed))"

definition expand_pass :: "text_element list \<Rightarrow> nat \<times> nat \<Rightarrow> nat \<times> nat \<times> bool" where
  "expand_pass es r = fold expand_step es (fst r, snd r, False)"

text \<open>The measure of the loop: how far the range may still grow.\<close>

definition growth :: "text_element list \<Rightarrow> nat \<Rightarrow> nat \<Rightarrow> nat" where
  "growth es a b = a + (foldr (\<lambda>e m. max (el_end e) m) es 0 - b)"

lemma expand_fold_growth:
  assumes "fold expand_step es (a, b, ch) = (a', b', ch')"
    and "foldr (\<lambda>e m. max (el_end e) m) es 0 \<le> M"
  shows "a' \<le> a \<and> b \<le> b' \<and> (ch' \<and> \<not> ch \<longrightarrow> a' + (M - b') < a + (M - b))"
  using assms
proof (induction es arbitrary: a b ch)
  case (Cons e es)
  obtain a1 b1 c1 where s: "expand_step e (a, b, ch) = (a1, b1, c1)" by (metis prod_cases3)
  have "a1 \<le> a \<and> b \<le> b1 \<and> (c1 \<and> \<not> ch \<longrightarrow> a1 + (M - b1) < a + (M - b)) \<and> (ch \<longrightarrow> c1)"
    using s Cons.prems(2) by (auto simp: expand_step_def Let_def split: if_splits)
  moreover have "a' \<le> a1 \<and> b1 \<le> b' \<and> (ch' \<and> \<not> c1 \<longrightarrow> a' + (M - b') < a1 + (M - b1))"
    using Cons s by auto
  ultimately show ?case by linarith
qed simp

lemma expand_pass_growth:
  "expand_pass es (a, b) = (a', b', True) \<Longrightarrow> growth es a' b' < growth es a b"
  using expand_fold_growth [of es a b False a' b' True]
  by (simp add: expand_pass_def growth_def)

function expand_range_to_element_boundaries ::
  "text_element list \<Rightarrow> nat \<times> nat \<Rightarrow> nat \<times> nat" where
  "expand_range_to_element_boundaries es (a, b) =
     (case expand_pass es (a, b) of
        (a', b', changed) \<Rightarrow>
          if changed then expand_range_to_element_boundaries es (a', b') else (a', b'))"
  by pat_completeness auto

termination
  by (relation "measure (\<lambda>(es, a, b). growth es a b)") (auto dest!: expand_pass_growth [OF sym])

declare expand_range_to_element_boundaries.simps [simp del]

definition shift_element :: "nat \<Rightarrow> nat \<Rightarrow> nat \<Rightarrow> text_element \<Rightarrow> text_element" where
  "shift_element at removed inserted e =
     (if el_end e \<le> at then e
      else if at + removed \<le> el_start e
      then e\<lparr>el_start := el_start e + inserted - removed, el_end := el_end e + inserted - removed\<rparr>
      else e\<lparr>el_start := min at (el_start e),
             el_end := at + max inserted (el_end e - (at + removed))\<rparr>)"

definition shift_elements ::
  "nat \<Rightarrow> nat \<Rightarrow> nat \<Rightarrow> text_element list \<Rightarrow> text_element list" where
  "shift_elements at removed inserted es =
     map (shift_element at removed inserted)
       (filter (\<lambda>e. \<not> (at \<le> el_start e \<and> el_end e \<le> at + removed)) es)"

definition update_elements_after_replace ::
  "nat \<Rightarrow> nat \<Rightarrow> nat \<Rightarrow> text_element list \<Rightarrow> text_element list" where
  "update_elements_after_replace start end_pos inserted_len es =
     shift_elements start (end_pos - start) inserted_len es"

subsection \<open>Replacing text\<close>

definition insert_str_at :: "nat \<Rightarrow> rstring \<Rightarrow> text_area \<Rightarrow> text_area option" where
  "insert_str_at pos t A =
     (let pos = clamp_pos_for_insertion A pos
      in do {
        s \<leftarrow> replace_bytes pos pos t (ta_text A);
        Some (A\<lparr>ta_text := s,
                ta_cursor := (if pos \<le> ta_cursor A then ta_cursor A + utf8_len t else ta_cursor A),
                ta_wrap_cache := None,
                ta_preferred_col := None,
                ta_elements := shift_elements pos 0 (utf8_len t) (ta_elements A)\<rparr>)
      })"

definition insert_str :: "rstring \<Rightarrow> text_area \<Rightarrow> text_area option" where
  "insert_str t A = insert_str_at (ta_cursor A) t A"

definition replace_range_raw :: "nat \<times> nat \<Rightarrow> rstring \<Rightarrow> text_area \<Rightarrow> text_area option" where
  "replace_range_raw r t A =
     (case r of (a, b) \<Rightarrow>
        if \<not> a \<le> b then None
        else
          let start = min a (ta_len A);
              end_pos = min b (ta_len A);
              removed_len = end_pos - start;
              inserted_len = utf8_len t
          in if removed_len = 0 \<and> inserted_len = 0 then Some A
             else do {
               s \<leftarrow> replace_bytes a b t (ta_text A);
               let c = min (if ta_cursor A < start then ta_cursor A
                            else if ta_cursor A \<le> end_pos then start + inserted_len
                            else ta_cursor A + inserted_len - removed_len) (utf8_len s);
               let A1 = A\<lparr>ta_text := s,
                          ta_cursor := c,
                          ta_wrap_cache := None,
                          ta_preferred_col := None,
                          ta_elements :=
                            update_elements_after_replace start end_pos inserted_len (ta_elements A)\<rparr>;
               Some (A1\<lparr>ta_cursor := clamp_pos_to_nearest_boundary A1 c\<rparr>)
             })"

definition replace_range :: "nat \<times> nat \<Rightarrow> rstring \<Rightarrow> text_area \<Rightarrow> text_area option" where
  "replace_range r t A =
     replace_range_raw (expand_range_to_element_boundaries (ta_elements A) r) t A"

definition set_cursor :: "nat \<Rightarrow> text_area \<Rightarrow> text_area" where
  "set_cursor pos A =
     A\<lparr>ta_cursor := clamp_pos_to_nearest_boundary A (min pos (ta_len A)),
       ta_preferred_col := None\<rparr>"

text \<open>The elements of \<^verbatim>\<open>set_text_with_elements\<close> are byte ranges of the new text.\<close>

fun set_text_elements ::
  "rstring \<Rightarrow> (nat \<times> nat) list \<Rightarrow> nat \<Rightarrow> text_element list \<times> nat" where
  "set_text_elements s [] next_id = ([], next_id)"
| "set_text_elements s ((a, b) # rs) next_id =
     (let start = clamp_pos_to_char_boundary s (min a (utf8_len s));
          end_pos = clamp_pos_to_char_boundary s (min b (utf8_len s))
      in if end_pos \<le> start then set_text_elements s rs next_id
         else case set_text_elements s rs (saturating_add next_id 1) of
           (es, n) \<Rightarrow> (\<lparr>el_id = next_id, el_start = start, el_end = end_pos\<rparr> # es, n))"

definition set_text_inner ::
  "rstring \<Rightarrow> (nat \<times> nat) list option \<Rightarrow> text_area \<Rightarrow> text_area" where
  "set_text_inner s elements A =
     (let c = min (ta_cursor A) (utf8_len s);
          (es, n) = (case elements of
                       None \<Rightarrow> ([], ta_next_element_id A)
                     | Some rs \<Rightarrow>
                         (case set_text_elements s rs (ta_next_element_id A) of
                            (es, n) \<Rightarrow> (sort_key el_start es, n)));
          A1 = A\<lparr>ta_text := s, ta_cursor := c, ta_elements := es, ta_next_element_id := n\<rparr>
      in A1\<lparr>ta_cursor := clamp_pos_to_nearest_boundary A1 c,
            ta_wrap_cache := None,
            ta_preferred_col := None\<rparr>)"

definition set_text_clearing_elements :: "rstring \<Rightarrow> text_area \<Rightarrow> text_area" where
  "set_text_clearing_elements s A = set_text_inner s None A"

definition set_text_with_elements :: "rstring \<Rightarrow> (nat \<times> nat) list \<Rightarrow> text_area \<Rightarrow> text_area" where
  "set_text_with_elements s rs A = set_text_inner s (Some rs) A"

subsection \<open>Lines and graphemes\<close>

definition beginning_of_line :: "nat \<Rightarrow> text_area \<Rightarrow> nat option" where
  "beginning_of_line pos A =
     do {
       p \<leftarrow> slice_to pos (ta_text A);
       Some (case rfind_char (\<lambda>c. c = LF) p of None \<Rightarrow> 0 | Some (i, _) \<Rightarrow> i + 1)
     }"

definition beginning_of_current_line :: "text_area \<Rightarrow> nat option" where
  "beginning_of_current_line A = beginning_of_line (ta_cursor A) A"

definition end_of_line :: "nat \<Rightarrow> text_area \<Rightarrow> nat option" where
  "end_of_line pos A =
     do {
       q \<leftarrow> slice_from pos (ta_text A);
       Some (case find_char (\<lambda>c. c = LF) q of None \<Rightarrow> ta_len A | Some (i, _) \<Rightarrow> i + pos)
     }"

definition end_of_current_line :: "text_area \<Rightarrow> nat option" where
  "end_of_current_line A = end_of_line (ta_cursor A) A"

definition first_non_blank_of_current_line :: "text_area \<Rightarrow> nat option" where
  "first_non_blank_of_current_line A =
     do {
       bol \<leftarrow> beginning_of_current_line A;
       eol \<leftarrow> end_of_current_line A;
       l \<leftarrow> str_slice bol eol (ta_text A);
       Some (case find_char (\<lambda>c. \<not> is_whitespace c) l of
               Some (offset, _) \<Rightarrow> bol + offset
             | None \<Rightarrow> eol)
     }"

definition current_display_col :: "unicode_ops \<Rightarrow> text_area \<Rightarrow> nat option" where
  "current_display_col u A =
     do {
       bol \<leftarrow> beginning_of_current_line A;
       l \<leftarrow> str_slice bol (ta_cursor A) (ta_text A);
       Some (display_width u l)
     }"

definition prev_atomic_boundary :: "unicode_ops \<Rightarrow> text_area \<Rightarrow> nat \<Rightarrow> nat" where
  "prev_atomic_boundary u A pos =
     (if pos = 0 then 0
      else case List.find (\<lambda>e. el_start e < pos \<and> pos \<le> el_end e) (ta_elements A) of
        Some e \<Rightarrow> el_start e
      | None \<Rightarrow>
          (case prev_boundary u (ta_text A) pos of
             Boundary b \<Rightarrow>
               (case find_element_containing (ta_elements A) b of
                  Some e \<Rightarrow> el_start e
                | None \<Rightarrow> b)
           | NoBoundary \<Rightarrow> 0
           | BoundaryError \<Rightarrow> pos - 1))"

definition next_atomic_boundary :: "unicode_ops \<Rightarrow> text_area \<Rightarrow> nat \<Rightarrow> nat" where
  "next_atomic_boundary u A pos =
     (if ta_len A \<le> pos then ta_len A
      else case List.find (\<lambda>e. el_start e \<le> pos \<and> pos < el_end e) (ta_elements A) of
        Some e \<Rightarrow> el_end e
      | None \<Rightarrow>
          (case next_boundary u (ta_text A) pos of
             Boundary b \<Rightarrow>
               (case find_element_containing (ta_elements A) b of
                  Some e \<Rightarrow> el_end e
                | None \<Rightarrow> b)
           | NoBoundary \<Rightarrow> ta_len A
           | BoundaryError \<Rightarrow> pos + 1))"

subsection \<open>Words\<close>

fun separators_before :: "nat \<Rightarrow> nat \<Rightarrow> (nat \<times> rstring) list \<Rightarrow> nat" where
  "separators_before run_start start [] = start"
| "separators_before run_start start ((idx, piece) # ps) =
     (if list_all is_word_separator piece then separators_before run_start (run_start + idx) ps
      else start)"

definition beginning_of_previous_word :: "unicode_ops \<Rightarrow> text_area \<Rightarrow> nat option" where
  "beginning_of_previous_word u A =
     do {
       pre \<leftarrow> slice_to (ta_cursor A) (ta_text A);
       (case rfind_char (\<lambda>c. \<not> is_whitespace c) pre of
          None \<Rightarrow> Some 0
        | Some (first_non_ws_idx, ch) \<Rightarrow>
            do {
              before \<leftarrow> slice_to first_non_ws_idx pre;
              let run_start = (case rfind_char is_whitespace before of
                                 None \<Rightarrow> 0
                               | Some (idx, c) \<Rightarrow> idx + char_len_utf8 c);
              let run_end = first_non_ws_idx + char_len_utf8 ch;
              run \<leftarrow> str_slice run_start run_end pre;
              (case rev (split_word_pieces u run) of
                 [] \<Rightarrow> Some run_start
               | (piece_start, piece) # pieces \<Rightarrow>
                   let start = run_start + piece_start;
                       start = (if list_all is_word_separator piece
                                then separators_before run_start start pieces else start)
                   in Some (adjust_pos_out_of_elements A start True))
            })
     }"

fun separators_after :: "nat \<Rightarrow> nat \<Rightarrow> (nat \<times> rstring) list \<Rightarrow> nat" where
  "separators_after run_start stop [] = stop"
| "separators_after run_start stop ((idx, piece) # ps) =
     (if list_all is_word_separator piece
      then separators_after run_start (run_start + idx + utf8_len piece) ps
      else stop)"

definition end_of_next_word_from :: "unicode_ops \<Rightarrow> text_area \<Rightarrow> nat \<Rightarrow> nat option" where
  "end_of_next_word_from u A cursor_pos =
     do {
       suf \<leftarrow> slice_from cursor_pos (ta_text A);
       (case find_char (\<lambda>c. \<not> is_whitespace c) suf of
          None \<Rightarrow> Some (ta_len A)
        | Some (first_non_ws, _) \<Rightarrow>
            do {
              rest \<leftarrow> slice_from first_non_ws suf;
              run \<leftarrow> slice_to (case find_char is_whitespace rest of
                                 None \<Rightarrow> utf8_len rest
                               | Some (i, _) \<Rightarrow> i) rest;
              (case split_word_pieces u run of
                 [] \<Rightarrow> Some (cursor_pos + first_non_ws)
               | (start, piece) # pieces \<Rightarrow>
                   let stop = cursor_pos + first_non_ws + start + utf8_len piece;
                       stop = (if list_all is_word_separator piece
                               then separators_after (cursor_pos + first_non_ws) stop pieces
                               else stop)
                   in Some (adjust_pos_out_of_elements A stop False))
            })
     }"

definition end_of_next_word :: "unicode_ops \<Rightarrow> text_area \<Rightarrow> nat option" where
  "end_of_next_word u A = end_of_next_word_from u A (ta_cursor A)"

definition beginning_of_next_word :: "unicode_ops \<Rightarrow> text_area \<Rightarrow> nat option" where
  "beginning_of_next_word u A =
     do {
       suf \<leftarrow> slice_from (ta_cursor A) (ta_text A);
       (case find_char (\<lambda>c. \<not> is_whitespace c) suf of
          None \<Rightarrow> Some (ta_len A)
        | Some (first_non_ws, _) \<Rightarrow>
            let word_start = ta_cursor A + first_non_ws
            in if word_start \<noteq> ta_cursor A
               then Some (adjust_pos_out_of_elements A word_start True)
               else do {
                 stop \<leftarrow> end_of_next_word u A;
                 if ta_len A \<le> stop then Some (ta_len A)
                 else do {
                   rest \<leftarrow> slice_from stop (ta_text A);
                   Some (case find_char (\<lambda>c. \<not> is_whitespace c) rest of
                           None \<Rightarrow> ta_len A
                         | Some (next_non_ws, _) \<Rightarrow>
                             adjust_pos_out_of_elements A (stop + next_non_ws) True)
                 }
               })
     }"

definition vim_word_end_exclusive :: "unicode_ops \<Rightarrow> text_area \<Rightarrow> nat option" where
  "vim_word_end_exclusive u A =
     do {
       stop \<leftarrow> end_of_next_word u A;
       let target = (if ta_cursor A < stop then prev_atomic_boundary u A stop else stop);
       if target = ta_cursor A \<and> stop < ta_len A then end_of_next_word_from u A stop
       else Some stop
     }"

definition vim_word_end_cursor :: "unicode_ops \<Rightarrow> text_area \<Rightarrow> nat option" where
  "vim_word_end_cursor u A =
     do {
       stop \<leftarrow> vim_word_end_exclusive u A;
       Some (if ta_cursor A < stop then prev_atomic_boundary u A stop else stop)
     }"

definition vim_line_end_cursor :: "unicode_ops \<Rightarrow> text_area \<Rightarrow> nat option" where
  "vim_line_end_cursor u A =
     do {
       bol \<leftarrow> beginning_of_current_line A;
       eol \<leftarrow> end_of_current_line A;
       Some (if bol < eol then max (prev_atomic_boundary u A eol) bol else eol)
     }"

definition vim_normal_end_cursor :: "unicode_ops \<Rightarrow> text_area \<Rightarrow> nat" where
  "vim_normal_end_cursor u A =
     (if ta_text A = [] then 0 else prev_atomic_boundary u A (ta_len A))"

subsection \<open>Killing and yanking\<close>

definition store_kill_buffer :: "rstring \<Rightarrow> kill_buffer_kind \<Rightarrow> text_area \<Rightarrow> text_area" where
  "store_kill_buffer t kind A = A\<lparr>ta_kill_buffer := t, ta_kill_buffer_kind := kind\<rparr>"

definition kill_range_with_kind ::
  "nat \<times> nat \<Rightarrow> kill_buffer_kind \<Rightarrow> text_area \<Rightarrow> text_area option" where
  "kill_range_with_kind r kind A =
     (case expand_range_to_element_boundaries (ta_elements A) r of
        (a, b) \<Rightarrow>
          if b \<le> a then Some A
          else do {
            removed \<leftarrow> str_slice a b (ta_text A);
            if removed = [] then Some A
            else replace_range_raw (a, b) [] (store_kill_buffer removed kind A)
          })"

definition kill_range :: "nat \<times> nat \<Rightarrow> text_area \<Rightarrow> text_area option" where
  "kill_range r A = kill_range_with_kind r Characterwise A"

definition kill_line_range :: "nat \<times> nat \<Rightarrow> text_area \<Rightarrow> text_area option" where
  "kill_line_range r A = kill_range_with_kind r Linewise A"

definition yank_range_with_kind ::
  "nat \<times> nat \<Rightarrow> kill_buffer_kind \<Rightarrow> text_area \<Rightarrow> text_area option" where
  "yank_range_with_kind r kind A =
     (case expand_range_to_element_boundaries (ta_elements A) r of
        (a, b) \<Rightarrow>
          if b \<le> a then Some A
          else do {
            removed \<leftarrow> str_slice a b (ta_text A);
            if removed = [] then Some A else Some (store_kill_buffer removed kind A)
          })"

definition yank_range :: "nat \<times> nat \<Rightarrow> text_area \<Rightarrow> text_area option" where
  "yank_range r A = yank_range_with_kind r Characterwise A"

definition yank_line_range :: "nat \<times> nat \<Rightarrow> text_area \<Rightarrow> text_area option" where
  "yank_line_range r A = yank_range_with_kind r Linewise A"

definition yank :: "text_area \<Rightarrow> text_area option" where
  "yank A = (if ta_kill_buffer A = [] then Some A else insert_str (ta_kill_buffer A) A)"

definition current_line_range_with_newline :: "text_area \<Rightarrow> (nat \<times> nat) option" where
  "current_line_range_with_newline A =
     do {
       bol \<leftarrow> beginning_of_current_line A;
       eol \<leftarrow> end_of_current_line A;
       Some (bol, if eol < ta_len A then eol + 1 else eol)
     }"

definition yank_current_line :: "text_area \<Rightarrow> text_area option" where
  "yank_current_line A = do { r \<leftarrow> current_line_range_with_newline A; yank_line_range r A }"

definition kill_current_line :: "text_area \<Rightarrow> text_area option" where
  "kill_current_line A = do { r \<leftarrow> current_line_range_with_newline A; kill_line_range r A }"

definition paste_line_after_current_line :: "text_area \<Rightarrow> text_area option" where
  "paste_line_after_current_line A =
     do {
       eol \<leftarrow> end_of_current_line A;
       let insert_at = (if eol < ta_len A then eol + 1 else eol);
       let cursor = (if eol < ta_len A then insert_at else insert_at + 1);
       let t = (if eol < ta_len A
                then if ends_with [LF] (ta_kill_buffer A) then ta_kill_buffer A
                     else ta_kill_buffer A @ [LF]
                else LF # trim_end_matches LF (ta_kill_buffer A));
       A1 \<leftarrow> insert_str_at insert_at t A;
       Some (set_cursor (min cursor (ta_len A1)) A1)
     }"

definition paste_after_cursor :: "unicode_ops \<Rightarrow> text_area \<Rightarrow> text_area option" where
  "paste_after_cursor u A =
     (if ta_kill_buffer A = [] then Some A
      else if ta_kill_buffer_kind A = Linewise then paste_line_after_current_line A
      else let A1 = set_cursor (next_atomic_boundary u A (ta_cursor A)) A
           in insert_str (ta_kill_buffer A1) A1)"

subsection \<open>Deleting\<close>

fun boundaries_back :: "unicode_ops \<Rightarrow> text_area \<Rightarrow> nat \<Rightarrow> nat \<Rightarrow> nat" where
  "boundaries_back u A 0 target = target"
| "boundaries_back u A (Suc n) target =
     (let target = prev_atomic_boundary u A target
      in if target = 0 then target else boundaries_back u A n target)"

fun boundaries_forward :: "unicode_ops \<Rightarrow> text_area \<Rightarrow> nat \<Rightarrow> nat \<Rightarrow> nat" where
  "boundaries_forward u A 0 target = target"
| "boundaries_forward u A (Suc n) target =
     (let target = next_atomic_boundary u A target
      in if ta_len A \<le> target then target else boundaries_forward u A n target)"

definition delete_backward :: "unicode_ops \<Rightarrow> nat \<Rightarrow> text_area \<Rightarrow> text_area option" where
  "delete_backward u n A =
     (if n = 0 \<or> ta_cursor A = 0 then Some A
      else replace_range (boundaries_back u A n (ta_cursor A), ta_cursor A) [] A)"

definition delete_forward :: "unicode_ops \<Rightarrow> nat \<Rightarrow> text_area \<Rightarrow> text_area option" where
  "delete_forward u n A =
     (if n = 0 \<or> ta_len A \<le> ta_cursor A then Some A
      else replace_range (ta_cursor A, boundaries_forward u A n (ta_cursor A)) [] A)"

definition delete_forward_kill :: "unicode_ops \<Rightarrow> nat \<Rightarrow> text_area \<Rightarrow> text_area option" where
  "delete_forward_kill u n A =
     (if n = 0 \<or> ta_len A \<le> ta_cursor A then Some A
      else kill_range (ta_cursor A, boundaries_forward u A n (ta_cursor A)) A)"

definition delete_backward_word :: "unicode_ops \<Rightarrow> text_area \<Rightarrow> text_area option" where
  "delete_backward_word u A =
     do { start \<leftarrow> beginning_of_previous_word u A; kill_range (start, ta_cursor A) A }"

definition delete_forward_word :: "unicode_ops \<Rightarrow> text_area \<Rightarrow> text_area option" where
  "delete_forward_word u A =
     do {
       stop \<leftarrow> end_of_next_word u A;
       if ta_cursor A < stop then kill_range (ta_cursor A, stop) A else Some A
     }"

definition kill_to_end_of_line :: "text_area \<Rightarrow> text_area option" where
  "kill_to_end_of_line A =
     do {
       eol \<leftarrow> end_of_current_line A;
       (case (if ta_cursor A = eol
              then if eol < ta_len A then Some (ta_cursor A, eol + 1) else None
              else Some (ta_cursor A, eol)) of
          Some r \<Rightarrow> kill_range r A
        | None \<Rightarrow> Some A)
     }"

definition vim_kill_to_end_of_line :: "text_area \<Rightarrow> text_area option" where
  "vim_kill_to_end_of_line A =
     do {
       eol \<leftarrow> end_of_current_line A;
       if ta_cursor A < eol then kill_range (ta_cursor A, eol) A else Some A
     }"

definition kill_to_beginning_of_line :: "text_area \<Rightarrow> text_area option" where
  "kill_to_beginning_of_line A =
     do {
       bol \<leftarrow> beginning_of_current_line A;
       (case (if ta_cursor A = bol
              then if 0 < bol then Some (bol - 1, bol) else None
              else Some (bol, ta_cursor A)) of
          Some r \<Rightarrow> kill_range r A
        | None \<Rightarrow> Some A)
     }"

subsection \<open>Elements\<close>

definition element_text :: "rstring \<Rightarrow> text_element \<Rightarrow> rstring option" where
  "element_text s e = str_slice (el_start e) (el_end e) s"

definition element_payloads :: "text_area \<Rightarrow> rstring list" where
  "element_payloads A = List.map_filter (element_text (ta_text A)) (ta_elements A)"

definition text_elements :: "text_area \<Rightarrow> ((nat \<times> nat) \<times> rstring option) list" where
  "text_elements A =
     map (\<lambda>e. ((el_start e, el_end e), element_text (ta_text A) e)) (ta_elements A)"

definition text_element_snapshots :: "text_area \<Rightarrow> text_element_snapshot list" where
  "text_element_snapshots A =
     List.map_filter
       (\<lambda>e. map_option (\<lambda>t. \<lparr>sn_id = el_id e, sn_range = (el_start e, el_end e), sn_text = t\<rparr>)
              (element_text (ta_text A) e))
       (ta_elements A)"

definition text_element_ranges_overlapping :: "nat \<times> nat \<Rightarrow> text_area \<Rightarrow> (nat \<times> nat) list" where
  "text_element_ranges_overlapping r A =
     map (\<lambda>e. (el_start e, el_end e))
       (takeWhile (\<lambda>e. el_start e < snd r) (dropWhile (\<lambda>e. el_end e \<le> fst r) (ta_elements A)))"

definition element_id_for_exact_range :: "nat \<times> nat \<Rightarrow> text_area \<Rightarrow> nat option" where
  "element_id_for_exact_range r A =
     map_option el_id (List.find (\<lambda>e. (el_start e, el_end e) = r) (ta_elements A))"

definition next_element_id :: "text_area \<Rightarrow> nat \<times> text_area" where
  "next_element_id A =
     (ta_next_element_id A, A\<lparr>ta_next_element_id := saturating_add (ta_next_element_id A) 1\<rparr>)"

definition add_element :: "nat \<times> nat \<Rightarrow> text_area \<Rightarrow> nat \<times> text_area" where
  "add_element r A =
     (case next_element_id A of
        (i, A1) \<Rightarrow>
          (i, A1\<lparr>ta_elements :=
                  sort_key el_start
                    (ta_elements A1 @ [\<lparr>el_id = i, el_start = fst r, el_end = snd r\<rparr>])\<rparr>))"

definition insert_element :: "rstring \<Rightarrow> text_area \<Rightarrow> (nat \<times> text_area) option" where
  "insert_element t A =
     (let start = clamp_pos_for_insertion A (ta_cursor A)
      in do {
        A1 \<leftarrow> insert_str_at start t A;
        let stop = start + utf8_len t;
        (case add_element (start, stop) A1 of
           (i, A2) \<Rightarrow> Some (i, set_cursor stop A2))
      })"

definition add_element_range :: "nat \<times> nat \<Rightarrow> text_area \<Rightarrow> nat option \<times> text_area" where
  "add_element_range r A =
     (let start = clamp_pos_to_char_boundary (ta_text A) (min (fst r) (ta_len A));
          stop = clamp_pos_to_char_boundary (ta_text A) (min (snd r) (ta_len A))
      in if stop \<le> start then (None, A)
         else if list_ex (\<lambda>e. el_start e = start \<and> el_end e = stop) (ta_elements A) then (None, A)
         else if list_ex (\<lambda>e. start < el_end e \<and> el_start e < stop) (ta_elements A) then (None, A)
         else case add_element (start, stop) A of (i, A1) \<Rightarrow> (Some i, A1))"

definition remove_element_range :: "nat \<times> nat \<Rightarrow> text_area \<Rightarrow> bool \<times> text_area" where
  "remove_element_range r A =
     (let start = clamp_pos_to_char_boundary (ta_text A) (min (fst r) (ta_len A));
          stop = clamp_pos_to_char_boundary (ta_text A) (min (snd r) (ta_len A))
      in if stop \<le> start then (False, A)
         else let es = filter (\<lambda>e. el_start e \<noteq> start \<or> el_end e \<noteq> stop) (ta_elements A)
              in (length (ta_elements A) \<noteq> length es, A\<lparr>ta_elements := es\<rparr>))"

text \<open>
  Renaming an element: \<open>start\<close>, \<open>removed\<close> and \<open>inserted\<close> describe the edit, and the other elements
  move when the length changes.
\<close>

definition renamed_shift :: "nat \<Rightarrow> nat \<Rightarrow> nat \<Rightarrow> text_element \<Rightarrow> text_element" where
  "renamed_shift start removed inserted e =
     (if inserted = removed \<or> el_end e \<le> start then e
      else if start + removed \<le> el_start e
      then e\<lparr>el_start := el_start e + inserted - removed, el_end := el_end e + inserted - removed\<rparr>
      else e\<lparr>el_start := min start (el_start e),
             el_end := max (start + inserted) (el_end e + inserted - removed)\<rparr>)"

definition replace_element_payload ::
  "rstring \<Rightarrow> rstring \<Rightarrow> text_area \<Rightarrow> (bool \<times> text_area) option" where
  "replace_element_payload old t A =
     (case List.extract (\<lambda>e. element_text (ta_text A) e = Some old) (ta_elements A) of
        None \<Rightarrow> Some (False, A)
      | Some (before, e, after) \<Rightarrow>
          let start = el_start e; stop = el_end e
          in if stop < start \<or> ta_len A < stop then Some (False, A)
             else
               let removed = stop - start; inserted = utf8_len t
               in do {
                 s \<leftarrow> replace_bytes start stop t (ta_text A);
                 let es = map (renamed_shift start removed inserted) before @
                          [e\<lparr>el_start := start, el_end := start + inserted\<rparr>] @
                          map (renamed_shift start removed inserted) after;
                 let c = (if ta_cursor A < start then ta_cursor A
                          else if ta_cursor A \<le> stop then start + inserted
                          else ta_cursor A + inserted - removed);
                 let A1 = A\<lparr>ta_text := s, ta_cursor := c, ta_wrap_cache := None,
                            ta_preferred_col := None, ta_elements := es\<rparr>;
                 Some (True, A1\<lparr>ta_cursor := clamp_pos_to_nearest_boundary A1 c,
                                ta_elements := sort_key el_start es\<rparr>)
               })"

end
