(* ===== verification/Text_Area_Keys.thy ===== *)
theory Text_Area_Keys
  imports Text_Area
begin

section \<open>Moving, wrapping and keys of the text area\<close>

text \<open>
  The rest of \<^verbatim>\<open>tui/src/bottom_pane/textarea.rs\<close> and its Vim text objects in \<^verbatim>\<open>textarea/vim.rs\<close>:
  wrapped lines and scrolling, vertical movement over them, and the handlers that turn a key
  event into edits, in the editor keymap and in Vim's modes.
\<close>

subsection \<open>Wrapped lines\<close>

text \<open>
  One line of \<^verbatim>\<open>wrap_ranges\<close> is cut again where its graphemes exceed the width; the arguments are
  the start of the row being filled and its width so far.
\<close>

fun refine_line ::
  "unicode_ops \<Rightarrow> nat \<Rightarrow> nat \<Rightarrow> nat \<Rightarrow> nat \<Rightarrow> (nat \<times> rstring) list \<Rightarrow> (nat \<times> nat) list \<times> nat \<times> nat"
where
  "refine_line u width base line_start line_width [] = ([], line_start, line_width)"
| "refine_line u width base line_start line_width ((offset, g) # gs) =
     (let w = display_width u g
      in if 0 < line_width \<and> width < line_width + w
         then case refine_line u width base (base + offset) w gs of
                (rows, st, lw) \<Rightarrow> ((line_start, base + offset + 1) # rows, st, lw)
         else refine_line u width base line_start (line_width + w) gs)"

definition line_ends_at :: "rstring \<Rightarrow> nat \<Rightarrow> bool" where
  "line_ends_at s pos =
     (case slice_from pos s of None \<Rightarrow> utf8_len s \<le> pos | Some [] \<Rightarrow> True | Some (c # _) \<Rightarrow> c = LF)"

definition refine_wrapped_line ::
  "unicode_ops \<Rightarrow> nat \<Rightarrow> rstring \<Rightarrow> nat \<times> nat \<Rightarrow> (nat \<times> nat) list option" where
  "refine_wrapped_line u width display_text r =
     (let line_end = snd r - 1
      in do {
        l \<leftarrow> str_slice (fst r) line_end display_text;
        (case refine_line u width (fst r) (fst r) 0 (grapheme_indices u l) of
           (rows, line_start, line_width) \<Rightarrow>
             Some (rows @ [(line_start, line_end + 1)] @
                   (if width \<le> line_width \<and> line_ends_at display_text line_end
                    then [(line_end, line_end + 1)] else [])))
      })"

fun refine_wrapped_lines ::
  "unicode_ops \<Rightarrow> nat \<Rightarrow> rstring \<Rightarrow> (nat \<times> nat) list \<Rightarrow> (nat \<times> nat) list option" where
  "refine_wrapped_lines u width display_text [] = Some []"
| "refine_wrapped_lines u width display_text (r # rs) =
     do {
       xs \<leftarrow> refine_wrapped_line u width display_text r;
       ys \<leftarrow> refine_wrapped_lines u width display_text rs;
       Some (xs @ ys)
     }"

definition wrapped_lines ::
  "unicode_ops \<Rightarrow> nat \<Rightarrow> text_area \<Rightarrow> ((nat \<times> nat) list \<times> text_area) option" where
  "wrapped_lines u width A =
     (case (case ta_wrap_cache A of
              Some c \<Rightarrow> if wc_width c \<noteq> width then None else Some (wc_lines c)
            | None \<Rightarrow> None) of
        Some ls \<Rightarrow> Some (ls, A)
      | None \<Rightarrow>
          let display_text = text_for_display (ta_text A);
              wrapped = wrap_ranges u width display_text
          in do {
            ls \<leftarrow> (if 0 < width then refine_wrapped_lines u width display_text wrapped
                  else Some wrapped);
            Some (ls, A\<lparr>ta_wrap_cache := Some \<lparr>wc_width = width, wc_lines = ls\<rparr>\<rparr>)
          })"

definition desired_height :: "unicode_ops \<Rightarrow> 16 word \<Rightarrow> text_area \<Rightarrow> (16 word \<times> text_area) option" where
  "desired_height u width A =
     do { (ls, A1) \<leftarrow> wrapped_lines u (unat width) A; Some (of_nat (length ls), A1) }"

definition wrapped_line_index_by_start :: "(nat \<times> nat) list \<Rightarrow> nat \<Rightarrow> nat option" where
  "wrapped_line_index_by_start ls pos =
     (let idx = length (takeWhile (\<lambda>r. fst r \<le> pos) ls)
      in if idx = 0 then None else Some (idx - 1))"

definition effective_scroll ::
  "16 word \<Rightarrow> (nat \<times> nat) list \<Rightarrow> 16 word \<Rightarrow> text_area \<Rightarrow> 16 word" where
  "effective_scroll area_height ls current_scroll A =
     (let total_lines = of_nat (length ls) :: 16 word
      in if total_lines \<le> area_height then 0
         else
           let idx = of_nat (case wrapped_line_index_by_start ls (ta_cursor A) of
                               None \<Rightarrow> 0 | Some i \<Rightarrow> i) :: 16 word;
               scroll = min current_scroll (total_lines - area_height)
           in if idx < scroll then idx
              else if scroll + area_height \<le> idx then idx + 1 - area_height
              else scroll)"

record rect =
  rect_x :: "16 word"
  rect_y :: "16 word"
  rect_width :: "16 word"
  rect_height :: "16 word"

definition cursor_pos_with_state ::
  "unicode_ops \<Rightarrow> rect \<Rightarrow> 16 word \<Rightarrow> text_area \<Rightarrow> ((16 word \<times> 16 word) option \<times> text_area) option" where
  "cursor_pos_with_state u area scroll A =
     (if rect_width area = 0 \<or> rect_height area = 0 then Some (None, A)
      else do {
        (ls, A1) \<leftarrow> wrapped_lines u (unat (rect_width area)) A;
        let eff = effective_scroll (rect_height area) ls scroll A1;
        (case wrapped_line_index_by_start ls (ta_cursor A1) of
           None \<Rightarrow> Some (None, A1)
         | Some i \<Rightarrow> do {
             l \<leftarrow> str_slice (fst (ls ! i)) (ta_cursor A1) (ta_text A1);
             let col = (of_nat (min (display_width u l) (unat (rect_width area) - 1)) :: 16 word);
             let row = (if i - unat eff < 2 ^ 16 then of_nat (i - unat eff) else 0 :: 16 word);
             Some (Some (rect_x area + col, rect_y area + row), A1)
           })
      })"

subsection \<open>Drawing\<close>

text \<open>
  Drawing writes to a terminal buffer; the model gives the writes in order: where a text goes, how
  many cells it may take and in which style.
\<close>

datatype draw_style = Base_Style | Element_Style | Highlight_Style nat

datatype draw =
  Set_Style "16 word" "16 word" "16 word"
| Set_Stringn "16 word" "16 word" rstring nat draw_style

fun all_draws :: "draw list option list \<Rightarrow> draw list option" where
  "all_draws [] = Some []"
| "all_draws (x # xs) = do { ds \<leftarrow> x; es \<leftarrow> all_draws xs; Some (ds @ es) }"

definition draw_overlay ::
  "unicode_ops \<Rightarrow> text_area \<Rightarrow> rect \<Rightarrow> 16 word \<Rightarrow> nat \<times> nat \<Rightarrow> (nat \<times> nat) \<times> draw_style \<Rightarrow> draw list option"
where
  "draw_overlay u A area y line_range r =
     (case r of ((a, b), style) \<Rightarrow>
        let overlap_start = max a (fst line_range);
            overlap_end = min b (snd line_range)
        in if overlap_end \<le> overlap_start then Some []
           else do {
             styled \<leftarrow> str_slice overlap_start overlap_end (ta_text A);
             before \<leftarrow> str_slice (fst line_range) overlap_start (ta_text A);
             let x_off = (of_nat (display_width u before) :: 16 word);
             Some [Set_Stringn (rect_x area + x_off) y (text_for_display styled)
                     (unat (rect_width area) - unat x_off) style]
           })"

definition draw_row ::
  "unicode_ops \<Rightarrow> text_area \<Rightarrow> rect \<Rightarrow> ((nat \<times> nat) \<times> nat) list \<Rightarrow> nat \<Rightarrow> nat \<times> nat \<Rightarrow> draw list option"
where
  "draw_row u A area highlights row r =
     (let y = rect_y area + of_nat row;
          line_range = (fst r, snd r - 1)
      in do {
        l \<leftarrow> str_slice (fst line_range) (snd line_range) (ta_text A);
        ds \<leftarrow> all_draws
          (map (\<lambda>e. draw_overlay u A area y line_range ((el_start e, el_end e), Element_Style))
             (ta_elements A) @
           map (\<lambda>(h, k). draw_overlay u A area y line_range (h, Highlight_Style k)) highlights);
        Some (Set_Style (rect_x area) y (rect_width area) #
              Set_Stringn (rect_x area) y (text_for_display l) (unat (rect_width area)) Base_Style #
              ds)
      })"

definition render_lines ::
  "unicode_ops \<Rightarrow> text_area \<Rightarrow> rect \<Rightarrow> (nat \<times> nat) list \<Rightarrow> nat \<times> nat \<Rightarrow> ((nat \<times> nat) \<times> nat) list \<Rightarrow>
    draw list option" where
  "render_lines u A area ls rows highlights =
     all_draws (map (\<lambda>(row, idx). draw_row u A area highlights row (ls ! idx))
       (List.enumerate 0 [fst rows..<snd rows]))"

definition draw_masked_row ::
  "unicode_ops \<Rightarrow> text_area \<Rightarrow> rect \<Rightarrow> rchar \<Rightarrow> nat \<Rightarrow> nat \<times> nat \<Rightarrow> draw list option" where
  "draw_masked_row u A area mask_char row r =
     do {
       l \<leftarrow> str_slice (fst r) (snd r - 1) (ta_text A);
       let masked = concat (map (\<lambda>(_, g). replicate (display_width u g) mask_char)
                              (grapheme_indices u l));
       Some [Set_Stringn (rect_x area) (rect_y area + of_nat row) masked
               (unat (rect_width area)) Base_Style]
     }"

definition render_lines_masked ::
  "unicode_ops \<Rightarrow> text_area \<Rightarrow> rect \<Rightarrow> (nat \<times> nat) list \<Rightarrow> nat \<times> nat \<Rightarrow> rchar \<Rightarrow> draw list option" where
  "render_lines_masked u A area ls rows mask_char =
     all_draws (map (\<lambda>(row, idx). draw_masked_row u A area mask_char row (ls ! idx))
       (List.enumerate 0 [fst rows..<snd rows]))"

definition visible_range :: "rect \<Rightarrow> (nat \<times> nat) list \<Rightarrow> 16 word \<Rightarrow> nat \<times> nat" where
  "visible_range area ls scroll =
     (unat scroll, unat (min (scroll + rect_height area) (of_nat (length ls))))"

definition render_ref_styled_with_highlights ::
  "unicode_ops \<Rightarrow> rect \<Rightarrow> 16 word \<Rightarrow> ((nat \<times> nat) \<times> nat) list \<Rightarrow> text_area \<Rightarrow>
    (16 word \<times> draw list \<times> text_area) option" where
  "render_ref_styled_with_highlights u area state_scroll highlights A =
     do {
       (ls, A1) \<leftarrow> wrapped_lines u (unat (rect_width area)) A;
       let scroll = effective_scroll (rect_height area) ls state_scroll A1;
       ds \<leftarrow> render_lines u A1 area ls (visible_range area ls scroll) highlights;
       Some (scroll, ds, A1)
     }"

definition render_ref ::
  "unicode_ops \<Rightarrow> rect \<Rightarrow> 16 word \<Rightarrow> text_area \<Rightarrow> (16 word \<times> draw list \<times> text_area) option" where
  "render_ref u area state_scroll A = render_ref_styled_with_highlights u area state_scroll [] A"

definition render_ref_masked ::
  "unicode_ops \<Rightarrow> rect \<Rightarrow> 16 word \<Rightarrow> rchar \<Rightarrow> text_area \<Rightarrow>
    (16 word \<times> draw list \<times> text_area) option" where
  "render_ref_masked u area state_scroll mask_char A =
     do {
       (ls, A1) \<leftarrow> wrapped_lines u (unat (rect_width area)) A;
       let scroll = effective_scroll (rect_height area) ls state_scroll A1;
       ds \<leftarrow> render_lines_masked u A1 area ls (visible_range area ls scroll) mask_char;
       Some (scroll, ds, A1)
     }"

subsection \<open>Moving the cursor\<close>

fun display_col_pos ::
  "unicode_ops \<Rightarrow> nat \<Rightarrow> nat \<Rightarrow> nat \<Rightarrow> nat \<Rightarrow> (nat \<times> rstring) list \<Rightarrow> nat" where
  "display_col_pos u line_start line_end target_col width_so_far [] = line_end"
| "display_col_pos u line_start line_end target_col width_so_far ((i, g) # gs) =
     (let w = width_so_far + display_width u g
      in if target_col < w then line_start + i
         else display_col_pos u line_start line_end target_col w gs)"

definition move_to_display_col_on_line ::
  "unicode_ops \<Rightarrow> nat \<Rightarrow> nat \<Rightarrow> nat \<Rightarrow> text_area \<Rightarrow> text_area option" where
  "move_to_display_col_on_line u line_start line_end target_col A =
     do {
       l \<leftarrow> str_slice line_start line_end (ta_text A);
       let pos = display_col_pos u line_start line_end target_col 0 (grapheme_indices u l);
       Some (A\<lparr>ta_cursor := clamp_pos_to_nearest_boundary A pos\<rparr>)
     }"

definition move_cursor_left :: "unicode_ops \<Rightarrow> text_area \<Rightarrow> text_area" where
  "move_cursor_left u A =
     A\<lparr>ta_cursor := prev_atomic_boundary u A (ta_cursor A), ta_preferred_col := None\<rparr>"

definition move_cursor_right :: "unicode_ops \<Rightarrow> text_area \<Rightarrow> text_area" where
  "move_cursor_right u A =
     A\<lparr>ta_cursor := next_atomic_boundary u A (ta_cursor A), ta_preferred_col := None\<rparr>"

text \<open>
  Both vertical movements first look for the wrapped line of the cursor. The lookup gives the
  target column and the line to move to, if there is one.
\<close>

definition cached_line :: "text_area \<Rightarrow> ((nat \<times> nat) list \<times> nat) option" where
  "cached_line A =
     (case ta_wrap_cache A of
        None \<Rightarrow> None
      | Some c \<Rightarrow>
          (case wrapped_line_index_by_start (wc_lines c) (ta_cursor A) of
             None \<Rightarrow> None
           | Some idx \<Rightarrow> Some (wc_lines c, idx)))"

definition target_col_on_line ::
  "unicode_ops \<Rightarrow> nat \<Rightarrow> text_area \<Rightarrow> nat option" where
  "target_col_on_line u start A =
     (case ta_preferred_col A of
        Some c \<Rightarrow> Some c
      | None \<Rightarrow> do { l \<leftarrow> str_slice start (ta_cursor A) (ta_text A); Some (display_width u l) })"

definition line_above :: "unicode_ops \<Rightarrow> (nat \<times> nat) list \<Rightarrow> nat \<Rightarrow> text_area \<Rightarrow> (nat \<times> nat) option" where
  "line_above u ls idx A =
     (if 0 < idx
      then let line_start = fst (ls ! (idx - 1));
               line_end = snd (ls ! (idx - 1)) - 1
           in Some (line_start,
                if line_end = fst (ls ! idx)
                then max (prev_atomic_boundary u A line_end) line_start else line_end)
      else None)"

definition line_below :: "unicode_ops \<Rightarrow> (nat \<times> nat) list \<Rightarrow> nat \<Rightarrow> text_area \<Rightarrow> (nat \<times> nat) option" where
  "line_below u ls idx A =
     (if idx + 1 < length ls
      then let line_start = fst (ls ! (idx + 1));
               line_end = snd (ls ! (idx + 1)) - 1
           in Some (line_start,
                if idx + 2 < length ls \<and> fst (ls ! (idx + 2)) = line_end
                then max (prev_atomic_boundary u A line_end) line_start else line_end)
      else None)"

definition move_to_cached_line ::
  "unicode_ops \<Rightarrow> nat \<Rightarrow> nat \<times> nat \<Rightarrow> text_area \<Rightarrow> text_area option" where
  "move_to_cached_line u target_col l A =
     move_to_display_col_on_line u (fst l) (snd l) target_col
       (A\<lparr>ta_preferred_col :=
           (if ta_preferred_col A = None then Some target_col else ta_preferred_col A)\<rparr>)"

definition preferred_or_current_col :: "unicode_ops \<Rightarrow> text_area \<Rightarrow> nat option" where
  "preferred_or_current_col u A =
     (case ta_preferred_col A of Some c \<Rightarrow> Some c | None \<Rightarrow> current_display_col u A)"

definition move_cursor_up :: "unicode_ops \<Rightarrow> text_area \<Rightarrow> text_area option" where
  "move_cursor_up u A =
     (case cached_line A of
        Some (ls, idx) \<Rightarrow> do {
          col \<leftarrow> target_col_on_line u (fst (ls ! idx)) A;
          (case line_above u ls idx A of
             Some l \<Rightarrow> move_to_cached_line u col l A
           | None \<Rightarrow> Some (A\<lparr>ta_cursor := 0, ta_preferred_col := None\<rparr>))
        }
      | None \<Rightarrow> do {
          pre \<leftarrow> slice_to (ta_cursor A) (ta_text A);
          (case rfind_char (\<lambda>c. c = LF) pre of
             Some (prev_nl, _) \<Rightarrow> do {
               col \<leftarrow> preferred_or_current_col u A;
               prev_line_start \<leftarrow> beginning_of_line prev_nl A;
               move_to_display_col_on_line u prev_line_start prev_nl col
                 (A\<lparr>ta_preferred_col := Some col\<rparr>)
             }
           | None \<Rightarrow> Some (A\<lparr>ta_cursor := 0, ta_preferred_col := None\<rparr>))
        })"

definition move_cursor_down :: "unicode_ops \<Rightarrow> text_area \<Rightarrow> text_area option" where
  "move_cursor_down u A =
     (case cached_line A of
        Some (ls, idx) \<Rightarrow> do {
          col \<leftarrow> target_col_on_line u (fst (ls ! idx)) A;
          (case line_below u ls idx A of
             Some l \<Rightarrow> move_to_cached_line u col l A
           | None \<Rightarrow> Some (A\<lparr>ta_cursor := ta_len A, ta_preferred_col := None\<rparr>))
        }
      | None \<Rightarrow> do {
          col \<leftarrow> preferred_or_current_col u A;
          suf \<leftarrow> slice_from (ta_cursor A) (ta_text A);
          (case find_char (\<lambda>c. c = LF) suf of
             Some (i, _) \<Rightarrow> do {
               let next_line_start = i + ta_cursor A + 1;
               next_line_end \<leftarrow> end_of_line next_line_start A;
               move_to_display_col_on_line u next_line_start next_line_end col
                 (A\<lparr>ta_preferred_col := Some col\<rparr>)
             }
           | None \<Rightarrow> Some (A\<lparr>ta_cursor := ta_len A, ta_preferred_col := None\<rparr>))
        })"

definition move_cursor_to_beginning_of_line :: "bool \<Rightarrow> text_area \<Rightarrow> text_area option" where
  "move_cursor_to_beginning_of_line move_up_at_bol A =
     do {
       bol \<leftarrow> beginning_of_current_line A;
       pos \<leftarrow> (if move_up_at_bol \<and> ta_cursor A = bol then beginning_of_line (ta_cursor A - 1) A
              else Some bol);
       Some ((set_cursor pos A)\<lparr>ta_preferred_col := None\<rparr>)
     }"

definition move_cursor_to_end_of_line :: "bool \<Rightarrow> text_area \<Rightarrow> text_area option" where
  "move_cursor_to_end_of_line move_down_at_eol A =
     do {
       eol \<leftarrow> end_of_current_line A;
       if move_down_at_eol \<and> ta_cursor A = eol
       then do {
         pos \<leftarrow> end_of_line (min (ta_cursor A + 1) (ta_len A)) A;
         Some (set_cursor pos A)
       }
       else Some (set_cursor eol A)
     }"

subsection \<open>Vim text objects\<close>

datatype vim_motion =
  MotionLeft | MotionRight | MotionUp | MotionDown | MotionWordForward | MotionWordBackward
| MotionWordEnd | MotionLineStart | MotionLineEnd

datatype vim_text_object =
  ObjWord | ObjBigWord | ObjParentheses | ObjBrackets | ObjBraces | ObjDoubleQuote | ObjSingleQuote
| ObjBacktick

definition vim_text_object_scope_for_event ::
  "text_area \<Rightarrow> key_event \<Rightarrow> vim_text_object_scope option" where
  "vim_text_object_scope_for_event A e =
     (let km = km_vim_operator (ta_keymaps A)
      in if is_pressed (select_inner_text_object km) e then Some ScopeInner
         else if is_pressed (select_around_text_object km) e then Some ScopeAround
         else None)"

definition vim_text_object_for_event :: "text_area \<Rightarrow> key_event \<Rightarrow> vim_text_object option" where
  "vim_text_object_for_event A e =
     (let km = km_vim_text_object (ta_keymaps A)
      in if is_pressed (obj_word km) e then Some ObjWord
         else if is_pressed (obj_big_word km) e then Some ObjBigWord
         else if is_pressed (obj_parentheses km) e then Some ObjParentheses
         else if is_pressed (obj_brackets km) e then Some ObjBrackets
         else if is_pressed (obj_braces km) e then Some ObjBraces
         else if is_pressed (obj_double_quote km) e then Some ObjDoubleQuote
         else if is_pressed (obj_single_quote km) e then Some ObjSingleQuote
         else if is_pressed (obj_backtick km) e then Some ObjBacktick
         else None)"

definition cursor_overlaps_range :: "text_area \<Rightarrow> nat \<times> nat \<Rightarrow> bool" where
  "cursor_overlaps_range A r = (fst r \<le> ta_cursor A \<and> ta_cursor A < snd r)"

definition cursor_is_at_range_end :: "text_area \<Rightarrow> nat \<times> nat \<Rightarrow> bool" where
  "cursor_is_at_range_end A r = (fst r < snd r \<and> ta_cursor A = snd r)"

text \<open>The loop over \<^verbatim>\<open>char_indices\<close>: the run being read, if any, and the length of the text.\<close>

fun runs_loop :: "nat \<Rightarrow> nat option \<Rightarrow> (nat \<times> rchar) list \<Rightarrow> (nat \<times> nat) list" where
  "runs_loop len start [] = (case start of None \<Rightarrow> [] | Some s \<Rightarrow> [(s, len)])"
| "runs_loop len start ((idx, ch) # cs) =
     (if is_whitespace ch
      then (case start of
              Some s \<Rightarrow> (s, idx) # runs_loop len None cs
            | None \<Rightarrow> runs_loop len None cs)
      else runs_loop len (case start of None \<Rightarrow> Some idx | Some s \<Rightarrow> Some s) cs)"

definition non_ws_runs :: "text_area \<Rightarrow> (nat \<times> nat) list" where
  "non_ws_runs A = runs_loop (ta_len A) None (char_indices 0 (ta_text A))"

definition cursor_on_run :: "text_area \<Rightarrow> nat \<times> nat \<Rightarrow> bool" where
  "cursor_on_run A r = (cursor_overlaps_range A r \<or> cursor_is_at_range_end A r)"

definition big_word_range_at_cursor :: "text_area \<Rightarrow> (nat \<times> nat) option" where
  "big_word_range_at_cursor A = List.find (cursor_on_run A) (non_ws_runs A)"

fun small_word_piece ::
  "text_area \<Rightarrow> nat \<times> nat \<Rightarrow> (nat \<times> nat) option \<Rightarrow> (nat \<times> rstring) list \<Rightarrow> nat \<times> nat" where
  "small_word_piece A run last_piece [] =
     (if cursor_is_at_range_end A run
      then (case last_piece of Some p \<Rightarrow> p | None \<Rightarrow> run)
      else run)"
| "small_word_piece A run last_piece ((piece_start, piece) # ps) =
     (let r = (fst run + piece_start, fst run + piece_start + utf8_len piece)
      in if cursor_overlaps_range A r then r else small_word_piece A run (Some r) ps)"

definition small_word_range_at_cursor :: "unicode_ops \<Rightarrow> text_area \<Rightarrow> (nat \<times> nat) option option" where
  "small_word_range_at_cursor u A =
     (case List.find (cursor_on_run A) (non_ws_runs A) of
        None \<Rightarrow> Some None
      | Some run \<Rightarrow> do {
          t \<leftarrow> str_slice (fst run) (snd run) (ta_text A);
          Some (Some (small_word_piece A run None (split_word_pieces u t)))
        })"

definition following_whitespace_end :: "text_area \<Rightarrow> nat \<Rightarrow> nat option" where
  "following_whitespace_end A start =
     do { t \<leftarrow> slice_from start (ta_text A); Some (start + utf8_len (takeWhile is_whitespace t)) }"

definition preceding_whitespace_start :: "text_area \<Rightarrow> nat \<Rightarrow> nat option" where
  "preceding_whitespace_start A stop =
     do { t \<leftarrow> slice_to stop (ta_text A); Some (utf8_len (trim_end t)) }"

definition expand_word_around :: "text_area \<Rightarrow> nat \<times> nat \<Rightarrow> (nat \<times> nat) option" where
  "expand_word_around A inner =
     do {
       following \<leftarrow> following_whitespace_end A (snd inner);
       if snd inner < following then Some (fst inner, following)
       else do { start \<leftarrow> preceding_whitespace_start A (fst inner); Some (start, snd inner) }
     }"

definition word_text_object_range ::
  "unicode_ops \<Rightarrow> text_area \<Rightarrow> vim_text_object_scope \<Rightarrow> bool \<Rightarrow> (nat \<times> nat) option option" where
  "word_text_object_range u A scope big_word =
     do {
       inner \<leftarrow> (if big_word then Some (big_word_range_at_cursor A)
                else small_word_range_at_cursor u A);
       (case inner of
          None \<Rightarrow> Some None
        | Some r \<Rightarrow>
            (case scope of
               ScopeInner \<Rightarrow> Some (Some r)
             | ScopeAround \<Rightarrow> map_option Some (expand_word_around A r)))
     }"

definition is_inside_element :: "text_area \<Rightarrow> nat \<Rightarrow> bool" where
  "is_inside_element A pos = list_ex (\<lambda>e. el_start e \<le> pos \<and> pos < el_end e) (ta_elements A)"

definition is_escaped :: "text_area \<Rightarrow> nat \<Rightarrow> bool option" where
  "is_escaped A pos =
     do { t \<leftarrow> slice_to pos (ta_text A); Some (length (takeWhile (\<lambda>c. c = 92) (rev t)) mod 2 = 1) }"

definition range_len :: "nat \<times> nat \<Rightarrow> nat" where
  "range_len r = snd r - fst r"

text \<open>The smaller of the best range so far and a new candidate that holds the cursor.\<close>

definition better_candidate ::
  "text_area \<Rightarrow> vim_text_object_scope \<Rightarrow> nat \<Rightarrow> nat \<Rightarrow> nat \<Rightarrow> nat \<Rightarrow> (nat \<times> nat) option \<Rightarrow>
    (nat \<times> nat) option" where
  "better_candidate A scope open_idx open_len idx close_len best =
     (if open_idx \<le> ta_cursor A \<and> ta_cursor A \<le> idx
      then let cand = (case scope of
                         ScopeInner \<Rightarrow> (open_idx + open_len, idx)
                       | ScopeAround \<Rightarrow> (open_idx, idx + close_len))
           in if fst cand \<le> snd cand \<and>
                 (case best of None \<Rightarrow> True | Some r \<Rightarrow> range_len cand < range_len r)
              then Some cand else best
      else best)"

fun paired_loop ::
  "text_area \<Rightarrow> vim_text_object_scope \<Rightarrow> rchar \<Rightarrow> rchar \<Rightarrow> nat list \<Rightarrow> (nat \<times> nat) option \<Rightarrow>
    (nat \<times> rchar) list \<Rightarrow> (nat \<times> nat) option" where
  "paired_loop A scope op cl stack best [] = best"
| "paired_loop A scope op cl stack best ((idx, ch) # cs) =
     (if is_inside_element A idx then paired_loop A scope op cl stack best cs
      else if ch = op then paired_loop A scope op cl (idx # stack) best cs
      else if ch = cl
      then (case stack of
              [] \<Rightarrow> paired_loop A scope op cl [] best cs
            | open_idx # stack' \<Rightarrow>
                paired_loop A scope op cl stack'
                  (better_candidate A scope open_idx (char_len_utf8 op) idx (char_len_utf8 ch) best) cs)
      else paired_loop A scope op cl stack best cs)"

definition paired_text_object_range ::
  "text_area \<Rightarrow> vim_text_object_scope \<Rightarrow> rchar \<Rightarrow> rchar \<Rightarrow> (nat \<times> nat) option" where
  "paired_text_object_range A scope op cl =
     paired_loop A scope op cl [] None (char_indices 0 (ta_text A))"

fun quoted_loop ::
  "text_area \<Rightarrow> vim_text_object_scope \<Rightarrow> rchar \<Rightarrow> nat option \<Rightarrow> (nat \<times> nat) option \<Rightarrow>
    (nat \<times> rchar) list \<Rightarrow> (nat \<times> nat) option option" where
  "quoted_loop A scope quote op best [] = Some best"
| "quoted_loop A scope quote op best ((idx, ch) # cs) =
     (if is_inside_element A idx \<or> ch \<noteq> quote then quoted_loop A scope quote op best cs
      else do {
        escaped \<leftarrow> is_escaped A idx;
        if escaped then quoted_loop A scope quote op best cs
        else (case op of
                Some open_idx \<Rightarrow>
                  quoted_loop A scope quote None
                    (better_candidate A scope open_idx (char_len_utf8 quote) idx
                      (char_len_utf8 quote) best) cs
              | None \<Rightarrow> quoted_loop A scope quote (Some idx) best cs)
      })"

definition quoted_text_object_range ::
  "text_area \<Rightarrow> vim_text_object_scope \<Rightarrow> rchar \<Rightarrow> (nat \<times> nat) option option" where
  "quoted_text_object_range A scope quote =
     do {
       bol \<leftarrow> beginning_of_current_line A;
       eol \<leftarrow> end_of_current_line A;
       l \<leftarrow> str_slice bol eol (ta_text A);
       quoted_loop A scope quote None None (char_indices bol l)
     }"

definition text_object_range ::
  "unicode_ops \<Rightarrow> text_area \<Rightarrow> vim_text_object \<Rightarrow> vim_text_object_scope \<Rightarrow> (nat \<times> nat) option option"
where
  "text_object_range u A obj scope =
     (case obj of
        ObjWord \<Rightarrow> word_text_object_range u A scope False
      | ObjBigWord \<Rightarrow> word_text_object_range u A scope True
      | ObjParentheses \<Rightarrow> Some (paired_text_object_range A scope 40 41)
      | ObjBrackets \<Rightarrow> Some (paired_text_object_range A scope 91 93)
      | ObjBraces \<Rightarrow> Some (paired_text_object_range A scope 123 125)
      | ObjDoubleQuote \<Rightarrow> quoted_text_object_range A scope 34
      | ObjSingleQuote \<Rightarrow> quoted_text_object_range A scope 39
      | ObjBacktick \<Rightarrow> quoted_text_object_range A scope 96)"

subsection \<open>Vim modes and operators\<close>

definition set_vim_enabled :: "bool \<Rightarrow> text_area \<Rightarrow> text_area" where
  "set_vim_enabled enabled A =
     A\<lparr>ta_vim_enabled := enabled, ta_vim_mode := (if enabled then VimNormal else VimInsert),
       ta_vim_pending := PendingNone\<rparr>"

definition enter_vim_insert_mode :: "text_area \<Rightarrow> text_area" where
  "enter_vim_insert_mode A =
     (if ta_vim_enabled A then A\<lparr>ta_vim_mode := VimInsert, ta_vim_pending := PendingNone\<rparr> else A)"

definition enter_vim_normal_mode :: "text_area \<Rightarrow> text_area" where
  "enter_vim_normal_mode A =
     (if ta_vim_enabled A
      then A\<lparr>ta_preferred_col := None, ta_vim_mode := VimNormal, ta_vim_pending := PendingNone\<rparr>
      else A)"

definition vim_motion_for_event :: "text_area \<Rightarrow> key_event \<Rightarrow> vim_motion option" where
  "vim_motion_for_event A e =
     (let km = km_vim_operator (ta_keymaps A)
      in if is_pressed (motion_left km) e then Some MotionLeft
         else if is_pressed (motion_right km) e then Some MotionRight
         else if is_pressed (motion_down km) e then Some MotionDown
         else if is_pressed (motion_up km) e then Some MotionUp
         else if is_pressed (motion_word_forward km) e then Some MotionWordForward
         else if is_pressed (motion_word_backward km) e then Some MotionWordBackward
         else if is_pressed (motion_word_end km) e then Some MotionWordEnd
         else if is_pressed (motion_line_start km) e then Some MotionLineStart
         else if is_pressed (motion_line_end km) e then Some MotionLineEnd
         else None)"

definition linewise_range_for_vertical_motion ::
  "vim_motion \<Rightarrow> text_area \<Rightarrow> (nat \<times> nat) option option" where
  "linewise_range_for_vertical_motion motion A =
     do {
       (cs, ce) \<leftarrow> current_line_range_with_newline A;
       r \<leftarrow> (case motion of
               MotionUp \<Rightarrow>
                 do {
                   start \<leftarrow> (if cs = 0 then Some cs else beginning_of_line (cs - 1) A);
                   Some (Some (start, ce))
                 }
             | MotionDown \<Rightarrow>
                 do {
                   stop \<leftarrow> (if ta_len A \<le> ce then Some ce
                            else do {
                              next_eol \<leftarrow> end_of_line ce A;
                              Some (if next_eol < ta_len A then next_eol + 1 else next_eol)
                            });
                   Some (Some (cs, stop))
                 }
             | _ \<Rightarrow> Some None);
       Some (case r of
               None \<Rightarrow> None
             | Some (a, b) \<Rightarrow> if a < b then Some (a, b) else None)
     }"

definition target_for_motion :: "unicode_ops \<Rightarrow> vim_motion \<Rightarrow> text_area \<Rightarrow> nat option" where
  "target_for_motion u motion A =
     map_option ta_cursor
       (case motion of
          MotionLeft \<Rightarrow> Some (move_cursor_left u A)
        | MotionRight \<Rightarrow> Some (move_cursor_right u A)
        | MotionUp \<Rightarrow> move_cursor_up u A
        | MotionDown \<Rightarrow> move_cursor_down u A
        | MotionWordForward \<Rightarrow> do { p \<leftarrow> beginning_of_next_word u A; Some (set_cursor p A) }
        | MotionWordBackward \<Rightarrow> do { p \<leftarrow> beginning_of_previous_word u A; Some (set_cursor p A) }
        | MotionWordEnd \<Rightarrow> do { p \<leftarrow> vim_word_end_exclusive u A; Some (set_cursor p A) }
        | MotionLineStart \<Rightarrow> do { p \<leftarrow> beginning_of_current_line A; Some (set_cursor p A) }
        | MotionLineEnd \<Rightarrow> do { p \<leftarrow> end_of_current_line A; Some (set_cursor p A) })"

definition range_for_motion ::
  "unicode_ops \<Rightarrow> vim_motion \<Rightarrow> text_area \<Rightarrow> (nat \<times> nat) option option" where
  "range_for_motion u motion A =
     (if motion = MotionUp \<or> motion = MotionDown then linewise_range_for_vertical_motion motion A
      else do {
        target \<leftarrow> target_for_motion u motion A;
        let start = ta_cursor A;
        Some (if start = target then None
              else if target < start then Some (target, start) else Some (start, target))
      })"

definition apply_vim_operator ::
  "unicode_ops \<Rightarrow> vim_operator \<Rightarrow> vim_motion \<Rightarrow> text_area \<Rightarrow> text_area option" where
  "apply_vim_operator u op motion A =
     do {
       r \<leftarrow> range_for_motion u motion A;
       (case r of
          None \<Rightarrow> Some A
        | Some r \<Rightarrow>
            (case op of
               OpDelete \<Rightarrow> kill_range r A
             | OpYank \<Rightarrow> yank_range r A
             | OpChange \<Rightarrow> Some A))
     }"

definition apply_vim_operator_to_range ::
  "vim_operator \<Rightarrow> nat \<times> nat \<Rightarrow> text_area \<Rightarrow> text_area option" where
  "apply_vim_operator_to_range op r A =
     (case op of
        OpDelete \<Rightarrow> kill_range r A
      | OpYank \<Rightarrow> yank_range r A
      | OpChange \<Rightarrow> do { A1 \<leftarrow> kill_range r A; Some (A1\<lparr>ta_vim_mode := VimInsert\<rparr>) })"

definition handle_vim_operator ::
  "unicode_ops \<Rightarrow> vim_operator \<Rightarrow> key_event \<Rightarrow> text_area \<Rightarrow> text_area option" where
  "handle_vim_operator u op e A =
     (let km = km_vim_operator (ta_keymaps A)
      in if op = OpDelete \<and> is_pressed (op_delete_line km) e then kill_current_line A
         else if op = OpYank \<and> is_pressed (op_yank_line km) e then yank_current_line A
         else if is_pressed (op_cancel km) e then Some A
         else case vim_text_object_scope_for_event A e of
           Some scope \<Rightarrow> Some (A\<lparr>ta_vim_pending := PendingTextObject op scope\<rparr>)
         | None \<Rightarrow>
             (case (if op \<noteq> OpChange then vim_motion_for_event A e else None) of
                Some motion \<Rightarrow> apply_vim_operator u op motion A
              | None \<Rightarrow> Some A))"

definition handle_vim_text_object ::
  "unicode_ops \<Rightarrow> vim_operator \<Rightarrow> vim_text_object_scope \<Rightarrow> key_event \<Rightarrow> text_area \<Rightarrow> text_area option"
where
  "handle_vim_text_object u op scope e A =
     (if is_pressed (obj_cancel (km_vim_text_object (ta_keymaps A))) e then Some A
      else case vim_text_object_for_event A e of
        None \<Rightarrow> Some A
      | Some obj \<Rightarrow> do {
          r \<leftarrow> text_object_range u A obj scope;
          (case r of None \<Rightarrow> Some A | Some r \<Rightarrow> apply_vim_operator_to_range op r A)
        })"

subsection \<open>Input\<close>

definition insert_mode :: "text_area \<Rightarrow> text_area" where
  "insert_mode A = A\<lparr>ta_vim_mode := VimInsert\<rparr>"

definition cursor_to :: "nat option \<Rightarrow> text_area \<Rightarrow> text_area option" where
  "cursor_to p A = do { pos \<leftarrow> p; Some (set_cursor pos A) }"

definition is_control_key :: "rchar \<Rightarrow> key_event \<Rightarrow> bool" where
  "is_control_key c e = (ev_code e = CharKey c \<and> ev_modifiers e = mod_control)"

definition is_ascii_control :: "rchar \<Rightarrow> bool" where
  "is_ascii_control c = (c < 32 \<or> c = 127)"

definition plain_char_input :: "key_event \<Rightarrow> text_area \<Rightarrow> text_area option" where
  "plain_char_input e A =
     (case ev_code e of
        CharKey c \<Rightarrow>
          if (ev_modifiers e = mod_none \<or> ev_modifiers e = mod_shift) \<and> \<not> is_ascii_control c
          then insert_str [c] A else Some A
      | _ \<Rightarrow> Some A)"

definition input_with_keymap ::
  "unicode_ops \<Rightarrow> key_event \<Rightarrow> editor_keymap \<Rightarrow> text_area \<Rightarrow> text_area option" where
  "input_with_keymap u e km A =
     (if is_pressed (insert_newline km) e then insert_str [LF] A
      else if is_pressed (delete_backward_word_key km) e then delete_backward_word u A
      else case (if is_altgr (ev_modifiers e)
                 then (case ev_code e of CharKey c \<Rightarrow> Some c | _ \<Rightarrow> None) else None) of
        Some c \<Rightarrow> insert_str [c] A
      | None \<Rightarrow>
      if is_pressed (delete_backward_key km) e then delete_backward u 1 A
      else if is_pressed (delete_forward_word_key km) e then delete_forward_word u A
      else if is_pressed (delete_forward_key km) e then delete_forward u 1 A
      else if is_pressed (kill_line_start km) e then kill_to_beginning_of_line A
      else if is_pressed (kill_whole_line km) e then kill_current_line A
      else if is_pressed (kill_line_end km) e then kill_to_end_of_line A
      else if is_pressed (yank_key km) e then yank A
      else if is_pressed (move_word_left km) e then cursor_to (beginning_of_previous_word u A) A
      else if is_pressed (move_word_right km) e then cursor_to (end_of_next_word u A) A
      else if is_pressed (move_left km) e then Some (move_cursor_left u A)
      else if is_pressed (move_right km) e then Some (move_cursor_right u A)
      else if is_pressed (move_up km) e then move_cursor_up u A
      else if is_pressed (move_down km) e then move_cursor_down u A
      else if is_pressed (move_line_start km) e
      then move_cursor_to_beginning_of_line (is_control_key 97 e) A
      else if is_pressed (move_line_end km) e
      then move_cursor_to_end_of_line (is_control_key 101 e) A
      else plain_char_input e A)"

definition handle_vim_insert :: "unicode_ops \<Rightarrow> key_event \<Rightarrow> text_area \<Rightarrow> text_area option" where
  "handle_vim_insert u e A =
     (if ev_code e = Esc
      then do {
        bol \<leftarrow> beginning_of_current_line A;
        let A1 = (if bol < ta_cursor A
                  then A\<lparr>ta_cursor := max (prev_atomic_boundary u A (ta_cursor A)) bol\<rparr> else A);
        Some (enter_vim_normal_mode A1)
      }
      else input_with_keymap u e (km_editor (ta_keymaps A)) A)"

definition vim_open_line_below :: "text_area \<Rightarrow> text_area option" where
  "vim_open_line_below A =
     do {
       eol \<leftarrow> end_of_current_line A;
       let insert_at = (if eol < ta_len A then eol + 1 else eol);
       A1 \<leftarrow> insert_str_at insert_at [LF] A;
       Some (insert_mode (set_cursor (if eol < ta_len A then insert_at else insert_at + 1) A1))
     }"

definition vim_open_line_above :: "text_area \<Rightarrow> text_area option" where
  "vim_open_line_above A =
     do {
       bol \<leftarrow> beginning_of_current_line A;
       A1 \<leftarrow> insert_str_at bol [LF] A;
       Some (insert_mode (set_cursor bol A1))
     }"

definition vim_substitute_char :: "unicode_ops \<Rightarrow> text_area \<Rightarrow> text_area option" where
  "vim_substitute_char u A =
     do {
       eol \<leftarrow> end_of_current_line A;
       A1 \<leftarrow> (if ta_cursor A < eol then delete_forward_kill u 1 A else Some A);
       Some (insert_mode A1)
     }"

definition vim_normal_command :: "unicode_ops \<Rightarrow> key_event \<Rightarrow> text_area \<Rightarrow> text_area option" where
  "vim_normal_command u e A =
     (let km = km_vim_normal (ta_keymaps A)
      in if is_pressed (enter_insert km) e then Some (insert_mode A)
      else if is_pressed (append_after_cursor km) e
      then Some (insert_mode (set_cursor (next_atomic_boundary u A (ta_cursor A)) A))
      else if is_pressed (append_line_end km) e
      then map_option insert_mode (cursor_to (end_of_current_line A) A)
      else if is_pressed (insert_line_start km) e
      then map_option insert_mode (cursor_to (first_non_blank_of_current_line A) A)
      else if is_pressed (open_line_below km) e then vim_open_line_below A
      else if is_pressed (open_line_above km) e then vim_open_line_above A
      else if is_pressed (vim_left km) e then Some (move_cursor_left u A)
      else if is_pressed (vim_right km) e then Some (move_cursor_right u A)
      else if is_pressed (vim_down km) e then move_cursor_down u A
      else if is_pressed (vim_up km) e then move_cursor_up u A
      else if is_pressed (move_word_forward km) e then cursor_to (beginning_of_next_word u A) A
      else if is_pressed (move_word_backward km) e then cursor_to (beginning_of_previous_word u A) A
      else if is_pressed (move_word_end km) e then cursor_to (vim_word_end_cursor u A) A
      else if is_pressed (vim_line_start km) e then cursor_to (beginning_of_current_line A) A
      else if is_pressed (vim_line_end km) e then cursor_to (vim_line_end_cursor u A) A
      else if is_pressed (delete_char km) e then delete_forward_kill u 1 A
      else if is_pressed (substitute_char km) e then vim_substitute_char u A
      else if is_pressed (delete_to_line_end km) e then vim_kill_to_end_of_line A
      else if is_pressed (change_to_line_end km) e
      then map_option insert_mode (vim_kill_to_end_of_line A)
      else if is_pressed (vim_yank_line km) e then yank_current_line A
      else if is_pressed (paste_after km) e then paste_after_cursor u A
      else if is_pressed (start_delete_operator km) e
      then Some (A\<lparr>ta_vim_pending := PendingOperator OpDelete\<rparr>)
      else if is_pressed (start_yank_operator km) e
      then Some (A\<lparr>ta_vim_pending := PendingOperator OpYank\<rparr>)
      else if is_pressed (start_change_operator km) e
      then Some (A\<lparr>ta_vim_pending := PendingOperator OpChange\<rparr>)
      else if is_pressed (cancel_operator km) e then Some (A\<lparr>ta_vim_pending := PendingNone\<rparr>)
      else Some A)"

definition handle_vim_normal :: "unicode_ops \<Rightarrow> key_event \<Rightarrow> text_area \<Rightarrow> text_area option" where
  "handle_vim_normal u e A =
     (let A1 = A\<lparr>ta_vim_pending := PendingNone\<rparr>
      in case ta_vim_pending A of
           PendingNone \<Rightarrow> vim_normal_command u e A1
         | PendingOperator op \<Rightarrow> handle_vim_operator u op e A1
         | PendingTextObject op scope \<Rightarrow> handle_vim_text_object u op scope e A1)"

definition handle_vim_input :: "unicode_ops \<Rightarrow> key_event \<Rightarrow> text_area \<Rightarrow> text_area option" where
  "handle_vim_input u e A =
     (case ta_vim_mode A of
        VimInsert \<Rightarrow> handle_vim_insert u e A
      | VimNormal \<Rightarrow> handle_vim_normal u e A)"

definition input :: "unicode_ops \<Rightarrow> key_event \<Rightarrow> text_area \<Rightarrow> text_area option" where
  "input u e A =
     (if \<not> press_or_repeat e then Some A
      else if ta_vim_enabled A then handle_vim_input u e A
      else input_with_keymap u e (km_editor (ta_keymaps A)) A)"

end
