(* ===== verification/Text_Area_Edits.thy ===== *)
theory Text_Area_Edits
  imports Text_Area_Keys "HOL-Library.Sublist"
begin

section \<open>Edits keep the text area well formed\<close>

text \<open>
  The invariant of a text area: the cursor and the ends of every element lie on char boundaries,
  elements are ordered and do not overlap, their ids are distinct, and cached rows are rows of the
  present text. Edits keep it, and every element that survives an edit keeps its id and text. What
  is assumed of segmentation and wrapping is \<open>unicode_ok\<close>.
\<close>

subsection \<open>Assumptions on the parameters\<close>

fun segmentation :: "nat \<Rightarrow> (nat \<times> rstring) list \<Rightarrow> rstring \<Rightarrow> bool" where
  "segmentation k [] s = (s = [])"
| "segmentation k ((i, g) # gs) s =
     (i = k \<and> g \<noteq> [] \<and> starts_with g s \<and> segmentation (k + utf8_len g) gs (drop (length g) s))"

text \<open>Rows in order: each ends with a sentinel byte, before which the next one may start.\<close>

fun rows_ok :: "rstring \<Rightarrow> nat \<Rightarrow> (nat \<times> nat) list \<Rightarrow> bool" where
  "rows_ok s lo [] = True"
| "rows_ok s lo ((a, b) # rs) =
     (lo \<le> a \<and> a < b \<and> is_char_boundary s a \<and> is_char_boundary s (b - 1) \<and> rows_ok s (b - 1) rs)"

definition rows_cover :: "rstring \<Rightarrow> (nat \<times> nat) list \<Rightarrow> bool" where
  "rows_cover s rs \<longleftrightarrow> rows_ok s 0 rs \<and> rs \<noteq> [] \<and> fst (hd rs) = 0"

definition unicode_ok :: "unicode_ops \<Rightarrow> bool" where
  "unicode_ok u \<longleftrightarrow>
     (\<forall>s p. is_char_boundary s p \<and> 0 < p \<longrightarrow>
        (\<exists>b. prev_boundary u s p = Boundary b \<and> b < p \<and> is_char_boundary s b)) \<and>
     (\<forall>s p. is_char_boundary s p \<and> p < utf8_len s \<longrightarrow>
        (\<exists>b. next_boundary u s p = Boundary b \<and> p < b \<and> is_char_boundary s b)) \<and>
     (\<forall>s. segmentation 0 (grapheme_indices u s) s) \<and>
     (\<forall>s. segmentation 0 (split_word_bound_indices u s) s) \<and>
     (\<forall>s w. rows_cover s (wrap_ranges u w s))"

subsection \<open>The invariant\<close>

definition apart :: "text_element \<Rightarrow> text_element \<Rightarrow> bool" where
  "apart e f \<longleftrightarrow> el_end e \<le> el_start f \<or> el_end f \<le> el_start e"

definition element_ok :: "rstring \<Rightarrow> text_element \<Rightarrow> bool" where
  "element_ok s e \<longleftrightarrow>
     el_start e \<le> el_end e \<and> is_char_boundary s (el_start e) \<and> is_char_boundary s (el_end e)"

definition elements_ok :: "rstring \<Rightarrow> text_element list \<Rightarrow> bool" where
  "elements_ok s es \<longleftrightarrow>
     list_all (element_ok s) es \<and> sorted_wrt apart es \<and> sorted (map el_start es)"

definition ids_ok :: "text_area \<Rightarrow> bool" where
  "ids_ok A \<longleftrightarrow>
     (ta_next_element_id A < usize_max \<longrightarrow>
        distinct (map el_id (ta_elements A)) \<and>
        list_all (\<lambda>e. el_id e < ta_next_element_id A) (ta_elements A))"

definition cache_ok :: "text_area \<Rightarrow> bool" where
  "cache_ok A \<longleftrightarrow>
     (case ta_wrap_cache A of None \<Rightarrow> True | Some c \<Rightarrow> rows_cover (ta_text A) (wc_lines c))"

definition ta_ok :: "text_area \<Rightarrow> bool" where
  "ta_ok A \<longleftrightarrow>
     is_char_boundary (ta_text A) (ta_cursor A) \<and> elements_ok (ta_text A) (ta_elements A) \<and>
     ids_ok A \<and> cache_ok A"

text \<open>The ids and texts of the elements, in order.\<close>

definition payloads :: "text_area \<Rightarrow> (nat \<times> rstring option) list" where
  "payloads A = map (\<lambda>e. (el_id e, element_text (ta_text A) e)) (ta_elements A)"

text \<open>
  An operation is safe when it returns, keeps the invariant, and leaves of the elements a
  subsequence, each with its id and its text.
\<close>

definition safe :: "text_area \<Rightarrow> text_area option \<Rightarrow> bool" where
  "safe A r \<longleftrightarrow>
     (\<exists>B. r = Some B \<and> ta_ok B \<and> subseq (payloads B) (payloads A) \<and>
          ta_next_element_id B = ta_next_element_id A)"

lemma ta_okD:
  assumes "ta_ok A"
  shows "is_char_boundary (ta_text A) (ta_cursor A)" "elements_ok (ta_text A) (ta_elements A)"
    "ids_ok A" "cache_ok A"
  using assms by (simp_all add: ta_ok_def)

lemma payload_ids: "map el_id (ta_elements A) = map fst (payloads A)"
  by (simp add: payloads_def)

lemma subseq_subset: "subseq xs ys \<Longrightarrow> set xs \<subseteq> set ys"
  by (induction rule: list_emb.induct) auto

lemma subseq_distinct: "subseq xs ys \<Longrightarrow> distinct ys \<Longrightarrow> distinct xs"
  by (induction rule: list_emb.induct) (auto dest: list_emb_set)

lemma ids_ok_subseq:
  assumes "ids_ok A" "subseq (payloads B) (payloads A)"
    and "ta_next_element_id B = ta_next_element_id A"
  shows "ids_ok B"
proof -
  have s: "subseq (map el_id (ta_elements B)) (map el_id (ta_elements A))"
    unfolding payload_ids using assms(2) by (rule subseq_map)
  have "el_id ` set (ta_elements B) \<subseteq> el_id ` set (ta_elements A)"
    using subseq_subset [OF s] by simp
  then show ?thesis
    using assms(1,3) subseq_distinct [OF s] unfolding ids_ok_def list_all_iff by fastforce
qed

lemma safeI:
  assumes "ta_ok A" "r = Some B" "is_char_boundary (ta_text B) (ta_cursor B)"
    and "elements_ok (ta_text B) (ta_elements B)" "cache_ok B"
    and "subseq (payloads B) (payloads A)" "ta_next_element_id B = ta_next_element_id A"
  shows "safe A r"
  using assms ids_ok_subseq unfolding safe_def ta_ok_def by blast

lemma safe_bind:
  assumes "safe A m" "\<And>B. ta_ok B \<Longrightarrow> safe B (k B)"
  shows "safe A (Option.bind m k)"
proof -
  obtain B where b: "m = Some B" "ta_ok B" "subseq (payloads B) (payloads A)"
    "ta_next_element_id B = ta_next_element_id A"
    using assms(1) by (auto simp: safe_def)
  from assms(2) [OF b(2)] show ?thesis
    using b subseq_order.order_trans unfolding safe_def by fastforce
qed

lemma safe_map: "safe A m \<Longrightarrow> (\<And>B. ta_ok B \<Longrightarrow> safe B (Some (f B))) \<Longrightarrow> safe A (map_option f m)"
  using safe_bind [of A m "\<lambda>B. Some (f B)"] by (cases m) (auto simp: safe_def)

lemma safe_same:
  assumes "ta_ok A" "ta_text B = ta_text A" "ta_elements B = ta_elements A"
    and "ta_wrap_cache B = ta_wrap_cache A" "ta_next_element_id B = ta_next_element_id A"
    and "is_char_boundary (ta_text A) (ta_cursor B)"
  shows "safe A (Some B)"
  using assms
  by (intro safeI [where B = B]) (auto simp: ta_ok_def cache_ok_def payloads_def cong: option.case_cong)

lemma safe_Some [simp]: "ta_ok A \<Longrightarrow> safe A (Some A)"
  by (rule safe_same) (simp_all add: ta_ok_def)

lemma safe_from:
  assumes "safe B r" "ta_text B = ta_text A" "ta_elements B = ta_elements A"
    "ta_next_element_id B = ta_next_element_id A"
  shows "safe A r"
  using assms by (simp add: safe_def payloads_def)

subsection \<open>Clamping\<close>

lemma prev_char_boundary_ok:
  "is_char_boundary s (prev_char_boundary s p) \<and> prev_char_boundary s p \<le> p"
proof (induction s p rule: prev_char_boundary.induct)
  case (1 s p)
  then show ?case by (subst (1 2) prev_char_boundary.simps) auto
qed

lemma next_char_boundary_ok:
  "p \<le> utf8_len s \<Longrightarrow> is_char_boundary s (next_char_boundary s p) \<and> p \<le> next_char_boundary s p"
proof (induction s p rule: next_char_boundary.induct)
  case (1 s p)
  show ?case
  proof (cases "p < utf8_len s \<and> \<not> is_char_boundary s p")
    case True
    then show ?thesis using 1 by (subst (1 2) next_char_boundary.simps) auto
  next
    case False
    then have "p = utf8_len s \<or> is_char_boundary s p" using 1(2) by auto
    then show ?thesis using False by (subst (1 2) next_char_boundary.simps) auto
  qed
qed

lemma clamp_char_ok [simp]: "is_char_boundary s (clamp_pos_to_char_boundary s p)"
  using prev_char_boundary_ok next_char_boundary_ok [of "min p (utf8_len s)" s]
  by (simp add: clamp_pos_to_char_boundary_def Let_def)

lemma clamp_char_id [simp]: "is_char_boundary s p \<Longrightarrow> clamp_pos_to_char_boundary s p = p"
  using boundary_le [of s p] by (simp add: clamp_pos_to_char_boundary_def Let_def min_absorb1)

lemma elements_pairwise:
  assumes "sorted_wrt apart es" "e \<in> set es" "f \<in> set es"
  shows "e = f \<or> apart e f"
  using assms by (induction es) (auto simp: apart_def)

lemma elements_okD:
  assumes "elements_ok s es" "e \<in> set es"
  shows "el_start e \<le> el_end e" "is_char_boundary s (el_start e)" "is_char_boundary s (el_end e)"
  using assms by (auto simp: elements_ok_def element_ok_def list_all_iff)

lemma find_element_SomeD:
  assumes "find_element_containing es p = Some e"
  shows "e \<in> set es \<and> el_start e < p \<and> p < el_end e"
  using find_in_set [of _ es e] assms unfolding find_element_containing_def by blast

lemma find_element_NoneD:
  "find_element_containing es p = None \<Longrightarrow> e \<in> set es \<Longrightarrow> el_end e \<le> p \<or> p \<le> el_start e"
  unfolding find_element_containing_def find_None_iff by (meson not_le_imp_less)

lemma element_edge_clear:
  assumes "elements_ok s es" "e \<in> set es" "f \<in> set es" "el_start e < el_end e"
  shows "el_end f \<le> el_start e \<or> el_start e \<le> el_start f" "el_end f \<le> el_end e \<or> el_end e \<le> el_start f"
  using elements_pairwise [of es e f] elements_okD(1) [OF assms(1,3)] assms
  by (auto simp: elements_ok_def apart_def)

lemma clamp_insertion_ok:
  fixes A q
  assumes "ta_ok A"
  defines "p \<equiv> clamp_pos_for_insertion A q"
  shows "is_char_boundary (ta_text A) p"
    and "e \<in> set (ta_elements A) \<Longrightarrow> el_end e \<le> p \<or> p \<le> el_start e"
proof -
  note ok = ta_okD(2) [OF assms(1)]
  show "is_char_boundary (ta_text A) p"
    by (auto simp: p_def clamp_pos_for_insertion_def Let_def split: option.splits)
  show "el_end e \<le> p \<or> p \<le> el_start e" if e: "e \<in> set (ta_elements A)"
  proof (cases "find_element_containing (ta_elements A) (clamp_pos_to_char_boundary (ta_text A) q)")
    case None
    then show ?thesis using find_element_NoneD [OF None e]
      by (simp add: p_def clamp_pos_for_insertion_def)
  next
    case (Some f)
    have f: "f \<in> set (ta_elements A)" "el_start f < el_end f"
      using find_element_SomeD [OF Some] by auto
    then have "p = el_start f \<or> p = el_end f" using Some elements_okD [OF ok f(1)]
      by (simp add: p_def clamp_pos_for_insertion_def Let_def)
    then show ?thesis using element_edge_clear [OF ok f(1) e f(2)] by auto
  qed
qed

lemma clamp_nearest_ok [simp]:
  "is_char_boundary (ta_text A) (clamp_pos_to_nearest_boundary A p)"
  by (auto simp: clamp_pos_to_nearest_boundary_def Let_def split: option.splits)

lemma clamp_insertion_id:
  assumes "is_char_boundary (ta_text A) p"
    and "\<And>e. e \<in> set (ta_elements A) \<Longrightarrow> el_end e \<le> p \<or> p \<le> el_start e"
  shows "clamp_pos_for_insertion A p = p" "clamp_pos_to_nearest_boundary A p = p"
proof -
  have "find_element_containing (ta_elements A) p = None"
    using assms(2) find_element_SomeD [of "ta_elements A" p] by (metis not_le option.exhaust)
  then show "clamp_pos_for_insertion A p = p" "clamp_pos_to_nearest_boundary A p = p"
    using assms(1)
    by (simp_all add: clamp_pos_for_insertion_def clamp_pos_to_nearest_boundary_def)
qed

lemma safe_set_cursor [simp]: "ta_ok A \<Longrightarrow> safe A (Some (set_cursor p A))"
  by (rule safe_same) (simp_all add: set_cursor_def)

subsection \<open>Expanding a range to whole elements\<close>

definition clear_range :: "text_element list \<Rightarrow> nat \<Rightarrow> nat \<Rightarrow> bool" where
  "clear_range es a b \<longleftrightarrow>
     (\<forall>e \<in> set es. el_end e \<le> a \<or> b \<le> el_start e \<or> a \<le> el_start e \<and> el_end e \<le> b)"

lemma expand_fold_unchanged:
  "fold expand_step es (a, b, ch) = (a', b', False) \<Longrightarrow>
     \<not> ch \<and> a' = a \<and> b' = b \<and> clear_range es a b"
proof (induction es arbitrary: a b ch)
  case (Cons e es)
  obtain a1 b1 c1 where s: "expand_step e (a, b, ch) = (a1, b1, c1)" by (metis prod_cases3)
  then have "\<not> c1 \<and> a' = a1 \<and> b' = b1 \<and> clear_range es a1 b1" using Cons by auto
  then show ?case using s
    by (auto simp: expand_step_def clear_range_def Let_def split: if_splits)
qed (simp add: clear_range_def)

lemma expand_fold_bounds:
  assumes "fold expand_step es (a, b, ch) = (a', b', ch')" "P a" "P b"
    and "\<And>e. e \<in> set es \<Longrightarrow> P (el_start e) \<and> P (el_end e)"
  shows "P a' \<and> P b' \<and> a' \<le> a \<and> b \<le> b'"
  using assms
proof (induction es arbitrary: a b ch)
  case (Cons e es)
  obtain a1 b1 c1 where s: "expand_step e (a, b, ch) = (a1, b1, c1)" by (metis prod_cases3)
  have "P (el_start e)" "P (el_end e)" using Cons.prems(4) [of e] by simp_all
  then have "P a1 \<and> P b1 \<and> a1 \<le> a \<and> b \<le> b1" using s Cons.prems(2,3)
    by (auto simp: expand_step_def Let_def min_def max_def split: if_splits)
  moreover from this have "P a' \<and> P b' \<and> a' \<le> a1 \<and> b1 \<le> b'"
    using Cons.IH [of a1 b1 c1] Cons.prems s by simp
  ultimately show ?case by linarith
qed simp

lemma expand_range_ok:
  assumes "expand_range_to_element_boundaries es (a, b) = (a', b')" "P a" "P b"
    and "\<And>e. e \<in> set es \<Longrightarrow> P (el_start e) \<and> P (el_end e)"
  shows "P a' \<and> P b' \<and> a' \<le> a \<and> b \<le> b' \<and> clear_range es a' b'"
  using assms
proof (induction es "(a, b)" arbitrary: a b rule: expand_range_to_element_boundaries.induct)
  case (1 es a b)
  obtain a1 b1 ch where p: "expand_pass es (a, b) = (a1, b1, ch)" by (metis prod_cases3)
  have q: "P a1 \<and> P b1 \<and> a1 \<le> a \<and> b \<le> b1"
    using expand_fold_bounds [of es a b False a1 b1 ch P] p 1(3,4,5) by (simp add: expand_pass_def)
  show ?case
  proof (cases ch)
    case True
    then have "expand_range_to_element_boundaries es (a1, b1) = (a', b')"
      using 1(2) p by (simp add: expand_range_to_element_boundaries.simps [of es a b])
    then show ?thesis using 1(1) [OF p [symmetric] refl True _ _ _ 1(5)] q by force
  next
    case False
    then have "a' = a1" "b' = b1"
      using 1(2) p by (simp_all add: expand_range_to_element_boundaries.simps [of es a b])
    moreover have "clear_range es a b \<and> a1 = a \<and> b1 = b"
      using expand_fold_unchanged [of es a b False a1 b1] p False by (simp add: expand_pass_def)
    ultimately show ?thesis using q by simp
  qed
qed

lemma expand_range_boundaries:
  assumes "elements_ok s es" "is_char_boundary s a" "is_char_boundary s b"
    and "expand_range_to_element_boundaries es (a, b) = (a', b')"
  shows "is_char_boundary s a' \<and> is_char_boundary s b' \<and> a' \<le> a \<and> b \<le> b' \<and> clear_range es a' b'"
  by (rule expand_range_ok [OF assms(4,2,3)]) (auto dest: elements_okD [OF assms(1)])

subsection \<open>Shifting elements\<close>

lemma shift_element_kept:
  assumes "el_end e \<le> a \<or> a + r \<le> el_start e \<or> a \<le> el_start e \<and> el_end e \<le> a + r"
    and "\<not> (a \<le> el_start e \<and> el_end e \<le> a + r)"
  shows "el_end e \<le> a \<and> shift_element a r i e = e \<or>
    a < el_end e \<and> a + r \<le> el_start e \<and>
    shift_element a r i e =
      e\<lparr>el_start := el_start e + i - r, el_end := el_end e + i - r\<rparr>"
  using assms by (auto simp: shift_element_def)

lemma shift_element_text:
  fixes x y z t e
  assumes "el_end e \<le> utf8_len x \<or> utf8_len x + utf8_len y \<le> el_start e \<or>
      utf8_len x \<le> el_start e \<and> el_end e \<le> utf8_len x + utf8_len y"
    and "\<not> (utf8_len x \<le> el_start e \<and> el_end e \<le> utf8_len x + utf8_len y)"
    and "element_ok (x @ y @ z) e"
  defines "f \<equiv> shift_element (utf8_len x) (utf8_len y) (utf8_len t) e"
  shows "element_ok (x @ t @ z) f" "el_id f = el_id e"
    "element_text (x @ t @ z) f = element_text (x @ y @ z) e"
proof -
  obtain p where p: "element_text (x @ y @ z) e = Some p"
    using assms(3) unfolding element_ok_def element_text_def by (metis slice_defined)
  consider (before) "el_end e \<le> utf8_len x" "f = e"
    | (after) "utf8_len x + utf8_len y \<le> el_start e"
      "f = e\<lparr>el_start := el_start e + utf8_len t - utf8_len y,
             el_end := el_end e + utf8_len t - utf8_len y\<rparr>"
    using shift_element_kept [OF assms(1,2)] unfolding f_def by blast
  then have "element_ok (x @ t @ z) f \<and> el_id f = el_id e \<and>
    element_text (x @ t @ z) f = element_text (x @ y @ z) e"
  proof cases
    case before
    then show ?thesis using assms(3) p slice_before [of _ _ x y z p t]
      by (auto simp: element_ok_def element_text_def intro: replaced_boundary_before)
  next
    case after
    then show ?thesis using assms(3) p slice_after [of _ _ x y z p t]
      by (auto simp: element_ok_def element_text_def intro: replaced_boundary_after)
  qed
  then show "element_ok (x @ t @ z) f" "el_id f = el_id e"
    "element_text (x @ t @ z) f = element_text (x @ y @ z) e"
    by simp_all
qed

lemma shift_elements_ok:
  fixes x y z t es
  assumes ok: "elements_ok (x @ y @ z) es"
    and clear: "clear_range es (utf8_len x) (utf8_len x + utf8_len y)"
  defines "fs \<equiv> shift_elements (utf8_len x) (utf8_len y) (utf8_len t) es"
  shows "elements_ok (x @ t @ z) fs"
    and "subseq (map (\<lambda>e. (el_id e, element_text (x @ t @ z) e)) fs)
           (map (\<lambda>e. (el_id e, element_text (x @ y @ z) e)) es)"
proof -
  define sh where "sh = shift_element (utf8_len x) (utf8_len y) (utf8_len t)"
  define ks where
    "ks = filter (\<lambda>e. \<not> (utf8_len x \<le> el_start e \<and> el_end e \<le> utf8_len x + utf8_len y)) es"
  have fs: "fs = map sh ks" by (simp add: fs_def shift_elements_def sh_def ks_def)
  have sh_text: "element_ok (x @ t @ z) (sh e)" "el_id (sh e) = el_id e"
    "element_text (x @ t @ z) (sh e) = element_text (x @ y @ z) e" if "e \<in> set ks" for e
    unfolding sh_def using that clear ok
    by (auto intro!: shift_element_text
        simp: ks_def clear_range_def elements_ok_def list_all_iff)
  have cases_e: "el_start e \<le> el_end e \<and>
      (el_end e \<le> utf8_len x \<and> sh e = e \<or>
       utf8_len x < el_end e \<and> utf8_len x + utf8_len y \<le> el_start e \<and>
       sh e = e\<lparr>el_start := el_start e + utf8_len t - utf8_len y,
               el_end := el_end e + utf8_len t - utf8_len y\<rparr>)" if "e \<in> set ks" for e
    using that clear elements_okD(1) [OF ok] shift_element_kept [of e "utf8_len x" "utf8_len y"]
    unfolding sh_def ks_def clear_range_def by auto
  have "sorted_wrt (\<lambda>e f. apart (sh e) (sh f)) ks"
  proof (rule sorted_wrt_mono_rel [where P = apart])
    show "sorted_wrt apart ks" using ok by (simp add: ks_def elements_ok_def sorted_wrt_filter)
    show "apart (sh e) (sh f)" if "e \<in> set ks" "f \<in> set ks" "apart e f" for e f
      using cases_e [OF that(1)] cases_e [OF that(2)] that(3) by (auto simp: apart_def)
  qed
  moreover have "sorted_wrt (\<lambda>e f. el_start (sh e) \<le> el_start (sh f)) ks"
  proof (rule sorted_wrt_mono_rel [where P = "\<lambda>e f. el_start e \<le> el_start f"])
    show "sorted_wrt (\<lambda>e f. el_start e \<le> el_start f) ks"
      using ok by (simp add: ks_def elements_ok_def sorted_wrt_filter sorted_map)
    show "el_start (sh e) \<le> el_start (sh f)"
      if "e \<in> set ks" "f \<in> set ks" "el_start e \<le> el_start f" for e f
      using cases_e [OF that(1)] cases_e [OF that(2)] that(2,3) by (auto simp: ks_def)
  qed
  ultimately show "elements_ok (x @ t @ z) fs"
    using sh_text(1) by (simp add: fs elements_ok_def sorted_wrt_map sorted_map list_all_iff)
  have "map (\<lambda>e. (el_id e, element_text (x @ t @ z) e)) fs =
      map (\<lambda>e. (el_id e, element_text (x @ y @ z) e)) ks"
    using sh_text(2,3) by (simp add: fs)
  then show "subseq (map (\<lambda>e. (el_id e, element_text (x @ t @ z) e)) fs)
      (map (\<lambda>e. (el_id e, element_text (x @ y @ z) e)) es)"
    unfolding ks_def by (simp only: subseq_map subseq_filter_left)
qed

subsection \<open>Edits\<close>

lemma insert_str_at_result:
  assumes "ta_ok A"
  obtains x z B where "ta_text A = x @ z" "utf8_len x = clamp_pos_for_insertion A p"
    "insert_str_at p t A = Some B" "ta_text B = x @ t @ z" "ta_wrap_cache B = None"
    "ta_elements B = shift_elements (utf8_len x) 0 (utf8_len t) (ta_elements A)"
    "ta_next_element_id B = ta_next_element_id A"
    "ta_cursor B =
       (if utf8_len x \<le> ta_cursor A then ta_cursor A + utf8_len t else ta_cursor A)"
proof -
  define q where "q = clamp_pos_for_insertion A p"
  have "is_char_boundary (ta_text A) q"
    unfolding q_def by (rule clamp_insertion_ok [OF assms])
  then obtain x z where x: "ta_text A = x @ z" "utf8_len x = q" by (rule boundaryE)
  have "replace_bytes q q t (ta_text A) = Some (x @ t @ z)"
    using replace_bytes_append [of x "[]" t z] x by simp
  then show ?thesis using x
    by (intro that [of x z "the (insert_str_at p t A)"]) (simp_all add: insert_str_at_def q_def Let_def)
qed

lemma insert_str_at_safe [simp]:
  assumes "ta_ok A"
  shows "safe A (insert_str_at p t A)"
proof -
  obtain x z B where x: "ta_text A = x @ z" "utf8_len x = clamp_pos_for_insertion A p"
    and r: "insert_str_at p t A = Some B" "ta_text B = x @ t @ z" "ta_wrap_cache B = None"
      "ta_elements B = shift_elements (utf8_len x) 0 (utf8_len t) (ta_elements A)"
      "ta_next_element_id B = ta_next_element_id A"
      "ta_cursor B =
         (if utf8_len x \<le> ta_cursor A then ta_cursor A + utf8_len t else ta_cursor A)"
    using insert_str_at_result [OF assms] by metis
  have clear: "clear_range (ta_elements A) (utf8_len x) (utf8_len x + utf8_len [])"
    using clamp_insertion_ok(2) [OF assms] x(2) by (auto simp: clear_range_def)
  have els: "elements_ok (x @ [] @ z) (ta_elements A)" using ta_okD(2) [OF assms] x(1) by simp
  have cur: "is_char_boundary (x @ [] @ z) (ta_cursor A)" using ta_okD(1) [OF assms] x(1) by simp
  have "is_char_boundary (ta_text B) (ta_cursor B)"
    using replaced_boundary_before [OF cur, of t] replaced_boundary_after [OF cur, of t] r by simp
  then show ?thesis
    using shift_elements_ok [OF els clear, of t] x r
    by (intro safeI [OF assms r(1)]) (simp_all add: cache_ok_def payloads_def)
qed

lemma insert_str_safe [simp]: "ta_ok A \<Longrightarrow> safe A (insert_str t A)"
  by (simp add: insert_str_def)

lemma replace_range_raw_result:
  assumes "ta_ok A" "is_char_boundary (ta_text A) a" "is_char_boundary (ta_text A) b" "a \<le> b"
    and "a < b \<or> t \<noteq> []"
  obtains x y z B where "ta_text A = x @ y @ z" "utf8_len x = a" "b = a + utf8_len y"
    "replace_range_raw (a, b) t A = Some B" "ta_text B = x @ t @ z" "ta_wrap_cache B = None"
    "ta_elements B = shift_elements a (utf8_len y) (utf8_len t) (ta_elements A)"
    "ta_next_element_id B = ta_next_element_id A" "ta_kill_buffer B = ta_kill_buffer A"
    "a \<le> ta_cursor A \<Longrightarrow> ta_cursor A \<le> b \<Longrightarrow>
       ta_cursor B = clamp_pos_to_nearest_boundary B (a + utf8_len t)"
    "is_char_boundary (ta_text B) (ta_cursor B)"
proof -
  obtain x y z where x: "ta_text A = x @ y @ z" "utf8_len x = a" "b = a + utf8_len y"
    and r: "replace_bytes a b t (ta_text A) = Some (x @ t @ z)"
    using replace_bytes_defined [OF assms(2,3,4)] by metis
  define c where "c = min (if ta_cursor A < a then ta_cursor A
      else if ta_cursor A \<le> b then a + utf8_len t
      else ta_cursor A + utf8_len t - (b - a)) (utf8_len (x @ t @ z))"
  define B where "B = A\<lparr>ta_text := x @ t @ z, ta_cursor := c, ta_wrap_cache := None,
      ta_preferred_col := None,
      ta_elements := shift_elements a (utf8_len y) (utf8_len t) (ta_elements A)\<rparr>"
  have near: "clamp_pos_to_nearest_boundary (B\<lparr>ta_cursor := k\<rparr>) p = clamp_pos_to_nearest_boundary B p"
    for k p by (simp add: clamp_pos_to_nearest_boundary_def Let_def split: option.split)
  have m: "min a (ta_len A) = a" "min b (ta_len A) = b" and len: "b - a = utf8_len y"
    using x by simp_all
  have ne: "y \<noteq> [] \<or> t \<noteq> []" using assms(5) x(3) by auto
  have "replace_range_raw (a, b) t A =
      Some (B\<lparr>ta_cursor := clamp_pos_to_nearest_boundary B c\<rparr>)"
    unfolding replace_range_raw_def update_elements_after_replace_def Let_def prod.case m r
    using assms(4) ne len by (auto simp: c_def B_def)
  moreover have "c = a + utf8_len t" if "a \<le> ta_cursor A" "ta_cursor A \<le> b"
    using that x by (simp add: c_def)
  ultimately show ?thesis
    using x clamp_nearest_ok [of B c]
    by (intro that [of x y z "B\<lparr>ta_cursor := clamp_pos_to_nearest_boundary B c\<rparr>"])
      (simp_all add: near, simp_all add: B_def)
qed

lemma replace_range_raw_safe:
  assumes "ta_ok A" "is_char_boundary (ta_text A) a" "is_char_boundary (ta_text A) b" "a \<le> b"
    and "clear_range (ta_elements A) a b"
  shows "safe A (replace_range_raw (a, b) t A)"
proof (cases "a < b \<or> t \<noteq> []")
  case True
  obtain x y z B where r: "ta_text A = x @ y @ z" "utf8_len x = a" "b = a + utf8_len y"
    "replace_range_raw (a, b) t A = Some B" "ta_text B = x @ t @ z" "ta_wrap_cache B = None"
    "ta_elements B = shift_elements a (utf8_len y) (utf8_len t) (ta_elements A)"
    "ta_next_element_id B = ta_next_element_id A"
    "is_char_boundary (ta_text B) (ta_cursor B)"
    using replace_range_raw_result [OF assms(1-4) True] by metis
  have "clear_range (ta_elements A) (utf8_len x) (utf8_len x + utf8_len y)"
    using assms(5) r(2,3) by simp
  note els = shift_elements_ok [OF _ this, of z t]
  show ?thesis
    using els ta_okD(2) [OF assms(1)] r
    by (intro safeI [OF assms(1) r(4)]) (simp_all add: cache_ok_def payloads_def)
next
  case False
  then show ?thesis using assms(1,4) by (simp add: replace_range_raw_def)
qed

lemma replace_range_safe:
  assumes "ta_ok A" "is_char_boundary (ta_text A) a" "is_char_boundary (ta_text A) b" "a \<le> b"
  shows "safe A (replace_range (a, b) t A)"
proof -
  obtain a' b' where e: "expand_range_to_element_boundaries (ta_elements A) (a, b) = (a', b')"
    by fastforce
  show ?thesis using expand_range_boundaries [OF ta_okD(2) [OF assms(1)] assms(2,3) e] assms(1,4)
    by (simp add: replace_range_def e replace_range_raw_safe)
qed

lemma store_kill_buffer_simps [simp]:
  "ta_text (store_kill_buffer t k A) = ta_text A"
  "ta_elements (store_kill_buffer t k A) = ta_elements A"
  "ta_cursor (store_kill_buffer t k A) = ta_cursor A"
  "ta_wrap_cache (store_kill_buffer t k A) = ta_wrap_cache A"
  "ta_next_element_id (store_kill_buffer t k A) = ta_next_element_id A"
  "ta_kill_buffer (store_kill_buffer t k A) = t"
  by (simp_all add: store_kill_buffer_def)

lemma store_kill_buffer_ok [simp]: "ta_ok (store_kill_buffer t k A) \<longleftrightarrow> ta_ok A"
  by (simp add: ta_ok_def ids_ok_def cache_ok_def cong: option.case_cong)

lemma kill_range_safe:
  assumes "ta_ok A" "is_char_boundary (ta_text A) a" "is_char_boundary (ta_text A) b"
  shows "safe A (kill_range_with_kind (a, b) k A)"
proof -
  obtain a' b' where e: "expand_range_to_element_boundaries (ta_elements A) (a, b) = (a', b')"
    by fastforce
  note x = expand_range_boundaries [OF ta_okD(2) [OF assms(1)] assms(2,3) e]
  show ?thesis
  proof (cases "a' < b'")
    case True
    then obtain r where r: "str_slice a' b' (ta_text A) = Some r"
      using x by (meson slice_defined less_imp_le)
    have "safe (store_kill_buffer r k A) (replace_range_raw (a', b') [] (store_kill_buffer r k A))"
      using x True assms(1) by (intro replace_range_raw_safe) auto
    then have "safe A (replace_range_raw (a', b') [] (store_kill_buffer r k A))"
      by (rule safe_from) simp_all
    then show ?thesis using True r assms(1) by (simp add: kill_range_with_kind_def e)
  qed (use assms(1) in \<open>simp add: kill_range_with_kind_def e\<close>)
qed

lemma yank_range_safe:
  assumes "ta_ok A" "is_char_boundary (ta_text A) a" "is_char_boundary (ta_text A) b"
  shows "safe A (yank_range_with_kind (a, b) k A)"
proof -
  obtain a' b' where e: "expand_range_to_element_boundaries (ta_elements A) (a, b) = (a', b')"
    by fastforce
  note x = expand_range_boundaries [OF ta_okD(2) [OF assms(1)] assms(2,3) e]
  show ?thesis
  proof (cases "a' < b'")
    case True
    then obtain r where r: "str_slice a' b' (ta_text A) = Some r"
      using x by (meson slice_defined less_imp_le)
    have "safe A (Some (store_kill_buffer r k A))"
      using assms(1) ta_okD(1) by (intro safe_same) simp_all
    then show ?thesis using True r assms(1) by (simp add: yank_range_with_kind_def e)
  qed (use assms(1) in \<open>simp add: yank_range_with_kind_def e\<close>)
qed

lemma yank_safe [simp]: "ta_ok A \<Longrightarrow> safe A (yank A)"
  by (simp add: yank_def)

end
