(* ===== verification/Text_Area_Positions.thy ===== *)
theory Text_Area_Positions
  imports Text_Area_Edits
begin

section \<open>Positions of the text area\<close>

text \<open>
  Every position the text area computes for a line, a grapheme, a word or a wrapped row lies on a
  char boundary of its text, and wrapping gives rows in order.
\<close>

subsection \<open>Positions found by searching\<close>

lemma slice_to_boundary:
  assumes "slice_to p s = Some r" "is_char_boundary r j" shows "is_char_boundary s j"
proof -
  obtain b where "s = r @ b" using assms(1) by (auto simp: slice_to_def split_at_byte_Some)
  then show ?thesis using assms(2) boundary_prefix boundary_le by metis
qed

lemma slice_from_boundary:
  assumes "slice_from p s = Some r" "is_char_boundary r j" shows "is_char_boundary s (p + j)"
proof -
  obtain a where "s = a @ r" "utf8_len a = p"
    using assms(1) by (auto simp: slice_from_def split_at_byte_Some)
  then show ?thesis using assms(2) boundary_shift by metis
qed

lemma str_slice_boundary:
  assumes "str_slice a b s = Some r" "is_char_boundary r j" shows "is_char_boundary s (a + j)"
  using assms slice_to_boundary slice_from_boundary
  by (auto simp: str_slice_def bind_eq_Some_conv split: if_splits)

lemma boundary_mid: "s = a @ c # b \<Longrightarrow> is_char_boundary s (utf8_len a + char_len_utf8 c)"
  using boundary_append(1) [of "a @ [c]" b] by simp

lemma find_char_boundary:
  assumes "find_char P s = Some (i, c)"
  shows "is_char_boundary s i" "is_char_boundary s (i + char_len_utf8 c)" "P c"
  using find_char_SomeD [OF assms] boundary_mid by auto

lemma rfind_char_boundary:
  assumes "rfind_char P s = Some (i, c)"
  shows "is_char_boundary s i" "is_char_boundary s (i + char_len_utf8 c)" "P c"
  using rfind_char_SomeD [OF assms] boundary_mid by auto

lemma LF_len [simp]: "char_len_utf8 10 = 1"
  by (simp add: char_len_utf8_def)

lemma segmentation_piece:
  assumes "segmentation k gs s" "(i, g) \<in> set gs"
  shows "\<exists>a b. s = a @ g @ b \<and> i = k + utf8_len a"
  using assms
proof (induction gs arbitrary: k s)
  case (Cons x gs)
  obtain j h where x: "x = (j, h)" by fastforce
  have s: "s = h @ drop (length h) s" "j = k"
    using Cons.prems(1) x by (auto simp: starts_with_def) (metis append_take_drop_id)
  show ?case
  proof (cases "(i, g) = (j, h)")
    case True
    then have "s = [] @ g @ drop (length h) s \<and> i = k + utf8_len []" using s by simp
    then show ?thesis by blast
  next
    case False
    then obtain a b where "drop (length h) s = a @ g @ b" "i = k + utf8_len h + utf8_len a"
      using Cons.IH [of "k + utf8_len h" "drop (length h) s"] Cons.prems x by auto
    then have "s = (h @ a) @ g @ b \<and> i = k + utf8_len (h @ a)" using s by simp
    then show ?thesis by blast
  qed
qed simp

lemma segmentation_boundary:
  assumes "segmentation 0 gs s" "(i, g) \<in> set gs"
  shows "is_char_boundary s i" "is_char_boundary s (i + utf8_len g)"
  using segmentation_piece [OF assms] by auto

lemma segment_pieces_in:
  assumes "(i, p) \<in> set (segment_pieces start sep piece cs)"
  shows "\<exists>a b. piece @ cs = a @ p @ b \<and> i = start + utf8_len a"
  using assms
proof (induction start sep piece cs rule: segment_pieces.induct)
  case (1 start sep piece)
  then have "piece @ [] = [] @ p @ [] \<and> i = start + utf8_len []" by simp
  then show ?case by blast
next
  case (2 start sep piece c cs)
  show ?case
  proof (cases "is_word_separator c = sep")
    case True
    then show ?thesis using 2 by auto
  next
    case False
    consider "(i, p) = (start, piece)"
      | "(i, p) \<in> set (segment_pieces (start + utf8_len piece) (is_word_separator c) [c] cs)"
      using 2(3) False by auto
    then show ?thesis
    proof cases
      case 1
      then have "piece @ c # cs = [] @ p @ (c # cs) \<and> i = start + utf8_len []" by simp
      then show ?thesis by blast
    next
      case 2
      then obtain a b where "[c] @ cs = a @ p @ b" "i = start + utf8_len piece + utf8_len a"
        using \<open>_ \<Longrightarrow> _ \<Longrightarrow> \<exists>a b. [c] @ cs = a @ p @ b \<and> _\<close> [OF False] by blast
      then have "piece @ c # cs = (piece @ a) @ p @ b \<and> i = start + utf8_len (piece @ a)" by simp
      then show ?thesis by blast
    qed
  qed
qed

lemma split_word_pieces_boundary:
  assumes "unicode_ok u" "(i, p) \<in> set (split_word_pieces u run)"
  shows "is_char_boundary run i" "is_char_boundary run (i + utf8_len p)"
proof -
  obtain k c cs where k: "(k, c # cs) \<in> set (split_word_bound_indices u run)"
    and p: "(i, p) \<in> set (segment_pieces k (is_word_separator c) [c] cs)"
    using assms(2) by (auto simp: split_word_pieces_def split: list.splits)
  have "segmentation 0 (split_word_bound_indices u run) run" using assms(1) by (simp add: unicode_ok_def)
  then obtain a b where a: "run = a @ (c # cs) @ b" "k = utf8_len a"
    using segmentation_piece k by fastforce
  obtain x y where x: "[c] @ cs = x @ p @ y" "i = k + utf8_len x"
    using segment_pieces_in [OF p] by blast
  then have "run = (a @ x) @ p @ y @ b" "i = utf8_len (a @ x)" using a by simp_all
  then show "is_char_boundary run i" "is_char_boundary run (i + utf8_len p)"
    by (simp_all only: boundary_append boundary_append3)
qed

subsection \<open>Lines and graphemes\<close>

abbreviation on_boundary :: "text_area \<Rightarrow> nat \<Rightarrow> bool" where
  "on_boundary A p \<equiv> is_char_boundary (ta_text A) p"

lemma beginning_of_line_ok:
  assumes "on_boundary A p"
  obtains q where "beginning_of_line p A = Some q" "q \<le> p" "on_boundary A q"
    "0 < q \<Longrightarrow> on_boundary A (q - 1)"
proof -
  obtain a b where a: "ta_text A = a @ b" "utf8_len a = p" "slice_to p (ta_text A) = Some a"
    using slice_to_defined [OF assms] by metis
  show ?thesis
  proof (cases "rfind_char (\<lambda>c. c = LF) a")
    case None
    then show ?thesis using a that [of 0] by (simp add: beginning_of_line_def)
  next
    case (Some ic)
    obtain i c where ic: "ic = (i, c)" by fastforce
    note f = rfind_char_boundary [OF Some [unfolded ic]]
    have "is_char_boundary a i" "is_char_boundary a (i + 1)" using f by auto
    then show ?thesis using a Some ic that [of "i + 1"] slice_to_boundary [OF a(3)]
        boundary_le [of a "i + 1"] by (simp add: beginning_of_line_def)
  qed
qed

lemma end_of_line_ok:
  assumes "on_boundary A p"
  obtains q where "end_of_line p A = Some q" "p \<le> q" "q \<le> ta_len A" "on_boundary A q"
    "q < ta_len A \<Longrightarrow> on_boundary A (q + 1)"
proof -
  obtain a b where a: "ta_text A = a @ b" "utf8_len a = p" "slice_from p (ta_text A) = Some b"
    using slice_to_defined [OF assms] by metis
  show ?thesis
  proof (cases "find_char (\<lambda>c. c = LF) b")
    case None
    then show ?thesis using a that [of "ta_len A"] boundary_append(2) [of "ta_text A"]
      by (simp add: end_of_line_def)
  next
    case (Some ic)
    obtain i c where ic: "ic = (i, c)" by fastforce
    note f = find_char_boundary [OF Some [unfolded ic]]
    have "is_char_boundary b i" "is_char_boundary b (i + 1)" using f by auto
    then have "on_boundary A (p + i)" "on_boundary A (p + (i + 1))"
      using slice_from_boundary [OF a(3)] by blast+
    then show ?thesis using a Some ic that [of "i + p"] boundary_le [of b i] f(1)
      by (simp add: end_of_line_def add.commute)
  qed
qed

lemma first_non_blank_ok:
  assumes "ta_ok A"
  obtains q where "first_non_blank_of_current_line A = Some q" "on_boundary A q"
proof -
  note c = ta_okD(1) [OF assms]
  obtain bol where b: "beginning_of_line (ta_cursor A) A = Some bol" "bol \<le> ta_cursor A"
    "on_boundary A bol"
    using beginning_of_line_ok [OF c] by metis
  obtain eol where e: "end_of_line (ta_cursor A) A = Some eol" "ta_cursor A \<le> eol" "on_boundary A eol"
    using end_of_line_ok [OF c] by metis
  obtain l where l: "str_slice bol eol (ta_text A) = Some l"
    using slice_defined [OF b(3) e(3)] b(2) e(2) by (metis le_trans)
  show ?thesis
    using that b e l find_char_boundary(1) [of "\<lambda>c. \<not> is_whitespace c" l]
      str_slice_boundary [OF l]
    by (cases "find_char (\<lambda>c. \<not> is_whitespace c) l")
      (auto simp: first_non_blank_of_current_line_def beginning_of_current_line_def
        end_of_current_line_def)
qed

lemma find_element:
  assumes "elements_ok s es" "List.find P es = Some e"
  shows "el_start e \<le> el_end e \<and> is_char_boundary s (el_start e) \<and> is_char_boundary s (el_end e) \<and> P e"
  using find_in_set [OF assms(2)] elements_okD [OF assms(1)] by auto

lemma prev_atomic_boundary_ok:
  assumes "unicode_ok u" "ta_ok A" "on_boundary A p"
  shows "on_boundary A (prev_atomic_boundary u A p) \<and> prev_atomic_boundary u A p \<le> p"
proof (cases "p = 0")
  case False
  note els = ta_okD(2) [OF assms(2)]
  obtain b where b: "prev_boundary u (ta_text A) p = Boundary b" "b < p" "on_boundary A b"
    using assms(1,3) False unfolding unicode_ok_def by blast
  show ?thesis
  proof (cases "List.find (\<lambda>e. el_start e < p \<and> p \<le> el_end e) (ta_elements A)")
    case None
    then show ?thesis using False b
      by (auto simp: prev_atomic_boundary_def find_element_containing_def
          dest!: find_element [OF els] split: option.splits)
  next
    case (Some e)
    then show ?thesis using False find_element [OF els Some] by (simp add: prev_atomic_boundary_def)
  qed
qed (simp add: prev_atomic_boundary_def)

lemma next_atomic_boundary_ok:
  assumes "unicode_ok u" "ta_ok A" "on_boundary A p"
  shows "on_boundary A (next_atomic_boundary u A p) \<and> p \<le> next_atomic_boundary u A p"
proof (cases "p < ta_len A")
  case True
  note els = ta_okD(2) [OF assms(2)]
  obtain b where b: "next_boundary u (ta_text A) p = Boundary b" "p < b" "on_boundary A b"
    using assms(1,3) True unfolding unicode_ok_def by blast
  show ?thesis
  proof (cases "List.find (\<lambda>e. el_start e \<le> p \<and> p < el_end e) (ta_elements A)")
    case None
    then show ?thesis using True b
      by (auto simp: next_atomic_boundary_def find_element_containing_def
          dest!: find_element [OF els] split: option.splits)
  next
    case (Some e)
    then show ?thesis using True find_element [OF els Some] by (simp add: next_atomic_boundary_def)
  qed
next
  case False
  then show ?thesis using boundary_le [OF assms(3)] by (simp add: next_atomic_boundary_def)
qed

lemma adjust_pos_ok:
  assumes "ta_ok A" "on_boundary A p" shows "on_boundary A (adjust_pos_out_of_elements A p b)"
  using assms(2) find_element_SomeD elements_okD [OF ta_okD(2) [OF assms(1)]]
  by (auto simp: adjust_pos_out_of_elements_def split: option.splits)

subsection \<open>Words\<close>

definition pos_ok :: "text_area \<Rightarrow> nat option \<Rightarrow> bool" where
  "pos_ok A r \<longleftrightarrow> (\<exists>p. r = Some p \<and> on_boundary A p)"

lemma pos_ok_Some [simp]: "pos_ok A (Some p) \<longleftrightarrow> on_boundary A p"
  by (simp add: pos_ok_def)

lemma pos_okE:
  assumes "pos_ok A r" obtains p where "r = Some p" "on_boundary A p"
  using assms by (auto simp: pos_ok_def)

lemma boundary_len [simp]: "on_boundary A (ta_len A)"
  by (rule boundary_append)

lemma separators_before_ok:
  assumes "\<And>i p. (i, p) \<in> set ps \<Longrightarrow> on_boundary A (k + i)" "on_boundary A st"
  shows "on_boundary A (separators_before k st ps)"
  using assms by (induction k st ps rule: separators_before.induct) auto

lemma separators_after_ok:
  assumes "\<And>i p. (i, p) \<in> set ps \<Longrightarrow> on_boundary A (k + i + utf8_len p)" "on_boundary A st"
  shows "on_boundary A (separators_after k st ps)"
  using assms by (induction k st ps rule: separators_after.induct) auto

lemma previous_word_in_run:
  assumes "unicode_ok u" "ta_ok A" "str_slice k e pre = Some run" "on_boundary A k"
    and "\<And>j. is_char_boundary pre j \<Longrightarrow> on_boundary A j"
  shows "pos_ok A (case rev (split_word_pieces u run) of
      [] \<Rightarrow> Some k
    | (piece_start, piece) # pieces \<Rightarrow>
        let start = k + piece_start;
            start = (if list_all is_word_separator piece
                     then separators_before k start pieces else start)
        in Some (adjust_pos_out_of_elements A start True))"
proof -
  have b: "on_boundary A (k + i)" if "(i, p) \<in> set (rev (split_word_pieces u run))" for i p
    using split_word_pieces_boundary(1) [OF assms(1), of i p run] that
      str_slice_boundary [OF assms(3)] assms(5) by simp
  show ?thesis
  proof (cases "rev (split_word_pieces u run)")
    case (Cons x ps)
    obtain i p where x: "x = (i, p)" by fastforce
    have "on_boundary A (k + i)" "\<And>i p. (i, p) \<in> set ps \<Longrightarrow> on_boundary A (k + i)"
      using b Cons x by auto
    then show ?thesis using adjust_pos_ok [OF assms(2)] separators_before_ok [of ps A k "k + i"]
      by (simp add: Cons x Let_def)
  qed (simp add: assms(4))
qed

lemma beginning_of_previous_word_ok:
  assumes "unicode_ok u" "ta_ok A"
  shows "pos_ok A (beginning_of_previous_word u A)"
proof -
  obtain pre where pre: "slice_to (ta_cursor A) (ta_text A) = Some pre"
    using slice_to_defined [OF ta_okD(1) [OF assms(2)]] by metis
  show ?thesis
  proof (cases "rfind_char (\<lambda>c. \<not> is_whitespace c) pre")
    case None
    then show ?thesis by (simp add: beginning_of_previous_word_def pre)
  next
    case (Some ic)
    obtain i c where ic: "ic = (i, c)" by fastforce
    note f = rfind_char_boundary [OF Some [unfolded ic]]
    obtain before where before: "slice_to i pre = Some before" "utf8_len before = i"
      using slice_to_defined [OF f(1)] by metis
    define k where "k = (case rfind_char is_whitespace before of
        None \<Rightarrow> 0 | Some (idx, c) \<Rightarrow> idx + char_len_utf8 c)"
    have kb: "is_char_boundary before k"
      using rfind_char_boundary(2) [of is_whitespace before]
      by (auto simp: k_def split: option.splits)
    have kp: "is_char_boundary pre k" by (rule slice_to_boundary [OF before(1) kb])
    have "k \<le> i + char_len_utf8 c" using boundary_le [OF kb] before(2) by simp
    then obtain run where run: "str_slice k (i + char_len_utf8 c) pre = Some run"
      using slice_defined [OF kp f(2)] by metis
    show ?thesis
      using previous_word_in_run [OF assms run slice_to_boundary [OF pre kp] slice_to_boundary [OF pre]]
      by (simp add: beginning_of_previous_word_def pre Some ic before(1) run flip: k_def)
  qed
qed

lemma next_word_in_run:
  assumes "unicode_ok u" "ta_ok A" "slice_to e rest = Some run" "on_boundary A k"
    and "\<And>j. is_char_boundary rest j \<Longrightarrow> on_boundary A (k + j)"
  shows "pos_ok A (case split_word_pieces u run of
      [] \<Rightarrow> Some k
    | (start, piece) # pieces \<Rightarrow>
        let stop = k + start + utf8_len piece;
            stop = (if list_all is_word_separator piece
                    then separators_after k stop pieces else stop)
        in Some (adjust_pos_out_of_elements A stop False))"
proof -
  have b: "on_boundary A (k + i + utf8_len p)" if "(i, p) \<in> set (split_word_pieces u run)" for i p
    using split_word_pieces_boundary(2) [OF assms(1) that] slice_to_boundary [OF assms(3)]
      assms(5) [of "i + utf8_len p"] by (simp add: add.assoc)
  show ?thesis
  proof (cases "split_word_pieces u run")
    case (Cons x ps)
    obtain i p where x: "x = (i, p)" by fastforce
    have "on_boundary A (k + i + utf8_len p)"
      "\<And>i p. (i, p) \<in> set ps \<Longrightarrow> on_boundary A (k + i + utf8_len p)"
      using b Cons x by auto
    then show ?thesis
      using adjust_pos_ok [OF assms(2)] separators_after_ok [of ps A k "k + i + utf8_len p"]
      by (simp add: Cons x Let_def)
  qed (simp add: assms(4))
qed

lemma end_of_next_word_from_ok:
  assumes "unicode_ok u" "ta_ok A" "on_boundary A q"
  shows "pos_ok A (end_of_next_word_from u A q)"
proof -
  obtain suf where suf: "slice_from q (ta_text A) = Some suf"
    using slice_to_defined [OF assms(3)] by metis
  show ?thesis
  proof (cases "find_char (\<lambda>c. \<not> is_whitespace c) suf")
    case None
    then show ?thesis by (simp add: end_of_next_word_from_def suf)
  next
    case (Some ic)
    obtain i c where ic: "ic = (i, c)" by fastforce
    note f = find_char_boundary [OF Some [unfolded ic]]
    obtain rest where rest: "slice_from i suf = Some rest"
      using slice_to_defined [OF f(1)] by metis
    have b: "on_boundary A (q + i + j)" if "is_char_boundary rest j" for j
      using slice_from_boundary [OF suf slice_from_boundary [OF rest that]] by (simp add: add.assoc)
    define e where "e = (case find_char is_whitespace rest of
        None \<Rightarrow> utf8_len rest | Some (i, _) \<Rightarrow> i)"
    have "is_char_boundary rest e"
      using find_char_boundary(1) [of is_whitespace rest]
      by (auto simp: e_def split: option.splits)
    then obtain run where run: "slice_to e rest = Some run"
      using slice_to_defined by metis
    show ?thesis
      using next_word_in_run [OF assms(1,2) run _ b] b [of 0]
      by (simp add: end_of_next_word_from_def suf Some ic rest run flip: e_def)
  qed
qed

lemma end_of_next_word_ok:
  "unicode_ok u \<Longrightarrow> ta_ok A \<Longrightarrow> pos_ok A (end_of_next_word u A)"
  by (simp add: end_of_next_word_def end_of_next_word_from_ok ta_okD(1))

lemma beginning_of_next_word_ok:
  assumes "unicode_ok u" "ta_ok A"
  shows "pos_ok A (beginning_of_next_word u A)"
proof -
  note adj = adjust_pos_ok [OF assms(2)]
  obtain suf where suf: "slice_from (ta_cursor A) (ta_text A) = Some suf"
    using slice_to_defined [OF ta_okD(1) [OF assms(2)]] by metis
  obtain stop where stop: "end_of_next_word u A = Some stop" "on_boundary A stop"
    using end_of_next_word_ok [OF assms] by (rule pos_okE)
  obtain rest where rest: "slice_from stop (ta_text A) = Some rest"
    using slice_to_defined [OF stop(2)] by metis
  have f: "on_boundary A (k + i)"
    if "slice_from k (ta_text A) = Some r" "find_char P r = Some (i, c)" for k r P i c
    using slice_from_boundary [OF that(1) find_char_boundary(1) [OF that(2)]] .
  show ?thesis
    using f [OF suf] f [OF rest]
    by (auto simp: beginning_of_next_word_def suf stop rest Let_def adj split: option.splits)
qed

lemma vim_word_end_exclusive_ok:
  assumes "unicode_ok u" "ta_ok A"
  shows "pos_ok A (vim_word_end_exclusive u A)"
proof -
  obtain stop where stop: "end_of_next_word u A = Some stop" "on_boundary A stop"
    using end_of_next_word_ok [OF assms] by (rule pos_okE)
  show ?thesis using end_of_next_word_from_ok [OF assms stop(2)] stop
    by (simp add: vim_word_end_exclusive_def Let_def)
qed

lemma vim_word_end_cursor_ok:
  assumes "unicode_ok u" "ta_ok A"
  shows "pos_ok A (vim_word_end_cursor u A)"
proof -
  obtain stop where stop: "vim_word_end_exclusive u A = Some stop" "on_boundary A stop"
    using vim_word_end_exclusive_ok [OF assms] by (rule pos_okE)
  show ?thesis using prev_atomic_boundary_ok [OF assms stop(2)] stop
    by (simp add: vim_word_end_cursor_def)
qed

lemma current_line_ok:
  assumes "ta_ok A"
  obtains bol eol where "beginning_of_current_line A = Some bol" "end_of_current_line A = Some eol"
    "on_boundary A bol" "on_boundary A eol" "bol \<le> ta_cursor A" "ta_cursor A \<le> eol"
    "eol \<le> ta_len A" "0 < bol \<Longrightarrow> on_boundary A (bol - 1)"
    "eol < ta_len A \<Longrightarrow> on_boundary A (eol + 1)"
  using beginning_of_line_ok [OF ta_okD(1) [OF assms]] end_of_line_ok [OF ta_okD(1) [OF assms]]
  unfolding beginning_of_current_line_def end_of_current_line_def by metis

lemma vim_line_end_cursor_ok:
  assumes "unicode_ok u" "ta_ok A"
  shows "pos_ok A (vim_line_end_cursor u A)"
proof -
  obtain bol eol where l: "beginning_of_current_line A = Some bol" "end_of_current_line A = Some eol"
    "on_boundary A bol" "on_boundary A eol"
    using current_line_ok [OF assms(2)] by metis
  then show ?thesis using prev_atomic_boundary_ok [OF assms l(4)]
    by (simp add: vim_line_end_cursor_def max_def)
qed

lemmas word_positions =
  beginning_of_previous_word_ok end_of_next_word_ok beginning_of_next_word_ok
  vim_word_end_exclusive_ok vim_word_end_cursor_ok vim_line_end_cursor_ok

subsection \<open>Rows\<close>

lemma rows_ok_nth:
  assumes "rows_ok s lo rs" "i < length rs"
  shows "lo \<le> fst (rs ! i) \<and> fst (rs ! i) < snd (rs ! i) \<and> is_char_boundary s (fst (rs ! i)) \<and>
    is_char_boundary s (snd (rs ! i) - 1)"
  using assms
proof (induction rs arbitrary: lo i)
  case (Cons r rs)
  obtain a b where r: "r = (a, b)" by fastforce
  show ?case
  proof (cases i)
    case (Suc j)
    then show ?thesis using Cons.IH [of "b - 1" j] Cons.prems r by auto
  qed (use Cons.prems r in simp)
qed simp

lemma rows_ok_mono: "rows_ok s lo rs \<Longrightarrow> lo' \<le> lo \<Longrightarrow> rows_ok s lo' rs"
  by (cases rs) auto

lemma split_at_byte_map:
  assumes "\<And>c. char_len_utf8 (f c) = char_len_utf8 c"
  shows "split_at_byte p (map f s) = map_option (map_prod (map f) (map f)) (split_at_byte p s)"
  by (induction s arbitrary: p) (simp_all add: assms split: option.split prod.split)

lemma display_boundary [simp]:
  "is_char_boundary (text_for_display s) p \<longleftrightarrow> is_char_boundary s p"
proof -
  have "char_len_utf8 (if c = 9 then 32 else c) = char_len_utf8 c" for c
    by (simp add: char_len_utf8_def)
  then show ?thesis
    by (simp add: is_char_boundary_def text_for_display_def split_at_byte_map)
qed

lemma rows_ok_display [simp]: "rows_ok (text_for_display s) lo rs \<longleftrightarrow> rows_ok s lo rs"
  by (induction rs arbitrary: lo) auto

lemma rows_cover_display [simp]: "rows_cover (text_for_display s) rs \<longleftrightarrow> rows_cover s rs"
  by (simp add: rows_cover_def)

lemma segmentation_offsets:
  "segmentation k gs s \<Longrightarrow> sorted (map fst gs) \<and> (\<forall>x \<in> set gs. k \<le> fst x)"
  by (induction k gs s rule: segmentation.induct) fastforce+

lemma refine_line_ok:
  assumes "refine_line u w base ls lw gs = (rows, st, lw')" "sorted (map fst gs)"
    and "\<forall>x \<in> set gs. ls \<le> base + fst x \<and> base + fst x \<le> e \<and> is_char_boundary s (base + fst x)"
    and "lo \<le> ls" "ls \<le> e" "is_char_boundary s ls" "is_char_boundary s e" "rows_ok s e R"
  shows "rows_ok s lo (rows @ (st, e + 1) # R)"
  using assms
proof (induction gs arbitrary: lo ls lw rows)
  case (Cons x gs)
  obtain o1 g where x: "x = (o1, g)" by fastforce
  show ?case
  proof (cases "0 < lw \<and> w < lw + display_width u g")
    case True
    obtain rows1 where r: "refine_line u w base (base + o1) (display_width u g) gs = (rows1, st, lw')"
      "rows = (ls, base + o1 + 1) # rows1"
      using Cons.prems(1) True x by (auto simp: Let_def split: prod.splits)
    have "rows_ok s (base + o1) (rows1 @ (st, e + 1) # R)"
      using Cons.prems x by (intro Cons.IH [OF r(1)]) auto
    then show ?thesis using r(2) Cons.prems x by simp
  next
    case False
    then have "refine_line u w base ls (lw + display_width u g) gs = (rows, st, lw')"
      using Cons.prems(1) x by (auto simp: Let_def)
    then show ?thesis using Cons.prems by (intro Cons.IH) auto
  qed
qed simp

lemma refine_line_start:
  "refine_line u w base ls lw gs = (rows, st, lw') \<Longrightarrow> fst (hd (rows @ (st, e) # R)) = ls"
  by (induction gs arbitrary: ls lw rows) (auto simp: Let_def split: if_splits prod.splits)

lemma refine_wrapped_lines_ok:
  assumes "unicode_ok u" "rows_ok s lo rs"
  shows "\<exists>ys. refine_wrapped_lines u w s rs = Some ys \<and> rows_ok s lo ys \<and>
    (rs \<noteq> [] \<longrightarrow> ys \<noteq> [] \<and> fst (hd ys) = fst (hd rs))"
  using assms(2)
proof (induction rs arbitrary: lo)
  case (Cons r rs)
  obtain a b where r: "r = (a, b)" by fastforce
  have ab: "lo \<le> a" "a \<le> b - 1" "b - 1 + 1 = b" "is_char_boundary s a" "is_char_boundary s (b - 1)"
    "rows_ok s (b - 1) rs"
    using Cons.prems r by auto
  obtain ys where ys: "refine_wrapped_lines u w s rs = Some ys" "rows_ok s (b - 1) ys"
    using Cons.IH [OF ab(6)] by blast
  obtain l where l: "str_slice a (b - 1) s = Some l" "b - 1 = a + utf8_len l"
    using slice_defined [OF ab(4,5,2)] by metis
  obtain rows st lw where ref: "refine_line u w a a 0 (grapheme_indices u l) = (rows, st, lw)"
    by (metis prod_cases3)
  have seg: "segmentation 0 (grapheme_indices u l) l" using assms(1) by (simp add: unicode_ok_def)
  have g: "a \<le> a + fst x \<and> a + fst x \<le> b - 1 \<and> is_char_boundary s (a + fst x)"
    if "x \<in> set (grapheme_indices u l)" for x
    using segmentation_boundary(1) [OF seg, of "fst x" "snd x"] that l
      str_slice_boundary [OF l(1)] boundary_le by auto
  have "rows_ok s lo (rows @ (st, b - 1 + 1) # R)" if "rows_ok s (b - 1) R" for R
    using segmentation_offsets [OF seg] g ab that by (intro refine_line_ok [OF ref]) auto
  moreover have "rows_ok s (b - 1)
      ((if w \<le> lw \<and> line_ends_at s (b - 1) then [(b - 1, b - 1 + 1)] else []) @ ys)"
    using ys(2) ab(5) by simp
  ultimately have "rows_ok s lo (rows @ (st, b - 1 + 1) #
      (if w \<le> lw \<and> line_ends_at s (b - 1) then [(b - 1, b - 1 + 1)] else []) @ ys)" by blast
  then show ?case using ys(1) r l(1) ref refine_line_start [OF ref]
    by (auto simp: refine_wrapped_line_def Let_def split: if_splits)
qed simp

lemma wrapped_lines_safe:
  assumes "unicode_ok u" "ta_ok A"
  obtains ls B where "wrapped_lines u w A = Some (ls, B)" "ta_ok B" "rows_cover (ta_text A) ls"
    "ta_text B = ta_text A" "ta_elements B = ta_elements A" "ta_cursor B = ta_cursor A"
    "ta_next_element_id B = ta_next_element_id A"
proof -
  note ok = assms(2) [unfolded ta_ok_def ids_ok_def cache_ok_def]
  show ?thesis
  proof (cases "\<exists>c. ta_wrap_cache A = Some c \<and> wc_width c = w")
    case True
    then obtain c where c: "ta_wrap_cache A = Some c" "wc_width c = w" by blast
    show ?thesis by (rule that [of "wc_lines c" A]) (use c assms(2) ok in \<open>simp_all add: wrapped_lines_def\<close>)
  next
    case False
    define W where "W = wrap_ranges u w (text_for_display (ta_text A))"
    have W: "rows_cover (text_for_display (ta_text A)) W"
      unfolding W_def using assms(1) by (simp only: unicode_ok_def)
    obtain ls where ls: "(if 0 < w then refine_wrapped_lines u w (text_for_display (ta_text A)) W
        else Some W) = Some ls" "rows_cover (text_for_display (ta_text A)) ls"
      using refine_wrapped_lines_ok [OF assms(1), of "text_for_display (ta_text A)" 0 W w] W
      by (cases "0 < w") (auto simp: rows_cover_def)
    have "wrapped_lines u w A =
        Some (ls, A\<lparr>ta_wrap_cache := Some \<lparr>wc_width = w, wc_lines = ls\<rparr>\<rparr>)"
      using False
      by (cases "ta_wrap_cache A")
        (simp_all add: wrapped_lines_def Let_def ls(1) [unfolded W_def] split del: if_split)
    then show ?thesis
      by (rule that) (use ok ls(2) in \<open>simp_all add: ta_ok_def ids_ok_def cache_ok_def\<close>)
  qed
qed

lemma line_index_ok:
  assumes "wrapped_line_index_by_start ls p = Some i"
  shows "i < length ls" "fst (ls ! i) \<le> p"
proof -
  define k where "k = length (takeWhile (\<lambda>r. fst r \<le> p) ls)"
  have k: "0 < k" "i = k - 1" "k \<le> length ls"
    using assms by (auto simp: wrapped_line_index_by_start_def k_def Let_def length_takeWhile_le
        split: if_splits)
  then show "i < length ls" by simp
  have "i < length (takeWhile (\<lambda>r. fst r \<le> p) ls)" using k by (simp flip: k_def)
  then show "fst (ls ! i) \<le> p" using nth_mem takeWhile_nth set_takeWhileD by metis
qed

end
