(* ===== verification/Text_Area_Correct.thy ===== *)
theory Text_Area_Correct
  imports Text_Area_Positions
begin

section \<open>Keys keep the text area well formed\<close>

text \<open>
  No key event makes the text area panic or break its invariant, and elements stay atomic: a
  surviving element has its id and text. Calls of the composer keep the invariant, rows shown
  contain the cursor, and yanking restores what was killed.
\<close>

subsection \<open>Deleting and killing\<close>

lemma safe_cursor_to: "ta_ok A \<Longrightarrow> pos_ok A r \<Longrightarrow> safe A (cursor_to r A)"
  by (auto simp: cursor_to_def pos_ok_def)

lemma boundaries_back_ok:
  assumes "unicode_ok u" "ta_ok A" "on_boundary A p"
  shows "on_boundary A (boundaries_back u A n p) \<and> boundaries_back u A n p \<le> p"
  using assms(3)
proof (induction n arbitrary: p)
  case (Suc n)
  then show ?case
    using prev_atomic_boundary_ok [OF assms(1,2) Suc.prems]
      Suc.IH [of "prev_atomic_boundary u A p"]
    by (auto simp: Let_def intro: le_trans)
qed simp

lemma boundaries_forward_ok:
  assumes "unicode_ok u" "ta_ok A" "on_boundary A p"
  shows "on_boundary A (boundaries_forward u A n p) \<and> p \<le> boundaries_forward u A n p"
  using assms(3)
proof (induction n arbitrary: p)
  case (Suc n)
  then show ?case
    using next_atomic_boundary_ok [OF assms(1,2) Suc.prems]
      Suc.IH [of "next_atomic_boundary u A p"]
    by (auto simp: Let_def intro: le_trans)
qed simp

lemma delete_safe:
  assumes "unicode_ok u" "ta_ok A"
  shows "safe A (delete_backward u n A)" "safe A (delete_forward u n A)"
    "safe A (delete_forward_kill u n A)"
  using boundaries_back_ok [OF assms ta_okD(1) [OF assms(2)], of n]
    boundaries_forward_ok [OF assms ta_okD(1) [OF assms(2)], of n] ta_okD(1) [OF assms(2)] assms(2)
  by (simp_all add: delete_backward_def delete_forward_def delete_forward_kill_def kill_range_def
      replace_range_safe kill_range_safe)

lemma delete_word_safe:
  assumes "unicode_ok u" "ta_ok A"
  shows "safe A (delete_backward_word u A)" "safe A (delete_forward_word u A)"
  using beginning_of_previous_word_ok [OF assms] end_of_next_word_ok [OF assms]
    ta_okD(1) [OF assms(2)] assms(2)
  by (auto simp: delete_backward_word_def delete_forward_word_def kill_range_def pos_ok_def
      kill_range_safe)

lemma line_range_ok:
  assumes "ta_ok A"
  obtains a b where "current_line_range_with_newline A = Some (a, b)" "on_boundary A a"
    "on_boundary A b" "a \<le> ta_cursor A" "ta_cursor A \<le> b" "0 < a \<Longrightarrow> on_boundary A (a - 1)"
proof -
  obtain bol eol where l: "beginning_of_current_line A = Some bol" "end_of_current_line A = Some eol"
    "on_boundary A bol" "on_boundary A eol" "bol \<le> ta_cursor A" "ta_cursor A \<le> eol"
    "0 < bol \<Longrightarrow> on_boundary A (bol - 1)" "eol < ta_len A \<Longrightarrow> on_boundary A (eol + 1)"
    using current_line_ok [OF assms] by metis
  show ?thesis
    by (rule that [of bol "if eol < ta_len A then eol + 1 else eol"])
      (use l in \<open>simp_all add: current_line_range_with_newline_def\<close>)
qed

lemma kill_line_safe:
  assumes "ta_ok A"
  shows "safe A (kill_current_line A)" "safe A (yank_current_line A)"
    "safe A (kill_to_end_of_line A)" "safe A (vim_kill_to_end_of_line A)"
    "safe A (kill_to_beginning_of_line A)"
proof -
  note c = ta_okD(1) [OF assms]
  obtain a b where r: "current_line_range_with_newline A = Some (a, b)" "on_boundary A a"
    "on_boundary A b"
    using line_range_ok [OF assms] by metis
  then show "safe A (kill_current_line A)" "safe A (yank_current_line A)"
    using assms
    by (simp_all add: kill_current_line_def yank_current_line_def kill_line_range_def
        yank_line_range_def kill_range_safe yank_range_safe)
  obtain bol eol where l: "beginning_of_current_line A = Some bol" "end_of_current_line A = Some eol"
    "on_boundary A bol" "on_boundary A eol"
    "0 < bol \<Longrightarrow> on_boundary A (bol - 1)" "eol < ta_len A \<Longrightarrow> on_boundary A (eol + 1)"
    using current_line_ok [OF assms] by metis
  then show "safe A (kill_to_end_of_line A)" "safe A (vim_kill_to_end_of_line A)"
    "safe A (kill_to_beginning_of_line A)"
    using assms c
    by (simp_all add: kill_to_end_of_line_def vim_kill_to_end_of_line_def
        kill_to_beginning_of_line_def kill_range_def kill_range_safe)
qed

lemma paste_after_cursor_safe:
  assumes "ta_ok A" shows "safe A (paste_after_cursor u A)"
proof -
  obtain eol where "end_of_current_line A = Some eol" using current_line_ok [OF assms] by metis
  then have "safe A (paste_line_after_current_line A)"
    using assms by (auto simp: paste_line_after_current_line_def Let_def intro!: safe_bind)
  moreover have "safe A (insert_str t (set_cursor p A))" for t p
    using safe_bind [OF safe_set_cursor [OF assms, of p], of "insert_str t"] by simp
  ultimately show ?thesis using assms by (simp add: paste_after_cursor_def Let_def)
qed

subsection \<open>Moving\<close>

lemma move_horizontal_safe:
  assumes "unicode_ok u" "ta_ok A"
  shows "safe A (Some (move_cursor_left u A))" "safe A (Some (move_cursor_right u A))"
  using prev_atomic_boundary_ok [OF assms ta_okD(1) [OF assms(2)]]
    next_atomic_boundary_ok [OF assms ta_okD(1) [OF assms(2)]] assms(2)
  by (auto simp: move_cursor_left_def move_cursor_right_def intro: safe_same)

lemma move_to_display_col_safe:
  assumes "ta_ok A" "on_boundary A a" "on_boundary A b" "a \<le> b"
  shows "safe A (move_to_display_col_on_line u a b c (A\<lparr>ta_preferred_col := p\<rparr>))"
proof -
  obtain l where "str_slice a b (ta_text A) = Some l" using slice_defined [OF assms(2-4)] by metis
  moreover have "is_char_boundary (ta_text A)
      (clamp_pos_to_nearest_boundary (A\<lparr>ta_preferred_col := p\<rparr>) q)" for q
    using clamp_nearest_ok [of "A\<lparr>ta_preferred_col := p\<rparr>" q] by simp
  ultimately show ?thesis
    using assms(1)
    by (auto simp: move_to_display_col_on_line_def Let_def intro!: safe_same)
qed

lemma slice_to_cursor:
  assumes "ta_ok A" "on_boundary A a" "a \<le> ta_cursor A"
  shows "\<exists>c. target_col_on_line u a A = Some c"
proof -
  obtain l where "str_slice a (ta_cursor A) (ta_text A) = Some l"
    using slice_defined [OF assms(2) ta_okD(1) [OF assms(1)] assms(3)] by metis
  then show ?thesis by (cases "ta_preferred_col A") (simp_all add: target_col_on_line_def)
qed

lemma preferred_col_ok:
  assumes "ta_ok A" shows "\<exists>c. preferred_or_current_col u A = Some c"
proof -
  obtain bol where l: "beginning_of_current_line A = Some bol" "on_boundary A bol" "bol \<le> ta_cursor A"
    using current_line_ok [OF assms] by metis
  obtain r where "str_slice bol (ta_cursor A) (ta_text A) = Some r"
    using slice_defined [OF l(2) ta_okD(1) [OF assms] l(3)] by metis
  then show ?thesis using l
    by (cases "ta_preferred_col A")
      (simp_all add: preferred_or_current_col_def current_display_col_def)
qed

lemma safe_to_edge:
  assumes "ta_ok A"
  shows "safe A (Some (A\<lparr>ta_cursor := 0, ta_preferred_col := None\<rparr>))"
    "safe A (Some (A\<lparr>ta_cursor := ta_len A, ta_preferred_col := None\<rparr>))"
  by (rule safe_same; use assms in simp)+

text \<open>A row of the cache, cut before the next one when that starts at its end.\<close>

lemma cut_row_ok:
  assumes "unicode_ok u" "ta_ok A" "rows_ok (ta_text A) 0 ls" "i < length ls"
  defines "a \<equiv> fst (ls ! i)" and "b \<equiv> snd (ls ! i) - 1"
  shows "on_boundary A a" "on_boundary A (if P then max (prev_atomic_boundary u A b) a else b)"
    "a \<le> (if P then max (prev_atomic_boundary u A b) a else b)"
proof -
  have r: "a \<le> b" "on_boundary A a" "on_boundary A b"
    using rows_ok_nth [OF assms(3,4)] by (auto simp: a_def b_def)
  then show "on_boundary A a" "on_boundary A (if P then max (prev_atomic_boundary u A b) a else b)"
    "a \<le> (if P then max (prev_atomic_boundary u A b) a else b)"
    using prev_atomic_boundary_ok [OF assms(1,2) r(3)] by (auto simp: max_def)
qed

lemma cached_line_ok:
  assumes "ta_ok A" "cached_line A = Some (ls, i)"
  shows "rows_ok (ta_text A) 0 ls" "i < length ls" "fst (ls ! i) \<le> ta_cursor A"
  using assms line_index_ok ta_okD(4) [OF assms(1)]
  by (auto simp: cached_line_def cache_ok_def rows_cover_def split: option.splits)

lemma line_above_below_ok:
  assumes "unicode_ok u" "ta_ok A" "rows_ok (ta_text A) 0 ls" "i < length ls"
    and "line_above u ls i A = Some (a, b) \<or> line_below u ls i A = Some (a, b)"
  shows "on_boundary A a" "on_boundary A b" "a \<le> b"
proof -
  have "\<exists>k P. k < length ls \<and> a = fst (ls ! k) \<and>
      b = (if P then max (prev_atomic_boundary u A (snd (ls ! k) - 1)) (fst (ls ! k))
           else snd (ls ! k) - 1)"
    using assms(5)
  proof
    assume "line_above u ls i A = Some (a, b)"
    then show ?thesis using assms(4) unfolding line_above_def Let_def
      by (intro exI [of _ "i - 1"] exI [of _ "snd (ls ! (i - 1)) - 1 = fst (ls ! i)"])
        (auto split: if_split_asm)
  next
    assume "line_below u ls i A = Some (a, b)"
    then show ?thesis unfolding line_below_def Let_def
      by (intro exI [of _ "i + 1"]
          exI [of _ "i + 2 < length ls \<and> fst (ls ! (i + 2)) = snd (ls ! (i + 1)) - 1"])
        (auto split: if_split_asm)
  qed
  then show "on_boundary A a" "on_boundary A b" "a \<le> b"
    using cut_row_ok [OF assms(1-3)] by blast+
qed

lemma move_on_cached_line_safe:
  assumes "unicode_ok u" "ta_ok A" "cached_line A = Some (ls, i)"
    and "\<forall>l. x = Some l \<longrightarrow> line_above u ls i A = Some l \<or> line_below u ls i A = Some l"
    and "safe A (Some B)"
  shows "safe A (Option.bind (target_col_on_line u (fst (ls ! i)) A)
    (\<lambda>col. case x of Some l \<Rightarrow> move_to_cached_line u col l A | None \<Rightarrow> Some B))"
proof -
  note c = cached_line_ok [OF assms(2,3)]
  obtain col where "target_col_on_line u (fst (ls ! i)) A = Some col"
    using slice_to_cursor [OF assms(2) _ c(3)] rows_ok_nth [OF c(1,2)] by blast
  moreover have "safe A (move_to_cached_line u col l A)" if "x = Some l" for l
    unfolding move_to_cached_line_def
    using line_above_below_ok [OF assms(1,2) c(1,2), of "fst l" "snd l"] assms(4) that
    by (intro move_to_display_col_safe [OF assms(2)]) simp_all
  ultimately show ?thesis using assms(5) by (cases x) simp_all
qed

lemma move_cursor_up_safe:
  assumes "unicode_ok u" "ta_ok A" shows "safe A (move_cursor_up u A)"
proof (cases "cached_line A")
  case None
  obtain pre where pre: "slice_to (ta_cursor A) (ta_text A) = Some pre"
    using slice_to_defined [OF ta_okD(1) [OF assms(2)]] by metis
  obtain col where col: "preferred_or_current_col u A = Some col"
    using preferred_col_ok [OF assms(2)] by blast
  show ?thesis
  proof (cases "rfind_char (\<lambda>c. c = LF) pre")
    case (Some ic)
    obtain i c where ic: "ic = (i, c)" by fastforce
    have i: "on_boundary A i"
      by (rule slice_to_boundary [OF pre rfind_char_boundary(1) [OF Some [unfolded ic]]])
    obtain q where "beginning_of_line i A = Some q" "q \<le> i" "on_boundary A q"
      using beginning_of_line_ok [OF i] by metis
    then show ?thesis using i move_to_display_col_safe [OF assms(2)]
      by (simp add: move_cursor_up_def None pre Some ic col)
  qed (use safe_to_edge [OF assms(2)] in \<open>simp add: move_cursor_up_def None pre\<close>)
next
  case (Some x)
  then show ?thesis
    using move_on_cached_line_safe [OF assms, of "fst x" "snd x" "line_above u (fst x) (snd x) A"]
      safe_to_edge [OF assms(2)]
    by (simp add: move_cursor_up_def case_prod_beta)
qed

lemma move_cursor_down_safe:
  assumes "unicode_ok u" "ta_ok A" shows "safe A (move_cursor_down u A)"
proof (cases "cached_line A")
  case None
  obtain suf where suf: "slice_from (ta_cursor A) (ta_text A) = Some suf"
    using slice_to_defined [OF ta_okD(1) [OF assms(2)]] by metis
  obtain col where col: "preferred_or_current_col u A = Some col"
    using preferred_col_ok [OF assms(2)] by blast
  show ?thesis
  proof (cases "find_char (\<lambda>c. c = LF) suf")
    case (Some ic)
    obtain i c where ic: "ic = (i, c)" by fastforce
    have "is_char_boundary suf (i + 1)" using find_char_boundary(2,3) [OF Some [unfolded ic]] by simp
    then have "on_boundary A (ta_cursor A + (i + 1))" by (rule slice_from_boundary [OF suf])
    then have i: "on_boundary A (Suc (i + ta_cursor A))" by (simp add: add.commute)
    obtain q where "end_of_line (Suc (i + ta_cursor A)) A = Some q" "Suc (i + ta_cursor A) \<le> q"
      "on_boundary A q"
      using end_of_line_ok [OF i] by metis
    then show ?thesis using i move_to_display_col_safe [OF assms(2)]
      by (simp add: move_cursor_down_def None suf Some ic col)
  qed (use safe_to_edge [OF assms(2)] col in \<open>simp add: move_cursor_down_def None suf\<close>)
next
  case (Some x)
  then show ?thesis
    using move_on_cached_line_safe [OF assms, of "fst x" "snd x" "line_below u (fst x) (snd x) A"]
      safe_to_edge [OF assms(2)]
    by (simp add: move_cursor_down_def case_prod_beta)
qed

lemma move_line_safe:
  assumes "ta_ok A"
  shows "safe A (move_cursor_to_beginning_of_line up A)" "safe A (move_cursor_to_end_of_line down A)"
proof -
  obtain bol eol where l: "beginning_of_current_line A = Some bol" "end_of_current_line A = Some eol"
    "0 < bol \<Longrightarrow> on_boundary A (bol - 1)" "eol \<le> ta_len A" "eol < ta_len A \<Longrightarrow> on_boundary A (eol + 1)"
    using current_line_ok [OF assms] by metis
  have q: "on_boundary A (bol - 1)" using l(3) by (cases bol) simp_all
  have e: "on_boundary A (min (eol + 1) (ta_len A))" using l(4,5) by (cases "eol < ta_len A") auto
  obtain p where p: "beginning_of_line (bol - 1) A = Some p" using beginning_of_line_ok [OF q] by metis
  have "safe A (Some ((set_cursor x A)\<lparr>ta_preferred_col := None\<rparr>))" for x
    using safe_set_cursor [OF assms, of x] by (simp add: set_cursor_def)
  then show "safe A (move_cursor_to_beginning_of_line up A)"
    using l p by (simp add: move_cursor_to_beginning_of_line_def)
  obtain r where r: "end_of_line (min (eol + 1) (ta_len A)) A = Some r"
    using end_of_line_ok [OF e] by metis
  then show "safe A (move_cursor_to_end_of_line down A)"
    using l assms by (simp add: move_cursor_to_end_of_line_def)
qed

subsection \<open>Text objects\<close>

definition range_on :: "text_area \<Rightarrow> nat \<times> nat \<Rightarrow> bool" where
  "range_on A r \<longleftrightarrow> on_boundary A (fst r) \<and> on_boundary A (snd r)"

definition range_ok :: "text_area \<Rightarrow> (nat \<times> nat) option option \<Rightarrow> bool" where
  "range_ok A x \<longleftrightarrow> (\<exists>r. x = Some r \<and> pred_option (range_on A) r)"

lemma range_ok_Some [simp]: "range_ok A (Some r) \<longleftrightarrow> pred_option (range_on A) r"
  by (simp add: range_ok_def)

lemma char_indices_boundary:
  assumes "(i, c) \<in> set (char_indices k s)"
  shows "\<exists>j. i = k + j \<and> is_char_boundary s j \<and> is_char_boundary s (j + char_len_utf8 c)"
  using char_indices_in [OF assms] boundary_mid by fastforce

lemma runs_loop_ok:
  assumes "r \<in> set (runs_loop (k + utf8_len t) st (char_indices k t))"
    and "\<And>s. st = Some s \<Longrightarrow> s \<le> k \<and> P s"
    and "\<And>i c. (i, c) \<in> set (char_indices k t) \<Longrightarrow> P i" "P (k + utf8_len t)"
  shows "fst r \<le> snd r \<and> P (fst r) \<and> P (snd r)"
  using assms
proof (induction t arbitrary: k st)
  case Nil
  then show ?case by (cases st) auto
next
  case (Cons c t)
  have ih: "fst r \<le> snd r \<and> P (fst r) \<and> P (snd r)"
    if "r \<in> set (runs_loop (k + char_len_utf8 c + utf8_len t) st' (char_indices (k + char_len_utf8 c) t))"
      "\<And>s. st' = Some s \<Longrightarrow> s \<le> k \<and> P s" for st'
    using that Cons.prems(3,4) by (intro Cons.IH [OF that(1)]) (auto simp: add.assoc trans_le_add1)
  have pk: "P k" using Cons.prems(3) [of k c] by simp
  show ?case
  proof (cases "is_whitespace c")
    case True
    then show ?thesis using Cons.prems(1,2) ih [of None] pk
      by (cases st) (auto simp: add.assoc)
  next
    case False
    then show ?thesis
      using Cons.prems(1,2) ih [of "case st of None \<Rightarrow> Some k | Some s \<Rightarrow> Some s"] pk
      by (cases st) (auto simp: add.assoc)
  qed
qed

lemma non_ws_runs_ok:
  assumes "r \<in> set (non_ws_runs A)" shows "fst r \<le> snd r" "range_on A r"
  using runs_loop_ok [of r 0 "ta_text A" None "on_boundary A"] assms
    char_indices_boundary [of _ _ 0 "ta_text A"]
  by (auto simp: non_ws_runs_def range_on_def)

lemma small_word_piece_ok:
  assumes "range_on A run" "pred_option (range_on A) last_piece"
    and "\<And>i p. (i, p) \<in> set ps \<Longrightarrow> range_on A (fst run + i, fst run + i + utf8_len p)"
  shows "range_on A (small_word_piece A run last_piece ps)"
  using assms
  by (induction A run last_piece ps rule: small_word_piece.induct)
    (auto simp: Let_def split: option.splits)

lemma small_word_range_ok:
  assumes "unicode_ok u" shows "range_ok A (small_word_range_at_cursor u A)"
proof (cases "List.find (cursor_on_run A) (non_ws_runs A)")
  case (Some run)
  note r = non_ws_runs_ok [OF find_in_set [OF Some, THEN conjunct1]]
  obtain t where t: "str_slice (fst run) (snd run) (ta_text A) = Some t"
    using slice_defined [of "ta_text A" "fst run" "snd run"] r unfolding range_on_def by metis
  have "range_on A (fst run + i, fst run + i + utf8_len p)"
    if "(i, p) \<in> set (split_word_pieces u t)" for i p
    using split_word_pieces_boundary [OF assms that] str_slice_boundary [OF t]
    by (simp add: range_on_def add.assoc)
  then show ?thesis using small_word_piece_ok [OF r(2), of None]
    by (simp add: small_word_range_at_cursor_def Some t)
qed (simp add: small_word_range_at_cursor_def)

lemma expand_word_around_ok:
  assumes "range_on A r" shows "range_ok A (map_option Some (expand_word_around A r))"
proof -
  obtain t where t: "slice_from (snd r) (ta_text A) = Some t"
    using slice_to_defined assms unfolding range_on_def by metis
  obtain b where b: "slice_to (fst r) (ta_text A) = Some b"
    using slice_to_defined assms unfolding range_on_def by metis
  have "is_char_boundary t (utf8_len (takeWhile is_whitespace t))"
    by (metis boundary_append(1) takeWhile_dropWhile_id)
  then have f: "on_boundary A (snd r + utf8_len (takeWhile is_whitespace t))"
    by (rule slice_from_boundary [OF t])
  have "b = trim_end b @ rev (takeWhile is_whitespace (rev b))"
    by (metis rev_append rev_rev_ident takeWhile_dropWhile_id trim_end_def)
  then have "is_char_boundary b (utf8_len (trim_end b))" by (metis boundary_append(1))
  then have "on_boundary A (utf8_len (trim_end b))" by (rule slice_to_boundary [OF b])
  then show ?thesis using f assms
    by (simp add: expand_word_around_def following_whitespace_end_def
        preceding_whitespace_start_def t b range_on_def)
qed

lemma word_object_ok:
  assumes "unicode_ok u" shows "range_ok A (word_text_object_range u A scope big)"
proof -
  define inner where
    "inner = (if big then Some (big_word_range_at_cursor A) else small_word_range_at_cursor u A)"
  have "range_ok A inner"
    using small_word_range_ok [OF assms] non_ws_runs_ok(2)
      find_in_set [of "cursor_on_run A" "non_ws_runs A"]
    by (cases "big_word_range_at_cursor A") (auto simp: inner_def big_word_range_at_cursor_def)
  then obtain x where x: "inner = Some x" "pred_option (range_on A) x" by (auto simp: range_ok_def)
  then show ?thesis
    unfolding word_text_object_range_def inner_def [symmetric]
    by (cases x; cases scope) (simp_all add: expand_word_around_ok)
qed

lemma better_candidate_ok:
  assumes "on_boundary A i" "on_boundary A (i + m)" "on_boundary A j" "on_boundary A (j + n)"
    and "pred_option (range_on A) best"
  shows "pred_option (range_on A) (better_candidate A scope i m j n best)"
  using assms by (cases scope) (auto simp: better_candidate_def range_on_def Let_def)

lemma paired_loop_ok:
  assumes "\<forall>x \<in> set cs. on_boundary A (fst x) \<and> on_boundary A (fst x + char_len_utf8 (snd x))"
    and "\<forall>i \<in> set stack. on_boundary A i \<and> on_boundary A (i + char_len_utf8 op)"
    and "pred_option (range_on A) best"
  shows "pred_option (range_on A) (paired_loop A scope op cl stack best cs)"
  using assms
proof (induction A scope op cl stack best cs rule: paired_loop.induct)
  case (2 A scope op cl stack best idx ch cs)
  then show ?case by (auto simp: better_candidate_ok split: list.split)
qed simp

lemma quoted_loop_ok:
  assumes "\<forall>x \<in> set cs. on_boundary A (fst x) \<and> on_boundary A (fst x + char_len_utf8 (snd x))"
    and "pred_option (\<lambda>i. on_boundary A i \<and> on_boundary A (i + char_len_utf8 quote)) op"
    and "pred_option (range_on A) best"
  shows "range_ok A (quoted_loop A scope quote op best cs)"
  using assms
proof (induction cs arbitrary: op best)
  case (Cons x cs)
  obtain idx ch where x: "x = (idx, ch)" by fastforce
  have b: "on_boundary A idx" "on_boundary A (idx + char_len_utf8 ch)"
    using Cons.prems(1) x by simp_all
  obtain t where t: "slice_to idx (ta_text A) = Some t" using slice_to_defined [OF b(1)] by metis
  have ih: "range_ok A (quoted_loop A scope quote op' best' cs)"
    if "pred_option (\<lambda>i. on_boundary A i \<and> on_boundary A (i + char_len_utf8 quote)) op'"
      "pred_option (range_on A) best'" for op' best'
    using Cons.IH [of op' best'] Cons.prems(1) that by simp
  show ?case
  proof (cases "is_inside_element A idx \<or> ch \<noteq> quote")
    case False
    have "pred_option (range_on A)
        (better_candidate A scope i (char_len_utf8 quote) idx (char_len_utf8 quote) best)"
      if "op = Some i" for i
      using that Cons.prems(2,3) b False by (intro better_candidate_ok) simp_all
    then show ?thesis using False x b ih Cons.prems(2,3)
      by (cases op) (simp_all add: is_escaped_def t)
  qed (use x ih Cons.prems(2,3) in simp)
qed simp

lemma text_object_range_ok:
  assumes "unicode_ok u" "ta_ok A" shows "range_ok A (text_object_range u A obj scope)"
proof -
  have p: "pred_option (range_on A) (paired_text_object_range A scope op cl)" for op cl
    unfolding paired_text_object_range_def
    by (rule paired_loop_ok) (use char_indices_boundary [of _ _ 0 "ta_text A"] in auto)
  obtain bol eol where l: "beginning_of_current_line A = Some bol" "end_of_current_line A = Some eol"
    "on_boundary A bol" "on_boundary A eol" "bol \<le> ta_cursor A" "ta_cursor A \<le> eol"
    using current_line_ok [OF assms(2)] by metis
  obtain t where t: "str_slice bol eol (ta_text A) = Some t"
    using slice_defined [OF l(3,4)] l(5,6) by (metis le_trans)
  have "on_boundary A (fst x) \<and> on_boundary A (fst x + char_len_utf8 (snd x))"
    if "x \<in> set (char_indices bol t)" for x
    using char_indices_boundary [of "fst x" "snd x" bol t] that str_slice_boundary [OF t]
    by (auto simp: add.assoc)
  then have "range_ok A (quoted_text_object_range A scope q)" for q
    using quoted_loop_ok [of "char_indices bol t" A q None None scope]
    by (simp add: quoted_text_object_range_def l t)
  then show ?thesis using p word_object_ok [OF assms(1)]
    by (cases obj) (simp_all add: text_object_range_def)
qed

subsection \<open>Operators and input\<close>

lemma linewise_range_ok:
  assumes "ta_ok A" shows "range_ok A (linewise_range_for_vertical_motion m A)"
proof -
  obtain a b where r: "current_line_range_with_newline A = Some (a, b)" "on_boundary A a"
    "on_boundary A b" "0 < a \<Longrightarrow> on_boundary A (a - 1)"
    using line_range_ok [OF assms] by metis
  have a: "on_boundary A (a - 1)" using r(4) by (cases a) simp_all
  obtain s where s: "beginning_of_line (a - 1) A = Some s" "on_boundary A s"
    using beginning_of_line_ok [OF a] by metis
  obtain e where e: "end_of_line b A = Some e" "on_boundary A e"
    "e < ta_len A \<Longrightarrow> on_boundary A (e + 1)"
    using end_of_line_ok [OF r(3)] by metis
  show ?thesis using r(1-3) s e
    by (cases m) (auto simp: linewise_range_for_vertical_motion_def range_on_def)
qed

lemma set_cursor_text [simp]: "ta_text (set_cursor p A) = ta_text A"
  by (simp add: set_cursor_def)

lemma set_cursor_ok [simp]: "is_char_boundary (ta_text A) (ta_cursor (set_cursor p A))"
  by (simp add: set_cursor_def)

lemma range_for_motion_ok:
  assumes "unicode_ok u" "ta_ok A" shows "range_ok A (range_for_motion u m A)"
proof (cases "m = MotionUp \<or> m = MotionDown")
  case True
  then show ?thesis by (auto simp: range_for_motion_def linewise_range_ok [OF assms(2)])
next
  case False
  note c = ta_okD(1) [OF assms(2)]
  obtain bol eol where l: "beginning_of_current_line A = Some bol" "end_of_current_line A = Some eol"
    using current_line_ok [OF assms(2)] by metis
  have "pos_ok A (target_for_motion u m A)"
    using False l word_positions [OF assms] prev_atomic_boundary_ok [OF assms c]
      next_atomic_boundary_ok [OF assms c]
    by (cases m)
      (auto simp: target_for_motion_def move_cursor_left_def move_cursor_right_def pos_ok_def)
  then obtain t where "target_for_motion u m A = Some t" "on_boundary A t" by (rule pos_okE)
  then show ?thesis using False c by (simp add: range_for_motion_def Let_def range_on_def)
qed

lemma apply_to_range_safe:
  assumes "ta_ok A" "range_on A r"
  shows "safe A (kill_range r A)" "safe A (yank_range r A)"
  using assms kill_range_safe [of A "fst r" "snd r"] yank_range_safe [of A "fst r" "snd r"]
  by (simp_all add: kill_range_def yank_range_def range_on_def)

lemma mode_safe:
  assumes "ta_ok A"
  shows "safe A (Some (A\<lparr>ta_vim_mode := m\<rparr>))" "safe A (Some (A\<lparr>ta_vim_pending := p\<rparr>))"
    "safe A (Some (insert_mode A))" "safe A (Some (enter_vim_normal_mode A))"
  using assms ta_okD(1) [OF assms]
  by (auto simp: insert_mode_def enter_vim_normal_mode_def intro!: safe_same)

lemma safe_insert_mode: "ta_ok A \<Longrightarrow> safe A r \<Longrightarrow> safe A (map_option insert_mode r)"
  by (rule safe_map) (simp_all add: mode_safe)

lemma apply_vim_operator_safe:
  assumes "unicode_ok u" "ta_ok A" shows "safe A (apply_vim_operator u op m A)"
proof -
  obtain r where "range_for_motion u m A = Some r" "pred_option (range_on A) r"
    using range_for_motion_ok [OF assms] by (auto simp: range_ok_def)
  then show ?thesis using assms(2) apply_to_range_safe [OF assms(2)]
    by (cases r; cases op) (simp_all add: apply_vim_operator_def)
qed

lemma apply_vim_operator_to_range_safe:
  assumes "ta_ok A" "range_on A r" shows "safe A (apply_vim_operator_to_range op r A)"
  using apply_to_range_safe [OF assms] mode_safe
  by (cases op) (auto simp: apply_vim_operator_to_range_def intro!: safe_bind)

lemma handle_vim_operator_safe:
  assumes "unicode_ok u" "ta_ok A" shows "safe A (handle_vim_operator u op e A)"
  unfolding handle_vim_operator_def Let_def
  using assms kill_line_safe [OF assms(2)] mode_safe [OF assms(2)]
    apply_vim_operator_safe [OF assms]
  by (simp split: option.split)

lemma handle_vim_text_object_safe:
  assumes "unicode_ok u" "ta_ok A" shows "safe A (handle_vim_text_object u op scope e A)"
proof (cases "vim_text_object_for_event A e")
  case (Some obj)
  obtain r where "text_object_range u A obj scope = Some r" "pred_option (range_on A) r"
    using text_object_range_ok [OF assms] by (auto simp: range_ok_def)
  then show ?thesis using assms(2) apply_vim_operator_to_range_safe [OF assms(2)]
    by (cases r) (simp_all add: handle_vim_text_object_def Some)
qed (simp add: handle_vim_text_object_def assms(2))

lemma input_with_keymap_safe:
  assumes "unicode_ok u" "ta_ok A" shows "safe A (input_with_keymap u e km A)"
proof -
  have plain: "safe A (plain_char_input e A)"
    using assms(2) by (simp add: plain_char_input_def split: key_code.split)
  have words: "safe A (cursor_to (beginning_of_previous_word u A) A)"
    "safe A (cursor_to (end_of_next_word u A) A)"
    using word_positions [OF assms] safe_cursor_to [OF assms(2)] by blast+
  show ?thesis
    unfolding input_with_keymap_def is_altgr_def if_False option.case
    using insert_str_safe [OF assms(2)] delete_word_safe [OF assms] delete_safe [OF assms]
      kill_line_safe [OF assms(2)] yank_safe [OF assms(2)] words
      move_horizontal_safe [OF assms] move_cursor_up_safe [OF assms] move_cursor_down_safe [OF assms]
      move_line_safe [OF assms(2)] plain
    by (simp only: if_split_eq1 simp_thms split: if_split)
qed

lemma vim_normal_command_safe:
  assumes "unicode_ok u" "ta_ok A" shows "safe A (vim_normal_command u e A)"
proof -
  obtain bol eol where l: "beginning_of_current_line A = Some bol" "end_of_current_line A = Some eol"
    "on_boundary A bol" "on_boundary A eol"
    using current_line_ok [OF assms(2)] by metis
  have eol: "safe A (map_option insert_mode (cursor_to (end_of_current_line A) A))"
    "safe A (cursor_to (beginning_of_current_line A) A)"
    using l safe_cursor_to [OF assms(2)] safe_insert_mode [OF assms(2)] by simp_all
  obtain q where q: "first_non_blank_of_current_line A = Some q" "on_boundary A q"
    using first_non_blank_ok [OF assms(2)] .
  have start: "safe A (map_option insert_mode (cursor_to (first_non_blank_of_current_line A) A))"
    using q by (simp add: safe_cursor_to safe_insert_mode assms(2))
  have set: "safe B (Some (insert_mode (set_cursor p B)))" if "ta_ok B" for p B
    using safe_insert_mode [OF that safe_set_cursor [OF that]] by simp
  have lines: "safe A (vim_open_line_below A)" "safe A (vim_open_line_above A)"
    using l set assms(2)
    by (auto simp: vim_open_line_below_def vim_open_line_above_def Let_def intro!: safe_bind)
  have subst: "safe A (vim_substitute_char u A)"
    using l delete_safe(3) [OF assms] assms(2) mode_safe(3)
    by (auto simp: vim_substitute_char_def intro!: safe_bind)
  have words: "safe A (cursor_to (beginning_of_next_word u A) A)"
    "safe A (cursor_to (beginning_of_previous_word u A) A)"
    "safe A (cursor_to (vim_word_end_cursor u A) A)" "safe A (cursor_to (vim_line_end_cursor u A) A)"
    using word_positions [OF assms] safe_cursor_to [OF assms(2)] by blast+
  show ?thesis
    unfolding vim_normal_command_def Let_def
    using eol start set [OF assms(2)] lines subst words mode_safe [OF assms(2)]
      move_horizontal_safe [OF assms] move_cursor_up_safe [OF assms] move_cursor_down_safe [OF assms]
      delete_safe(3) [OF assms] kill_line_safe [OF assms(2)]
      safe_insert_mode [OF assms(2) kill_line_safe(4) [OF assms(2)]]
      paste_after_cursor_safe [OF assms(2)] safe_Some [OF assms(2)]
    by (simp only: if_split_eq1 simp_thms split: if_split)
qed

lemma handle_vim_insert_safe:
  assumes "unicode_ok u" "ta_ok A" shows "safe A (handle_vim_insert u e A)"
proof (cases "ev_code e = Esc")
  case True
  obtain bol where l: "beginning_of_current_line A = Some bol" "on_boundary A bol"
    using current_line_ok [OF assms(2)] by metis
  define B where "B = (if bol < ta_cursor A
      then A\<lparr>ta_cursor := max (prev_atomic_boundary u A (ta_cursor A)) bol\<rparr> else A)"
  have "safe A (Some B)"
    using assms(2) l prev_atomic_boundary_ok [OF assms ta_okD(1) [OF assms(2)]]
    by (auto simp: B_def max_def intro!: safe_same)
  then have "safe A (map_option enter_vim_normal_mode (Some B))"
    by (rule safe_map) (simp add: mode_safe)
  then show ?thesis using True l by (simp add: handle_vim_insert_def B_def)
qed (simp add: handle_vim_insert_def input_with_keymap_safe [OF assms])

lemma handle_vim_normal_safe:
  assumes "unicode_ok u" "ta_ok A" shows "safe A (handle_vim_normal u e A)"
proof -
  have "safe A (Option.bind (Some (A\<lparr>ta_vim_pending := PendingNone\<rparr>)) f)"
    if "\<And>B. ta_ok B \<Longrightarrow> safe B (f B)" for f
    using mode_safe(2) [OF assms(2)] that by (rule safe_bind)
  then show ?thesis
    using vim_normal_command_safe handle_vim_operator_safe handle_vim_text_object_safe assms(1)
    by (cases "ta_vim_pending A") (simp_all add: handle_vim_normal_def)
qed

lemma input_safe:
  assumes "unicode_ok u" "ta_ok A" shows "safe A (input u e A)"
  using assms input_with_keymap_safe [OF assms] handle_vim_insert_safe [OF assms]
    handle_vim_normal_safe [OF assms]
  by (cases "ta_vim_mode A") (simp_all add: input_def handle_vim_input_def)

subsection \<open>Drawing\<close>

lemma all_draws_ok: "\<forall>x \<in> set xs. \<exists>ds. x = Some ds \<Longrightarrow> \<exists>ds. all_draws xs = Some ds"
  by (induction xs) auto

lemma draw_overlay_ok:
  assumes "on_boundary A a" "on_boundary A b" "on_boundary A c" "on_boundary A d"
  shows "\<exists>ds. draw_overlay u A area y (a, b) ((c, d), st) = Some ds"
proof (cases "min d b \<le> max c a")
  case False
  have b: "on_boundary A (max c a)" "on_boundary A (min d b)" using assms by (simp_all add: max_def min_def)
  obtain s where "str_slice (max c a) (min d b) (ta_text A) = Some s"
    using slice_defined [OF b] False by (metis nat_le_linear)
  moreover obtain p where "str_slice a (max c a) (ta_text A) = Some p"
    using slice_defined [OF assms(1) b(1)] by (metis max.cobounded2)
  ultimately show ?thesis using False by (simp add: draw_overlay_def Let_def)
qed (simp add: draw_overlay_def Let_def)

lemma draw_row_ok:
  assumes "ta_ok A" "on_boundary A a" "on_boundary A (b - 1)" "a \<le> b - 1"
    and "list_all (\<lambda>h. range_on A (fst h)) hs"
  shows "\<exists>ds. draw_row u A area hs row (a, b) = Some ds"
    "\<exists>ds. draw_masked_row u A area m row (a, b) = Some ds"
proof -
  obtain l where l: "str_slice a (b - 1) (ta_text A) = Some l"
    using slice_defined [OF assms(2-4)] by metis
  then show "\<exists>ds. draw_masked_row u A area m row (a, b) = Some ds"
    by (simp add: draw_masked_row_def Let_def)
  let ?y = "rect_y area + of_nat row"
  have "\<forall>x \<in> set (map (\<lambda>e. draw_overlay u A area ?y (a, b - 1) ((el_start e, el_end e), Element_Style))
      (ta_elements A) @ map (\<lambda>(h, k). draw_overlay u A area ?y (a, b - 1) (h, Highlight_Style k)) hs).
      \<exists>ds. x = Some ds"
    using draw_overlay_ok [OF assms(2,3)] elements_okD [OF ta_okD(2) [OF assms(1)]] assms(5)
    by (auto simp: list_all_iff range_on_def)
  from all_draws_ok [OF this] show "\<exists>ds. draw_row u A area hs row (a, b) = Some ds"
    using l by (auto simp: draw_row_def Let_def)
qed

lemma render_lines_ok:
  assumes "ta_ok A" "rows_ok (ta_text A) 0 ls" "snd r \<le> length ls"
    and "list_all (\<lambda>h. range_on A (fst h)) hs"
  shows "\<exists>ds. render_lines u A area ls r hs = Some ds"
    "\<exists>ds. render_lines_masked u A area ls r m = Some ds"
proof -
  have "(\<exists>ds. draw_row u A area hs row (ls ! i) = Some ds) \<and>
      (\<exists>ds. draw_masked_row u A area m row (ls ! i) = Some ds)" if "i < length ls" for row i
  proof -
    have "on_boundary A (fst (ls ! i))" "on_boundary A (snd (ls ! i) - 1)"
      "fst (ls ! i) \<le> snd (ls ! i) - 1"
      using rows_ok_nth [OF assms(2) that] by auto
    from draw_row_ok [OF assms(1) this assms(4)] show ?thesis by simp
  qed
  then show "\<exists>ds. render_lines u A area ls r hs = Some ds"
    "\<exists>ds. render_lines_masked u A area ls r m = Some ds"
    unfolding render_lines_def render_lines_masked_def
    using assms(3) by (auto intro!: all_draws_ok simp: in_set_enumerate_eq)
qed

lemma visible_range_le: "snd (visible_range area ls scroll) \<le> length ls"
proof -
  have "unat (min (scroll + rect_height area) (of_nat (length ls))) \<le>
      unat (of_nat (length ls) :: 16 word)"
    by (simp add: word_le_nat_alt [symmetric])
  also have "\<dots> \<le> length ls" by (simp add: unat_of_nat take_bit_nat_less_eq_self)
  finally show ?thesis by (simp add: visible_range_def)
qed

lemma render_safe:
  assumes "unicode_ok u" "ta_ok A" "list_all (\<lambda>h. range_on A (fst h)) hs"
  shows "safe A (map_option (snd \<circ> snd) (render_ref_styled_with_highlights u area sc hs A))"
    "safe A (map_option (snd \<circ> snd) (render_ref_masked u area sc m A))"
proof -
  obtain ls B where B: "wrapped_lines u (unat (rect_width area)) A = Some (ls, B)" "ta_ok B"
    "rows_cover (ta_text A) ls" "ta_text B = ta_text A" "ta_elements B = ta_elements A"
    "ta_next_element_id B = ta_next_element_id A"
    using wrapped_lines_safe [OF assms(1,2), of "unat (rect_width area)"] by metis
  have "safe A (Some B)" using B by (simp add: safe_def payloads_def)
  moreover have "rows_ok (ta_text B) 0 ls" "list_all (\<lambda>h. range_on B (fst h)) hs"
    using B(3,4) assms(3) by (simp_all add: rows_cover_def range_on_def)
  note draws = render_lines_ok [OF B(2) this(1) visible_range_le this(2)]
  obtain ds es where
    "render_lines u B area ls (visible_range area ls (effective_scroll (rect_height area) ls sc B)) hs
      = Some ds"
    "render_lines_masked u B area ls (visible_range area ls (effective_scroll (rect_height area) ls sc B)) m
      = Some es"
    using draws by meson
  ultimately show "safe A (map_option (snd \<circ> snd) (render_ref_styled_with_highlights u area sc hs A))"
    "safe A (map_option (snd \<circ> snd) (render_ref_masked u area sc m A))"
    using B(1) by (simp_all add: render_ref_styled_with_highlights_def render_ref_masked_def Let_def)
qed

end
