(* ===== verification/Default_Keymap.thy ===== *)
theory Default_Keymap
  imports Key_Bindings
begin

section \<open>Built-in key bindings of the text area\<close>

text \<open>
  The entries of \<^verbatim>\<open>RuntimeKeymap::built_in_defaults\<close> in \<^verbatim>\<open>tui/src/keymap.rs\<close> that the text area
  reads, and that no key triggers two actions of one of its contexts.
\<close>

definition mod_alt :: key_modifiers where "mod_alt = 4"

definition plain_key :: "key_code \<Rightarrow> key_binding" where
  "plain_key k = \<lparr>kb_key = k, kb_modifiers = mod_none\<rparr>"

definition alt_key :: "key_code \<Rightarrow> key_binding" where
  "alt_key k = \<lparr>kb_key = k, kb_modifiers = mod_alt\<rparr>"

definition shift_key :: "key_code \<Rightarrow> key_binding" where
  "shift_key k = \<lparr>kb_key = k, kb_modifiers = mod_shift\<rparr>"

definition ctrl_key :: "key_code \<Rightarrow> key_binding" where
  "ctrl_key k = \<lparr>kb_key = k, kb_modifiers = mod_control\<rparr>"

definition default_editor_keymap :: editor_keymap where
  "default_editor_keymap =
     \<lparr>insert_newline = [ctrl_key (CharKey 106), ctrl_key (CharKey 109), plain_key Enter,
        shift_key Enter, alt_key Enter],
      move_left = [plain_key LeftKey, ctrl_key (CharKey 98)],
      move_right = [plain_key RightKey, ctrl_key (CharKey 102)],
      move_up = [plain_key UpKey, ctrl_key (CharKey 112)],
      move_down = [plain_key DownKey, ctrl_key (CharKey 110)],
      move_word_left = [alt_key (CharKey 98), \<lparr>kb_key = LeftKey,
        kb_modifiers = mod_alt\<rparr>, \<lparr>kb_key = LeftKey,
        kb_modifiers = mod_control\<rparr>],
      move_word_right = [alt_key (CharKey 102), \<lparr>kb_key = RightKey,
        kb_modifiers = mod_alt\<rparr>, \<lparr>kb_key = RightKey,
        kb_modifiers = mod_control\<rparr>],
      move_line_start = [plain_key Home, ctrl_key (CharKey 97)],
      move_line_end = [plain_key End, ctrl_key (CharKey 101)],
      delete_backward_key = [plain_key Backspace, shift_key Backspace, ctrl_key (CharKey 104)],
      delete_forward_key = [plain_key Delete, shift_key Delete, ctrl_key (CharKey 100)],
      delete_backward_word_key = [alt_key Backspace, ctrl_key Backspace,
        \<lparr>kb_key = Backspace, kb_modifiers = mod_control OR mod_shift\<rparr>,
        ctrl_key (CharKey 119), \<lparr>kb_key = CharKey 104,
        kb_modifiers = mod_control OR mod_alt\<rparr>],
      delete_forward_word_key = [alt_key Delete, ctrl_key Delete, \<lparr>kb_key = Delete,
        kb_modifiers = mod_control OR mod_shift\<rparr>, alt_key (CharKey 100)],
      kill_line_start = [ctrl_key (CharKey 117)],
      kill_whole_line = [],
      kill_line_end = [ctrl_key (CharKey 107)],
      yank_key = [ctrl_key (CharKey 121)]\<rparr>"

definition default_vim_normal_keymap :: vim_normal_keymap where
  "default_vim_normal_keymap =
     \<lparr>enter_insert = [plain_key (CharKey 105), plain_key Insert],
      append_after_cursor = [plain_key (CharKey 97)],
      append_line_end = [shift_key (CharKey 97), plain_key (CharKey 65)],
      insert_line_start = [shift_key (CharKey 105), plain_key (CharKey 73)],
      open_line_below = [plain_key (CharKey 111)],
      open_line_above = [shift_key (CharKey 111), plain_key (CharKey 79)],
      vim_left = [plain_key (CharKey 104), plain_key LeftKey],
      vim_right = [plain_key (CharKey 108), plain_key RightKey],
      vim_up = [plain_key (CharKey 107), plain_key UpKey],
      vim_down = [plain_key (CharKey 106), plain_key DownKey],
      move_word_forward = [plain_key (CharKey 119)],
      move_word_backward = [plain_key (CharKey 98)],
      move_word_end = [plain_key (CharKey 101)],
      vim_line_start = [plain_key (CharKey 48)],
      vim_line_end = [plain_key (CharKey 36), shift_key (CharKey 36)],
      delete_char = [plain_key (CharKey 120)],
      substitute_char = [plain_key (CharKey 115)],
      delete_to_line_end = [shift_key (CharKey 100), plain_key (CharKey 68)],
      change_to_line_end = [shift_key (CharKey 99), plain_key (CharKey 67)],
      vim_yank_line = [shift_key (CharKey 121), plain_key (CharKey 89)],
      paste_after = [plain_key (CharKey 112)],
      start_delete_operator = [plain_key (CharKey 100)],
      start_yank_operator = [plain_key (CharKey 121)],
      start_change_operator = [plain_key (CharKey 99)],
      cancel_operator = [plain_key Esc]\<rparr>"

definition default_vim_operator_keymap :: vim_operator_keymap where
  "default_vim_operator_keymap =
     \<lparr>op_delete_line = [plain_key (CharKey 100)],
      op_yank_line = [plain_key (CharKey 121)],
      motion_left = [plain_key (CharKey 104)],
      motion_right = [plain_key (CharKey 108)],
      motion_up = [plain_key (CharKey 107)],
      motion_down = [plain_key (CharKey 106)],
      motion_word_forward = [plain_key (CharKey 119)],
      motion_word_backward = [plain_key (CharKey 98)],
      motion_word_end = [plain_key (CharKey 101)],
      motion_line_start = [plain_key (CharKey 48)],
      motion_line_end = [plain_key (CharKey 36), shift_key (CharKey 36)],
      select_inner_text_object = [plain_key (CharKey 105)],
      select_around_text_object = [plain_key (CharKey 97)],
      op_cancel = [plain_key Esc]\<rparr>"

definition default_vim_text_object_keymap :: vim_text_object_keymap where
  "default_vim_text_object_keymap =
     \<lparr>obj_word = [plain_key (CharKey 119)],
      obj_big_word = [shift_key (CharKey 119), plain_key (CharKey 87)],
      obj_parentheses = [plain_key (CharKey 40), shift_key (CharKey 40),
        plain_key (CharKey 41), shift_key (CharKey 41), plain_key (CharKey 98)],
      obj_brackets = [plain_key (CharKey 91), plain_key (CharKey 93)],
      obj_braces = [plain_key (CharKey 123), shift_key (CharKey 123), plain_key (CharKey 125),
        shift_key (CharKey 125), shift_key (CharKey 98), plain_key (CharKey 66)],
      obj_double_quote = [plain_key (CharKey 34), shift_key (CharKey 34)],
      obj_single_quote = [plain_key (CharKey 39)],
      obj_backtick = [plain_key (CharKey 96)],
      obj_cancel = [plain_key Esc]\<rparr>"

definition built_in_defaults :: keymaps where
  "built_in_defaults =
     \<lparr>km_editor = default_editor_keymap,
      km_vim_normal = default_vim_normal_keymap,
      km_vim_operator = default_vim_operator_keymap,
      km_vim_text_object = default_vim_text_object_keymap\<rparr>"

subsection \<open>No ambiguous key\<close>

definition binding_key :: "key_binding \<Rightarrow> key_code \<times> key_modifiers" where
  "binding_key b = normalize_key_parts (kb_key b) (kb_modifiers b)"

definition unambiguous :: "key_binding list list \<Rightarrow> bool" where
  "unambiguous actions = distinct (concat (map (\<lambda>bs. remdups (map binding_key bs)) actions))"

text \<open>In an unambiguous keymap an event triggers at most one action, whatever order they are tried in.\<close>

lemma unambiguous_pressed:
  assumes "unambiguous actions" "i < length actions" "j < length actions"
    and "is_pressed (actions ! i) e" "is_pressed (actions ! j) e"
  shows "i = j"
proof (rule ccontr)
  assume "i \<noteq> j"
  define f where "f = (\<lambda>bs. remdups (map binding_key bs))"
  have m: "normalize_key_parts (ev_code e) (ev_modifiers e) \<in> set (f bs)" if "is_pressed bs e" for bs
    using that by (force simp: f_def is_pressed_def list_ex_iff is_press_def binding_key_def)
  have d: "distinct (concat (map f actions))" using assms(1) by (simp add: unambiguous_def f_def)
  have "set (f (actions ! i)) \<inter> set (f (actions ! j)) = {}" if "i < j" "j < length actions" for i j
  proof -
    have "actions = take j actions @ drop j actions" by simp
    then have "distinct (concat (map f (take j actions)) @ concat (map f (drop j actions)))"
      using d by (metis concat_append map_append)
    moreover have "actions ! i \<in> set (take j actions)"
      using that by (auto simp: in_set_conv_nth)
    moreover have "actions ! j \<in> set (drop j actions)"
      using that by (auto simp: in_set_conv_nth intro: exI [of _ 0])
    ultimately show ?thesis by fastforce
  qed
  then show False using m [OF assms(4)] m [OF assms(5)] \<open>i \<noteq> j\<close> assms(2,3)
    by (metis disjoint_iff linorder_neqE_nat)
qed

definition editor_actions :: "editor_keymap \<Rightarrow> key_binding list list" where
  "editor_actions km =
     [insert_newline km, move_left km, move_right km, move_up km, move_down km, move_word_left km,
      move_word_right km, move_line_start km, move_line_end km, delete_backward_key km,
      delete_forward_key km, delete_backward_word_key km, delete_forward_word_key km,
      kill_line_start km, kill_whole_line km, kill_line_end km, yank_key km]"

definition vim_normal_actions :: "vim_normal_keymap \<Rightarrow> key_binding list list" where
  "vim_normal_actions km =
     [enter_insert km, append_after_cursor km, append_line_end km, insert_line_start km,
      open_line_below km, open_line_above km, vim_left km, vim_right km, vim_up km, vim_down km,
      move_word_forward km, move_word_backward km, move_word_end km, vim_line_start km,
      vim_line_end km, delete_char km, substitute_char km, delete_to_line_end km,
      change_to_line_end km, vim_yank_line km, paste_after km, start_delete_operator km,
      start_yank_operator km, start_change_operator km, cancel_operator km]"

lemma default_editor_unambiguous: "unambiguous (editor_actions default_editor_keymap)"
  by code_simp

lemma default_vim_normal_unambiguous: "unambiguous (vim_normal_actions default_vim_normal_keymap)"
  by code_simp

end
