(* ===== verification/Text_Area_Calls.thy ===== *)
theory Text_Area_Calls
  imports Text_Area_Correct Default_Keymap "HOL-Library.Multiset"
begin

section \<open>Calls of the composer\<close>

text \<open>
  The interface of the text area as one operation: key events, rendering, and the calls with which
  the composer replaces text and manages elements. Sequences of calls keep the invariant and never
  panic; keys and rendering leave elements as they are.
\<close>

subsection \<open>Clamping is monotone\<close>

lemma prev_char_boundary_max:
  "is_char_boundary s b \<Longrightarrow> b \<le> p \<Longrightarrow> b \<le> prev_char_boundary s p"
proof (induction s p rule: prev_char_boundary.induct)
  case (1 s p)
  show ?case
  proof (cases "0 < p \<and> \<not> is_char_boundary s p")
    case True
    then have "b \<noteq> p" using 1(2) by auto
    then show ?thesis using 1 True by (subst prev_char_boundary.simps) auto
  qed (use 1(3) in \<open>subst prev_char_boundary.simps, auto\<close>)
qed

lemma next_char_boundary_min:
  "is_char_boundary s b \<Longrightarrow> p \<le> b \<Longrightarrow> next_char_boundary s p \<le> b"
proof (induction s p rule: next_char_boundary.induct)
  case (1 s p)
  show ?case
  proof (cases "p < utf8_len s \<and> \<not> is_char_boundary s p")
    case True
    then have "b \<noteq> p" using 1(2) by auto
    then show ?thesis using 1 True by (subst next_char_boundary.simps) auto
  qed (use 1(3) in \<open>subst next_char_boundary.simps, auto\<close>)
qed

lemma clamp_char_bounds:
  assumes "p \<le> utf8_len s"
  shows "prev_char_boundary s p \<le> clamp_pos_to_char_boundary s p"
    "clamp_pos_to_char_boundary s p \<le> next_char_boundary s p"
  using prev_char_boundary_ok [of s p] next_char_boundary_ok [OF assms] assms
  by (auto simp: clamp_pos_to_char_boundary_def Let_def)

lemma clamp_char_mono:
  assumes "p \<le> q" "q \<le> utf8_len s"
  shows "clamp_pos_to_char_boundary s p \<le> clamp_pos_to_char_boundary s q"
proof -
  have p: "p \<le> utf8_len s" using assms by simp
  note np = next_char_boundary_ok [OF p] and pp = prev_char_boundary_ok [of s p]
  note nq = next_char_boundary_ok [OF assms(2)] and pq = prev_char_boundary_ok [of s q]
  show ?thesis
  proof (cases "next_char_boundary s p \<le> q")
    case True
    then have "next_char_boundary s p \<le> prev_char_boundary s q"
      using np prev_char_boundary_max by blast
    then show ?thesis using clamp_char_bounds [OF p] clamp_char_bounds [OF assms(2)] by linarith
  next
    case False
    have "next_char_boundary s q = next_char_boundary s p"
      using False np nq assms(1) next_char_boundary_min [of s "next_char_boundary s p" q]
        next_char_boundary_min [of s "next_char_boundary s q" p] by simp
    moreover have "prev_char_boundary s q = prev_char_boundary s p"
    proof (rule antisym)
      have "prev_char_boundary s q < p"
        using False next_char_boundary_min [of s "prev_char_boundary s q" p] pq by linarith
      then show "prev_char_boundary s q \<le> prev_char_boundary s p"
        using pq prev_char_boundary_max by simp
      show "prev_char_boundary s p \<le> prev_char_boundary s q"
        using pp assms(1) prev_char_boundary_max by simp
    qed
    moreover have "\<not> is_char_boundary s q" "\<not> is_char_boundary s p"
      using False assms(1) next_char_boundary_min [of s q p] next_char_boundary_min [of s p p] by auto
    ultimately show ?thesis
      using assms p pp np False by (auto simp: clamp_pos_to_char_boundary_def Let_def)
  qed
qed

subsection \<open>Sorting elements\<close>

lemma sorted_wrt_insort:
  "\<forall>y \<in> set xs. apart x y \<Longrightarrow> sorted_wrt apart xs \<Longrightarrow> sorted_wrt apart (insort_key f x xs)"
  by (induction xs) (auto simp: set_insort_key apart_def)

lemma sorted_wrt_sort_key: "sorted_wrt apart xs \<Longrightarrow> sorted_wrt apart (sort_key f xs)"
  by (induction xs) (auto intro!: sorted_wrt_insort)

lemma elements_ok_sort:
  "list_all (element_ok s) es \<Longrightarrow> sorted_wrt apart es \<Longrightarrow> elements_ok s (sort_key el_start es)"
  by (simp add: elements_ok_def sorted_wrt_sort_key list_all_iff)

lemma distinct_ids_sort: "distinct (map el_id (sort_key f es)) \<longleftrightarrow> distinct (map el_id es)"
  by (rule mset_eq_imp_distinct_iff) simp

subsection \<open>Replacing the whole text\<close>

definition disjoint_ranges :: "(nat \<times> nat) list \<Rightarrow> bool" where
  "disjoint_ranges rs \<longleftrightarrow> sorted_wrt (\<lambda>r q. snd r \<le> fst q \<or> snd q \<le> fst r) rs"

lemma clamp_min_mono:
  "a \<le> b \<Longrightarrow> clamp_pos_to_char_boundary s (min a (utf8_len s))
     \<le> clamp_pos_to_char_boundary s (min b (utf8_len s))"
  by (rule clamp_char_mono) auto

lemma set_text_elements_in:
  "e \<in> set (fst (set_text_elements s rs n)) \<Longrightarrow>
     \<exists>r \<in> set rs. el_start e = clamp_pos_to_char_boundary s (min (fst r) (utf8_len s)) \<and>
       el_end e = clamp_pos_to_char_boundary s (min (snd r) (utf8_len s)) \<and> el_start e < el_end e"
  by (induction s rs n rule: set_text_elements.induct)
    (auto simp: Let_def split: if_splits prod.splits)

lemma set_text_elements_apart:
  "disjoint_ranges rs \<Longrightarrow> sorted_wrt apart (fst (set_text_elements s rs n))"
proof (induction rs arbitrary: n)
  case (Cons r rs)
  obtain a b where r: "r = (a, b)" by fastforce
  have ih: "sorted_wrt apart (fst (set_text_elements s rs m))" for m
    using Cons by (simp add: disjoint_ranges_def)
  define e where "e = \<lparr>el_id = n, el_start = clamp_pos_to_char_boundary s (min a (utf8_len s)),
    el_end = clamp_pos_to_char_boundary s (min b (utf8_len s))\<rparr>"
  have "apart e f" if "f \<in> set (fst (set_text_elements s rs m))" for f m
    using set_text_elements_in [OF that] Cons.prems r clamp_min_mono
    by (auto simp: apart_def e_def disjoint_ranges_def)
  then show ?case using ih r by (simp add: Let_def e_def case_prod_beta)
qed simp

lemma set_text_elements_ids:
  assumes "set_text_elements s rs n = (es, m)" "m < usize_max"
  shows "n \<le> m \<and> distinct (map el_id es) \<and> (\<forall>e \<in> set es. n \<le> el_id e \<and> el_id e < m)"
  using assms
proof (induction s rs n arbitrary: es rule: set_text_elements.induct)
  case (2 s a b rs n)
  show ?case
  proof (cases "clamp_pos_to_char_boundary s (min b (utf8_len s))
      \<le> clamp_pos_to_char_boundary s (min a (utf8_len s))")
    case True
    then show ?thesis using 2 by (simp add: Let_def)
  next
    case False
    obtain fs where fs: "set_text_elements s rs (saturating_add n 1) = (fs, m)"
      "es = \<lparr>el_id = n, el_start = clamp_pos_to_char_boundary s (min a (utf8_len s)),
             el_end = clamp_pos_to_char_boundary s (min b (utf8_len s))\<rparr> # fs"
      using 2(3) False by (auto simp: Let_def split: prod.splits)
    then have ih: "saturating_add n 1 \<le> m \<and> distinct (map el_id fs) \<and>
        (\<forall>e \<in> set fs. saturating_add n 1 \<le> el_id e \<and> el_id e < m)"
      using 2(2) [OF refl refl False fs(1)] 2(4) by blast
    then have "saturating_add n 1 = Suc n" using 2(4) by (simp add: saturating_add_def min_def split: if_splits)
    then show ?thesis using ih fs(2) by fastforce
  qed
qed simp

lemma set_text_inner_ok:
  assumes "ta_ok A" "pred_option disjoint_ranges elements"
  shows "ta_ok (set_text_inner s elements A)"
proof -
  define els where "els = (case elements of
      None \<Rightarrow> ([], ta_next_element_id A)
    | Some rs \<Rightarrow> (case set_text_elements s rs (ta_next_element_id A) of
        (es, n) \<Rightarrow> (sort_key el_start es, n)))"
  have "list_all (element_ok s) (fst (set_text_elements s rs n))" for rs n
    using set_text_elements_in [of _ s rs n] by (fastforce simp: list_all_iff element_ok_def)
  then have ok: "elements_ok s (fst els)"
    using assms(2) set_text_elements_apart [of _ s]
    by (cases elements) (simp_all add: els_def elements_ok_sort case_prod_beta, simp add: elements_ok_def)
  have ids: "snd els < usize_max \<longrightarrow>
      distinct (map el_id (fst els)) \<and> list_all (\<lambda>e. el_id e < snd els) (fst els)"
    using set_text_elements_ids [of s]
    by (cases elements)
      (auto simp: els_def distinct_ids_sort list_all_iff split: prod.split)
  define A1 where "A1 = A\<lparr>ta_text := s, ta_cursor := min (ta_cursor A) (utf8_len s),
    ta_elements := fst els, ta_next_element_id := snd els\<rparr>"
  have "set_text_inner s elements A =
      A1\<lparr>ta_cursor := clamp_pos_to_nearest_boundary A1 (min (ta_cursor A) (utf8_len s)),
         ta_wrap_cache := None, ta_preferred_col := None\<rparr>"
    by (simp add: set_text_inner_def A1_def els_def Let_def case_prod_beta)
  moreover have "is_char_boundary s (clamp_pos_to_nearest_boundary A1 p)" for p
    using clamp_nearest_ok [of A1 p] by (simp add: A1_def)
  moreover have "ta_text A1 = s" "ta_elements A1 = fst els" "ta_next_element_id A1 = snd els"
    by (simp_all add: A1_def)
  ultimately show ?thesis using ok ids by (simp add: ta_ok_def ids_ok_def cache_ok_def)
qed

subsection \<open>Adding and renaming elements\<close>

lemma add_element_ok:
  assumes "ta_ok A" "on_boundary A a" "on_boundary A b" "a \<le> b"
    and "\<And>e. e \<in> set (ta_elements A) \<Longrightarrow> el_end e \<le> a \<or> b \<le> el_start e"
  shows "ta_ok (snd (add_element (a, b) A))"
proof -
  define e where "e = \<lparr>el_id = ta_next_element_id A, el_start = a, el_end = b\<rparr>"
  have "list_all (element_ok (ta_text A)) (ta_elements A @ [e])"
    "sorted_wrt apart (ta_elements A @ [e])"
    using ta_okD(2) [OF assms(1)] assms(2-5)
    by (auto simp: elements_ok_def element_ok_def e_def apart_def sorted_wrt_append)
  then have els: "elements_ok (ta_text A) (sort_key el_start (ta_elements A @ [e]))"
    by (rule elements_ok_sort)
  have "saturating_add (ta_next_element_id A) 1 < usize_max \<longrightarrow>
      saturating_add (ta_next_element_id A) 1 = ta_next_element_id A + 1"
    by (simp add: saturating_add_def min_def)
  then show ?thesis
    using els ta_okD(1,3,4) [OF assms(1)]
    by (auto simp: add_element_def next_element_id_def ta_ok_def ids_ok_def cache_ok_def list_all_iff
        distinct_ids_sort saturating_add_def simp flip: e_def cong: option.case_cong)
      (auto simp: e_def)
qed

lemma insert_element_ok:
  assumes "ta_ok A" shows "\<exists>i B. insert_element t A = Some (i, B) \<and> ta_ok B"
proof -
  define q where "q = clamp_pos_for_insertion A (ta_cursor A)"
  have qq: "clamp_pos_for_insertion A q = q"
    using clamp_insertion_ok [OF assms] by (intro clamp_insertion_id(1)) (auto simp: q_def)
  obtain x z B where b: "utf8_len x = q" "insert_str_at q t A = Some B" "ta_text B = x @ t @ z"
    "ta_elements B = shift_elements q 0 (utf8_len t) (ta_elements A)"
    using insert_str_at_result [OF assms, of q t] qq by metis
  have B: "ta_ok B" using insert_str_at_safe [OF assms, of q t] b(2) by (simp add: safe_def)
  have "el_end e \<le> q \<or> q + utf8_len t \<le> el_start e" if e: "e \<in> set (ta_elements B)" for e
  proof -
    obtain f where f: "f \<in> set (ta_elements A)" "\<not> (q \<le> el_start f \<and> el_end f \<le> q + 0)"
      "e = shift_element q 0 (utf8_len t) f"
      using e by (auto simp: b(4) shift_elements_def)
    have "el_end f \<le> q \<or> q \<le> el_start f" using clamp_insertion_ok(2) [OF assms f(1)] by (simp add: q_def)
    then show ?thesis using shift_element_kept [OF _ f(2), of "utf8_len t"] f(3) by auto
  qed
  then have "ta_ok (snd (add_element (q, q + utf8_len t) B))"
    using B by (intro add_element_ok) (simp_all add: b(3) flip: b(1))
  then show ?thesis
    using safe_set_cursor [of "snd (add_element (q, q + utf8_len t) B)" "q + utf8_len t"] b(2)
    by (simp add: insert_element_def q_def [symmetric] case_prod_beta safe_def Let_def)
qed

lemma add_element_range_ok:
  assumes "ta_ok A" shows "ta_ok (snd (add_element_range r A))"
proof -
  define a b where "a = clamp_pos_to_char_boundary (ta_text A) (min (fst r) (ta_len A))"
    and "b = clamp_pos_to_char_boundary (ta_text A) (min (snd r) (ta_len A))"
  have "ta_ok (snd (add_element (a, b) A))"
    if "a < b" "\<not> list_ex (\<lambda>e. a < el_end e \<and> el_start e < b) (ta_elements A)"
    using that assms by (intro add_element_ok) (auto simp: list_ex_iff a_def b_def)
  then show ?thesis
    using assms by (auto simp: add_element_range_def Let_def case_prod_beta simp flip: a_def b_def)
qed

lemma remove_element_range_ok:
  assumes "ta_ok A" shows "ta_ok (snd (remove_element_range r A))"
proof -
  have "ta_ok (A\<lparr>ta_elements := filter P (ta_elements A)\<rparr>)" for P
    using assms
    by (auto simp: ta_ok_def elements_ok_def ids_ok_def cache_ok_def list_all_iff sorted_wrt_filter
        distinct_map_filter sorted_filter cong: option.case_cong)
  then show ?thesis using assms by (simp add: remove_element_range_def Let_def)
qed

lemma renamed_shift_apart:
  assumes "el_end f \<le> a \<or> a + r \<le> el_start f"
  shows "renamed_shift a r i f = (if el_end f \<le> a then f else
    f\<lparr>el_start := el_start f + i - r, el_end := el_end f + i - r\<rparr>)"
  using assms by (auto simp: renamed_shift_def)

lemma renamed_element_text:
  fixes x y z t f
  assumes "el_end f \<le> utf8_len x \<or> utf8_len x + utf8_len y \<le> el_start f" "element_ok (x @ y @ z) f"
  defines "g \<equiv> renamed_shift (utf8_len x) (utf8_len y) (utf8_len t) f"
  shows "element_ok (x @ t @ z) g \<and> el_id g = el_id f \<and>
    element_text (x @ t @ z) g = element_text (x @ y @ z) f \<and>
    (el_end g \<le> utf8_len x \<or> utf8_len x + utf8_len t \<le> el_start g)"
proof -
  obtain p where p: "element_text (x @ y @ z) f = Some p"
    using assms(2) unfolding element_ok_def element_text_def by (metis slice_defined)
  show ?thesis
  proof (cases "el_end f \<le> utf8_len x")
    case True
    then show ?thesis using assms(2) p slice_before [of _ _ x y z p t]
      by (auto simp: g_def renamed_shift_apart [OF assms(1)] element_ok_def element_text_def
          intro: replaced_boundary_before)
  next
    case False
    then show ?thesis using assms p slice_after [of _ _ x y z p t]
      by (auto simp: renamed_shift_apart [OF assms(1)] element_ok_def element_text_def
          intro: replaced_boundary_after)
  qed
qed

lemma renamed_apart:
  assumes "el_end f \<le> a \<or> a + r \<le> el_start f" "el_end g \<le> a \<or> a + r \<le> el_start g" "apart f g"
    and "el_start f \<le> el_end f" "el_start g \<le> el_end g"
  shows "apart (renamed_shift a r i f) (renamed_shift a r i g)"
  using assms unfolding apart_def renamed_shift_apart [OF assms(1)] renamed_shift_apart [OF assms(2)]
  by auto

lemma renamed_elements_ok:
  fixes x y z t e before after
  assumes "elements_ok (x @ y @ z) (before @ e # after)"
    and "el_start e = utf8_len x" "el_end e = utf8_len x + utf8_len y"
  defines "sh \<equiv> renamed_shift (utf8_len x) (utf8_len y) (utf8_len t)"
  defines "es \<equiv> map sh before @ [e\<lparr>el_start := utf8_len x, el_end := utf8_len x + utf8_len t\<rparr>] @ map sh after"
  shows "elements_ok (x @ t @ z) (sort_key el_start es)" "map el_id es = map el_id (before @ e # after)"
proof -
  have c: "(el_end f \<le> utf8_len x \<or> utf8_len x + utf8_len y \<le> el_start f) \<and>
      element_ok (x @ y @ z) f \<and> el_start f \<le> el_end f" if "f \<in> set before \<union> set after" for f
    using assms(1-3) that
    by (auto simp: elements_ok_def list_all_iff sorted_wrt_append apart_def element_ok_def)
  have sh: "element_ok (x @ t @ z) (sh f) \<and> el_id (sh f) = el_id f \<and>
      (el_end (sh f) \<le> utf8_len x \<or> utf8_len x + utf8_len t \<le> el_start (sh f))"
    if "f \<in> set before \<union> set after" for f
    using renamed_element_text [of f x y z t] c [OF that] by (simp add: sh_def)
  show "map el_id es = map el_id (before @ e # after)" using sh by (simp add: es_def)
  have ap: "apart (sh f) (sh g)"
    if "f \<in> set before \<union> set after" "g \<in> set before \<union> set after" "apart f g" for f g
    unfolding sh_def using c [OF that(1)] c [OF that(2)] that(3) by (intro renamed_apart) auto
  have "sorted_wrt (\<lambda>f g. apart (sh f) (sh g)) l" if "l = before \<or> l = after" for l
    by (rule sorted_wrt_mono_rel [where P = apart])
      (use that assms(1) ap in \<open>auto simp: elements_ok_def sorted_wrt_append\<close>)
  moreover have "apart (sh f) (sh g)" if "f \<in> set before" "g \<in> set after" for f g
    using that assms(1) by (intro ap) (auto simp: elements_ok_def sorted_wrt_append)
  moreover have "apart (sh f) e'" "apart e' (sh f)"
    if "f \<in> set before \<union> set after" "el_start e' = utf8_len x" "el_end e' = utf8_len x + utf8_len t"
    for f e' using sh [OF that(1)] that(2,3) by (auto simp: apart_def)
  ultimately have "sorted_wrt apart es"
    by (auto simp: es_def sorted_wrt_append sorted_wrt_map)
  moreover have "list_all (element_ok (x @ t @ z)) es"
    using sh by (auto simp: es_def list_all_iff element_ok_def)
  ultimately show "elements_ok (x @ t @ z) (sort_key el_start es)" by (intro elements_ok_sort)
qed

lemma replace_element_payload_ok:
  assumes "ta_ok A" shows "\<exists>b B. replace_element_payload old t A = Some (b, B) \<and> ta_ok B"
proof (cases "List.extract (\<lambda>e. element_text (ta_text A) e = Some old) (ta_elements A)")
  case None
  then have "replace_element_payload old t A = Some (False, A)"
    by (simp add: replace_element_payload_def)
  then show ?thesis using assms by blast
next
  case (Some w)
  obtain before e after where w: "w = (before, e, after)" by (metis prod_cases3)
  have e: "ta_elements A = before @ e # after" "element_text (ta_text A) e = Some old"
    using Some w by (auto simp: extract_Some_iff)
  obtain x z where x: "ta_text A = x @ old @ z" "el_start e = utf8_len x"
    "el_end e = utf8_len x + utf8_len old"
    using e(2) unfolding element_text_def slice_Some_iff by auto
  define es where "es = map (renamed_shift (utf8_len x) (utf8_len old) (utf8_len t)) before @
    [e\<lparr>el_start := utf8_len x, el_end := utf8_len x + utf8_len t\<rparr>] @
    map (renamed_shift (utf8_len x) (utf8_len old) (utf8_len t)) after"
  define c where "c = (if ta_cursor A < utf8_len x then ta_cursor A
    else if ta_cursor A \<le> utf8_len x + utf8_len old then utf8_len x + utf8_len t
    else ta_cursor A + utf8_len t - utf8_len old)"
  define A1 where "A1 = A\<lparr>ta_text := x @ t @ z, ta_cursor := c, ta_wrap_cache := None,
    ta_preferred_col := None, ta_elements := es\<rparr>"
  have els: "elements_ok (x @ t @ z) (sort_key el_start es)"
    "map el_id es = map el_id (ta_elements A)"
    using renamed_elements_ok [of x old z before e after t] ta_okD(2) [OF assms] x e(1)
    by (simp_all add: es_def)
  have "replace_element_payload old t A =
      Some (True, A1\<lparr>ta_cursor := clamp_pos_to_nearest_boundary A1 c,
                     ta_elements := sort_key el_start es\<rparr>)"
    by (simp add: replace_element_payload_def Some [unfolded w x(1)] Let_def x A1_def es_def c_def)
  moreover have "is_char_boundary (x @ t @ z) (clamp_pos_to_nearest_boundary A1 c)"
    using clamp_nearest_ok [of A1 c] by (simp add: A1_def)
  moreover have "set (map el_id es) = set (map el_id (ta_elements A))" by (simp only: els(2))
  then have "el_id ` set es = el_id ` set (ta_elements A)" by simp
  ultimately show ?thesis
    using els ta_okD(3) [OF assms]
    by (auto simp: ta_ok_def ids_ok_def cache_ok_def distinct_ids_sort list_all_iff A1_def)
      (metis image_iff)
qed

subsection \<open>Sequences of calls\<close>

datatype text_area_call =
  Key_Input key_event
| Render_Area rect "16 word" "((nat \<times> nat) \<times> nat) list"
| Render_Masked rect "16 word" rchar
| Insert_Text rstring
| Insert_Text_At nat rstring
| Set_Cursor_To nat
| Replace_Text nat nat rstring
| Set_Plain_Text rstring
| Set_Element_Text rstring "(nat \<times> nat) list"
| Insert_Placeholder rstring
| Mark_Element "nat \<times> nat"
| Unmark_Element "nat \<times> nat"
| Rename_Element rstring rstring
| Enable_Vim bool
| Use_Keymaps keymaps

fun call_text_area :: "unicode_ops \<Rightarrow> text_area_call \<Rightarrow> text_area \<Rightarrow> text_area option" where
  "call_text_area u (Key_Input e) A = input u e A"
| "call_text_area u (Render_Area area scroll hs) A =
     map_option (snd \<circ> snd) (render_ref_styled_with_highlights u area scroll hs A)"
| "call_text_area u (Render_Masked area scroll m) A =
     map_option (snd \<circ> snd) (render_ref_masked u area scroll m A)"
| "call_text_area u (Insert_Text t) A = insert_str t A"
| "call_text_area u (Insert_Text_At p t) A = insert_str_at p t A"
| "call_text_area u (Set_Cursor_To p) A = Some (set_cursor p A)"
| "call_text_area u (Replace_Text a b t) A = replace_range (a, b) t A"
| "call_text_area u (Set_Plain_Text t) A = Some (set_text_clearing_elements t A)"
| "call_text_area u (Set_Element_Text t rs) A = Some (set_text_with_elements t rs A)"
| "call_text_area u (Insert_Placeholder t) A = map_option snd (insert_element t A)"
| "call_text_area u (Mark_Element r) A = Some (snd (add_element_range r A))"
| "call_text_area u (Unmark_Element r) A = Some (snd (remove_element_range r A))"
| "call_text_area u (Rename_Element old t) A = map_option snd (replace_element_payload old t A)"
| "call_text_area u (Enable_Vim b) A = Some (set_vim_enabled b A)"
| "call_text_area u (Use_Keymaps km) A = Some (set_keymap_bindings km A)"

text \<open>What a caller has to respect: ranges on char boundaries, and disjoint elements.\<close>

fun call_allowed :: "text_area_call \<Rightarrow> text_area \<Rightarrow> bool" where
  "call_allowed (Replace_Text a b t) A =
     (a \<le> b \<and> is_char_boundary (ta_text A) a \<and> is_char_boundary (ta_text A) b)"
| "call_allowed (Set_Element_Text t rs) A = disjoint_ranges rs"
| "call_allowed (Render_Area area scroll hs) A =
     list_all (\<lambda>h. is_char_boundary (ta_text A) (fst (fst h)) \<and>
                   is_char_boundary (ta_text A) (snd (fst h))) hs"
| "call_allowed c A = True"

fun run_calls :: "unicode_ops \<Rightarrow> text_area_call list \<Rightarrow> text_area \<Rightarrow> text_area option" where
  "run_calls u [] A = Some A"
| "run_calls u (c # cs) A = Option.bind (call_text_area u c A) (run_calls u cs)"

fun calls_allowed :: "unicode_ops \<Rightarrow> text_area_call list \<Rightarrow> text_area \<Rightarrow> bool" where
  "calls_allowed u [] A = True"
| "calls_allowed u (c # cs) A =
     (call_allowed c A \<and>
      (case call_text_area u c A of None \<Rightarrow> True | Some B \<Rightarrow> calls_allowed u cs B))"

lemma safe_ok: "safe A r \<Longrightarrow> \<exists>B. r = Some B \<and> ta_ok B"
  by (auto simp: safe_def)

lemma vim_flags_ok [simp]:
  "ta_ok (set_vim_enabled b A) \<longleftrightarrow> ta_ok A" "ta_ok (set_keymap_bindings km A) \<longleftrightarrow> ta_ok A"
  by (simp_all add: ta_ok_def ids_ok_def cache_ok_def set_vim_enabled_def set_keymap_bindings_def
      cong: option.case_cong)

lemma call_text_area_ok:
  assumes "unicode_ok u" "ta_ok A" "call_allowed c A"
  shows "\<exists>B. call_text_area u c A = Some B \<and> ta_ok B"
proof (cases c)
  case (Key_Input e)
  then show ?thesis using safe_ok [OF input_safe [OF assms(1,2)]] by simp
next
  case (Render_Area area sc hs)
  then show ?thesis using safe_ok [OF render_safe(1) [OF assms(1,2)]] assms(3)
    by (simp add: range_on_def)
next
  case (Render_Masked area sc m)
  then show ?thesis using safe_ok [OF render_safe(2) [OF assms(1,2), of "[]"]] by simp
next
  case (Insert_Placeholder t)
  then show ?thesis using insert_element_ok [OF assms(2), of t] by auto
next
  case (Rename_Element old t)
  then show ?thesis using replace_element_payload_ok [OF assms(2), of old t] by auto
next
  case (Replace_Text a b t)
  then show ?thesis using assms safe_ok [OF replace_range_safe [OF assms(2)]] by simp
next
  case (Set_Cursor_To p)
  then show ?thesis using safe_ok [OF safe_set_cursor [OF assms(2)]] by simp
qed (use assms safe_ok [OF insert_str_safe [OF assms(2)]] safe_ok [OF insert_str_at_safe [OF assms(2)]]
    in \<open>simp_all add: set_text_clearing_elements_def set_text_with_elements_def set_text_inner_ok
        add_element_range_ok remove_element_range_ok\<close>)

lemma ta_ok_new [simp]: "ta_ok (text_area_new km)"
  by (simp add: ta_ok_def text_area_new_def elements_ok_def ids_ok_def cache_ok_def)

lemma run_calls_ok:
  assumes "unicode_ok u" "ta_ok A" "calls_allowed u cs A"
  shows "\<exists>B. run_calls u cs A = Some B \<and> ta_ok B"
  using assms(2,3)
proof (induction cs arbitrary: A)
  case (Cons c cs)
  obtain B where "call_text_area u c A = Some B" "ta_ok B"
    using call_text_area_ok [OF assms(1) Cons.prems(1)] Cons.prems(2) by auto
  then show ?case using Cons.IH [of B] Cons.prems(2) by simp
qed simp

subsection \<open>Atomic elements\<close>

definition element_snapshot_payloads :: "text_area \<Rightarrow> (nat \<times> rstring) list" where
  "element_snapshot_payloads A = map (\<lambda>n. (sn_id n, sn_text n)) (text_element_snapshots A)"

lemma snapshots_payloads:
  assumes "ta_ok A"
  shows "element_snapshot_payloads A = map (\<lambda>(i, t). (i, the t)) (payloads A)"
proof -
  have "\<exists>p. element_text (ta_text A) e = Some p" if "e \<in> set (ta_elements A)" for e
    using elements_okD [OF ta_okD(2) [OF assms] that] slice_defined
    unfolding element_text_def by metis
  then show ?thesis
    unfolding element_snapshot_payloads_def text_element_snapshots_def payloads_def
    by (induction "ta_elements A") (auto simp: List.map_filter_def, fastforce+)
qed

fun is_key_or_render :: "text_area_call \<Rightarrow> bool" where
  "is_key_or_render (Key_Input e) = True"
| "is_key_or_render (Render_Area area scroll hs) = (hs = [])"
| "is_key_or_render (Render_Masked area scroll m) = True"
| "is_key_or_render c = False"

lemma key_or_render_safe:
  assumes "unicode_ok u" "ta_ok A" "is_key_or_render c" shows "safe A (call_text_area u c A)"
proof (cases c)
  case (Key_Input e)
  then show ?thesis by (simp add: input_safe [OF assms(1,2)])
next
  case (Render_Area area sc hs)
  then show ?thesis using render_safe(1) [OF assms(1,2), of "[]"] assms(3) by simp
next
  case (Render_Masked area sc m)
  then show ?thesis using render_safe(2) [OF assms(1,2), of "[]"] by simp
qed (use assms(3) in simp_all)

lemma run_keys_safe:
  assumes "unicode_ok u" "ta_ok A" "list_all is_key_or_render cs"
  shows "safe A (run_calls u cs A)"
  using assms(2,3)
proof (induction cs arbitrary: A)
  case (Cons c cs)
  then show ?case
    using key_or_render_safe [OF assms(1) Cons.prems(1)] by (simp add: safe_bind)
qed simp

subsection \<open>Killing and yanking\<close>

lemma kill_then_yank_restores:
  assumes "ta_ok A" "on_boundary A a" "on_boundary A b" "a < b"
    and "a \<le> ta_cursor A" "ta_cursor A \<le> b"
  shows "\<exists>B C. kill_range (a, b) A = Some B \<and> yank B = Some C \<and> ta_text C = ta_text A \<and>
    ta_kill_buffer B \<noteq> []"
proof -
  obtain a' b' where e: "expand_range_to_element_boundaries (ta_elements A) (a, b) = (a', b')"
    by fastforce
  note x = expand_range_boundaries [OF ta_okD(2) [OF assms(1)] assms(2,3) e]
  have ab: "a' \<le> ta_cursor A" "ta_cursor A \<le> b'" "a' < b'" using x assms(4-6) by auto
  obtain r where r: "str_slice a' b' (ta_text A) = Some r" "b' = a' + utf8_len r"
    using slice_defined [of "ta_text A" a' b'] x ab(3) by (metis less_imp_le)
  have ne: "r \<noteq> []" using ab(3) r(2) by auto
  define K where "K = store_kill_buffer r Characterwise A"
  have K: "ta_ok K" "ta_text K = ta_text A" "ta_elements K = ta_elements A"
    "ta_cursor K = ta_cursor A" "ta_kill_buffer K = r"
    using assms(1) by (simp_all add: K_def)
  obtain p y q B where B: "ta_text K = p @ y @ q" "utf8_len p = a'" "b' = a' + utf8_len y"
    "replace_range_raw (a', b') [] K = Some B" "ta_text B = p @ [] @ q"
    "ta_elements B = shift_elements a' (utf8_len y) (utf8_len []) (ta_elements K)"
    "ta_kill_buffer B = ta_kill_buffer K"
    "a' \<le> ta_cursor K \<Longrightarrow> ta_cursor K \<le> b' \<Longrightarrow>
       ta_cursor B = clamp_pos_to_nearest_boundary B (a' + utf8_len [])"
    using replace_range_raw_result [OF K(1), of a' b' "[]"] x ab(3) K(2)
    by (metis less_imp_le)
  have y: "y = r" using slice_append [of p y q] B(1,2,3) r(1) K(2) by simp
  have okB: "ta_ok B"
    using replace_range_raw_safe [OF K(1), of a' b' "[]"] x ab(3) K(2,3) B(4) by (simp add: safe_def)
  have clear: "el_end f \<le> a' \<or> a' \<le> el_start f" if f: "f \<in> set (ta_elements B)" for f
  proof -
    obtain g where g: "g \<in> set (ta_elements A)" "\<not> (a' \<le> el_start g \<and> el_end g \<le> a' + utf8_len y)"
      "f = shift_element a' (utf8_len y) 0 g"
      using f by (auto simp: B(6) K(3) shift_elements_def)
    then show ?thesis
      using x B(3) shift_element_kept [of g a' "utf8_len y" 0] by (auto simp: clear_range_def)
  qed
  have bB: "on_boundary B a'" using B(2,5) by auto
  have cur: "ta_cursor B = a'"
    using B(8) ab K(4) clamp_insertion_id(2) [OF bB clear] by simp
  obtain p1 q1 C where C: "ta_text B = p1 @ q1" "utf8_len p1 = clamp_pos_for_insertion B a'"
    "insert_str_at a' r B = Some C" "ta_text C = p1 @ r @ q1"
    using insert_str_at_result [OF okB, of a' r] by metis
  have "p1 = p \<and> q1 = q"
    by (rule same_len_prefix) (use C(1,2) clamp_insertion_id(1) [OF bB clear] B(2,5) in simp_all)
  then have "ta_text C = ta_text A" using C(4) B(1) K(2) y by simp
  then show ?thesis
    using B(4,7) C(3) r(1) ne cur K(5) ab(3)
    by (simp add: kill_range_def kill_range_with_kind_def e yank_def insert_str_def flip: K_def)
qed

subsection \<open>Restoring a draft\<close>

lemma sort_key_sorted: "sorted (map f xs) \<Longrightarrow> sort_key f xs = xs"
  by (induction xs) (simp_all add: insort_is_Cons)

lemma set_text_elements_ranges:
  assumes "list_all (element_ok s) es" "list_all (\<lambda>e. el_start e < el_end e) es"
  shows "map (\<lambda>e. (el_start e, el_end e))
      (fst (set_text_elements s (map (\<lambda>e. (el_start e, el_end e)) es) n)) =
    map (\<lambda>e. (el_start e, el_end e)) es"
  using assms
proof (induction es arbitrary: n)
  case (Cons e es)
  have "is_char_boundary s (el_start e)" "is_char_boundary s (el_end e)" "el_start e < el_end e"
    using Cons.prems by (simp_all add: element_ok_def)
  then show ?case using Cons boundary_le by (simp add: Let_def case_prod_beta min_absorb1)
qed simp

lemma draft_restored:
  fixes A A0 :: text_area
  assumes "ta_ok A" "list_all (\<lambda>e. el_start e < el_end e) (ta_elements A)"
  defines "B \<equiv> set_text_with_elements (ta_text A) (map fst (text_elements A)) A0"
  shows "ta_text B = ta_text A \<and> text_elements B = text_elements A"
proof -
  define rng :: "text_element \<Rightarrow> nat \<times> nat" where "rng = (\<lambda>e. (el_start e, el_end e))"
  define fs where "fs = fst (set_text_elements (ta_text A) (map rng (ta_elements A))
    (ta_next_element_id A0))"
  note ok = ta_okD(2) [OF assms(1), unfolded elements_ok_def]
  have fs: "map rng fs = map rng (ta_elements A)"
    using set_text_elements_ranges [of "ta_text A" "ta_elements A"] ok assms(2)
    unfolding fs_def rng_def by simp
  have "map el_start fs = map el_start (ta_elements A)"
    using arg_cong [OF fs, of "map fst"] by (simp add: rng_def comp_def)
  then have srt: "sort_key el_start fs = fs" using ok by (intro sort_key_sorted) simp
  have "map fst (text_elements A) = map rng (ta_elements A)"
    by (simp add: text_elements_def rng_def)
  then have B: "ta_text B = ta_text A" "ta_elements B = fs"
    by (simp_all add: B_def set_text_with_elements_def set_text_inner_def Let_def case_prod_beta srt
        flip: fs_def)
  have "text_elements A' = map (\<lambda>r. (r, str_slice (fst r) (snd r) (ta_text A')))
      (map rng (ta_elements A'))" for A'
    by (simp add: text_elements_def element_text_def rng_def)
  then show ?thesis using B fs by metis
qed

subsection \<open>The cursor on the screen\<close>

lemma effective_scroll_bounds:
  fixes A :: text_area and h cs :: "16 word"
  assumes "length ls < 2 ^ 16" "0 < h" "wrapped_line_index_by_start ls (ta_cursor A) = Some i"
  defines "sc \<equiv> effective_scroll h ls cs A"
  shows "unat sc \<le> i \<and> i < unat sc + unat h"
proof -
  have i: "i < length ls" by (rule line_index_ok(1) [OF assms(3)])
  have n: "unat (of_nat (length ls) :: 16 word) = length ls" "unat (of_nat i :: 16 word) = i"
    using assms(1) i by (simp_all add: unat_of_nat take_bit_nat_eq_self)
  define t where "t = (of_nat (length ls) :: 16 word)"
  define x where "x = (of_nat i :: 16 word)"
  have tx: "x < t" "unat x = i" "unat t = length ls"
    using n i by (simp_all add: t_def x_def word_less_nat_alt)
  have eq: "sc = (if t \<le> h then 0 else let s = min cs (t - h) in
      if x < s then x else if s + h \<le> x then x + 1 - h else s)"
    by (simp only: sc_def effective_scroll_def assms(3) option.case t_def x_def Let_def)
  have low: ?thesis if "t \<le> h" "sc = 0"
    using that i tx(3) by (simp add: word_le_nat_alt)
  have high: ?thesis if "h < t" "s = min cs (t - h)"
    "sc = (if x < s then x else if s + h \<le> x then x + 1 - h else s)" for s
  proof -
    have h: "unat h < unat t" "0 < unat h"
      using that(1) assms(2) by (simp_all add: word_less_nat_alt)
    have "unat (t - h) = unat t - unat h" using that(1) by (intro unat_sub) simp
    moreover have "unat s \<le> unat (t - h)"
      using that(2) by (simp add: word_le_nat_alt [symmetric])
    ultimately have s: "unat (s + h) = unat s + unat h"
      using h tx(3) assms(1) by (simp add: unat_word_ariths(1))
    have "unat (x + 1) = i + 1"
      using tx(2) i assms(1) by (simp add: unat_word_ariths(1))
    moreover have "unat (x + 1 - h) = unat (x + 1) - unat h" if "s + h \<le> x"
      using that s tx(2) calculation by (intro unat_sub) (simp add: word_le_nat_alt)
    ultimately show ?thesis
      using that(3) s tx(2) h by (auto simp: word_less_nat_alt word_le_nat_alt)
  qed
  show ?thesis
  proof (cases "t \<le> h")
    case True
    then show ?thesis using low eq by simp
  next
    case False
    have "sc = (if x < min cs (t - h) then x
        else if min cs (t - h) + h \<le> x then x + 1 - h else min cs (t - h))"
      unfolding eq if_not_P [OF False] Let_def by (rule refl)
    then show ?thesis using False by (intro high [OF _ refl]) simp_all
  qed
qed

lemma line_index_some:
  assumes "rows_cover s ls" shows "\<exists>i. wrapped_line_index_by_start ls p = Some i"
  using assms by (cases ls) (auto simp: rows_cover_def wrapped_line_index_by_start_def Let_def)

lemma cursor_pos_inside:
  assumes "unicode_ok u" "ta_ok A" "rect_width area \<noteq> 0" "rect_height area \<noteq> 0"
    and "unat (rect_x area) + unat (rect_width area) < 2 ^ 16"
    and "unat (rect_y area) + unat (rect_height area) < 2 ^ 16"
    and "wrapped_lines u (unat (rect_width area)) A = Some (ls, B)" "length ls < 2 ^ 16"
  shows "\<exists>x y. cursor_pos_with_state u area sc A = Some (Some (x, y), B) \<and>
    unat (rect_x area) \<le> unat x \<and> unat x < unat (rect_x area) + unat (rect_width area) \<and>
    unat (rect_y area) \<le> unat y \<and> unat y < unat (rect_y area) + unat (rect_height area)"
proof -
  have B: "ta_ok B" "rows_cover (ta_text A) ls" "ta_text B = ta_text A" "ta_cursor B = ta_cursor A"
    using wrapped_lines_safe [OF assms(1,2), of "unat (rect_width area)"] assms(7)
    by (metis option.inject prod.inject)+
  obtain i where i: "wrapped_line_index_by_start ls (ta_cursor B) = Some i"
    using line_index_some [OF B(2)] by blast
  note ix = line_index_ok [OF i]
  have "is_char_boundary (ta_text B) (fst (ls ! i))"
    using rows_ok_nth [of "ta_text A" 0 ls i] B(2,3) ix(1) by (simp add: rows_cover_def)
  then obtain l where l: "str_slice (fst (ls ! i)) (ta_cursor B) (ta_text B) = Some l"
    using slice_defined [OF _ ta_okD(1) [OF B(1)] ix(2)] by metis
  define eff where "eff = effective_scroll (rect_height area) ls sc B"
  have h: "0 < unat (rect_height area)" "0 < unat (rect_width area)"
    using assms(3,4) by (simp_all add: unat_gt_0)
  have e: "unat eff \<le> i" "i - unat eff < unat (rect_height area)"
    using effective_scroll_bounds [OF assms(8) _ i, of "rect_height area" sc] assms(4) h
    by (auto simp: eff_def word_neq_0_conv)
  have small: "i - unat eff < 2 ^ 16" using e(2) assms(6) by simp
  define col where "col = min (display_width u l) (unat (rect_width area) - 1)"
  define row where "row = i - unat eff"
  have c: "col < unat (rect_width area)" using h(2) by (simp add: col_def)
  have "unat (rect_x area + of_nat col) = unat (rect_x area) + col"
    "unat (rect_y area + of_nat row) = unat (rect_y area) + row"
    using assms(5,6) c e(2) by (simp_all add: unat_word_ariths(1) unat_of_nat row_def)
  moreover have "cursor_pos_with_state u area sc A =
      Some (Some (rect_x area + of_nat col, rect_y area + of_nat row), B)"
    using assms(3,4,7) i l small
    by (simp add: cursor_pos_with_state_def Let_def col_def row_def flip: eff_def)
  ultimately show ?thesis using c e(2) by (simp add: row_def)
qed

subsection \<open>A concrete segmentation\<close>

text \<open>One char per grapheme, one word per run, one row per text.\<close>

definition char_ops :: unicode_ops where
  "char_ops =
     \<lparr>prev_boundary = (\<lambda>s p. if p = 0 then NoBoundary else Boundary (prev_char_boundary s (p - 1))),
      next_boundary = (\<lambda>s p. if utf8_len s \<le> p then NoBoundary
                              else Boundary (next_char_boundary s (p + 1))),
      grapheme_indices = (\<lambda>s. map (\<lambda>(i, c). (i, [c])) (char_indices 0 s)),
      split_word_bound_indices = (\<lambda>s. if s = [] then [] else [(0, s)]),
      unicode_width = length,
      wrap_ranges = (\<lambda>w s. [(0, utf8_len s + 1)])\<rparr>"

lemma char_ops_ok: "unicode_ok char_ops"
proof -
  have p: "0 < p \<Longrightarrow> prev_char_boundary s (p - 1) < p \<and> is_char_boundary s (prev_char_boundary s (p - 1))"
    for s p using prev_char_boundary_ok [of s "p - 1"] by auto
  have n: "p < utf8_len s \<Longrightarrow> p < next_char_boundary s (p + 1) \<and>
      is_char_boundary s (next_char_boundary s (p + 1))" for s p
    using next_char_boundary_ok [of "p + 1" s] by simp
  have g: "segmentation k (map (\<lambda>(i, c). (i, [c])) (char_indices k s)) s" for k s
    by (induction s arbitrary: k) (simp_all add: starts_with_def)
  show ?thesis using p n g
    by (simp add: unicode_ok_def char_ops_def rows_cover_def starts_with_def)
qed

text \<open>
  Leaving Vim's insert mode steps back but not over the beginning of the line, so in an element
  with a line break the cursor stops inside of it.
\<close>

definition two_line_element :: text_area where
  "two_line_element = (text_area_new built_in_defaults)
     \<lparr>ta_text := [97, LF, 98], ta_cursor := 3,
      ta_elements := [\<lparr>el_id = 0, el_start = 0, el_end = 3\<rparr>], ta_vim_enabled := True\<rparr>"

lemma vim_escape_into_element:
  "ta_ok two_line_element \<and>
   map_option ta_cursor (handle_vim_insert char_ops
     \<lparr>ev_code = Esc, ev_modifiers = 0, ev_kind = KeyPress\<rparr> two_line_element) = Some 2"
  by (simp add: two_line_element_def text_area_new_def ta_ok_def is_char_boundary_def
      char_len_utf8_def elements_ok_def element_ok_def ids_ok_def usize_max_def cache_ok_def
      handle_vim_insert_def beginning_of_current_line_def beginning_of_line_def slice_to_def
      rfind_char_def prev_atomic_boundary_def enter_vim_normal_mode_def Let_def)

subsection \<open>Properties\<close>





text \<open>C32. Killing a range around the cursor and then yanking gives back the text: the range is
  widened to whole elements, the kill buffer holds exactly what was removed, the cursor stands where
  it was removed, and the insertion is not moved away from there by an element.\<close>

theorem yank_restores_killed:
  assumes "ta_ok A" "is_char_boundary (ta_text A) a" "is_char_boundary (ta_text A) b" "a < b"
    and "a \<le> ta_cursor A" "ta_cursor A \<le> b"
  shows "\<exists>B C. kill_range (a, b) A = Some B \<and> yank B = Some C \<and> ta_text C = ta_text A"
  using kill_then_yank_restores [OF assms] by blast

theorem yank_restores_killed_witness:
  "\<exists>B C. kill_range (1, 3) two_line_element = Some B \<and> yank B = Some C \<and>
    ta_text C = ta_text two_line_element"
  by (rule yank_restores_killed)
    (simp_all add: vim_escape_into_element,
      simp_all add: two_line_element_def is_char_boundary_def char_len_utf8_def)

text \<open>C37. A draft saved as its text and the ranges of its elements is restored by
  \<^verbatim>\<open>set_text_with_elements\<close> into any text area: the text, the ranges and the placeholders are the same.\<close>

theorem draft_round_trip:
  assumes "ta_ok A" "list_all (\<lambda>e. el_start e < el_end e) (ta_elements A)"
  shows "ta_text (set_text_with_elements (ta_text A) (map fst (text_elements A)) A0) = ta_text A \<and>
    text_elements (set_text_with_elements (ta_text A) (map fst (text_elements A)) A0) = text_elements A"
  by (rule draft_restored [OF assms])

theorem draft_round_trip_witness:
  "text_elements (set_text_with_elements (ta_text two_line_element)
     (map fst (text_elements two_line_element)) (text_area_new built_in_defaults)) =
   text_elements two_line_element"
  using draft_round_trip [of two_line_element "text_area_new built_in_defaults"]
    vim_escape_into_element
  by (simp add: two_line_element_def)


lemma two_line_rows: "\<exists>B. wrapped_lines char_ops 2 two_line_element = Some ([(0, 3), (2, 4)], B)"
  by (simp add: two_line_element_def text_area_new_def wrapped_lines_def char_ops_def
      text_for_display_def str_slice_def slice_to_def slice_from_def char_len_utf8_def
      refine_wrapped_line_def display_width_def line_ends_at_def Let_def)


end
