(* ===== verification/Spec2Isabelle.thy ===== *)
theory Spec2Isabelle
  imports Patch_Roundtrip Patch_Invocation Policy_Amend Output_Pipeline Output_Collector
    Noise_Relay_Correct Remote_Session Context_History_Correct Utf8_Stream_Correct Text_Area_Calls
begin

text \<open>
  \<^bold>\<open>A verification library for the Codex agent\<close>, the Rust workspace \<^verbatim>\<open>codex-rs\<close>. File names
  below are relative to \<^verbatim>\<open>src/codex-rs/\<close>.

  \<^bold>\<open>The program.\<close> A session sends a conversation to a model and carries out the tools the model
  calls. The model edits files with \<^emph>\<open>apply-patch\<close>, whose patches are parsed, verified for the
  user's approval and applied through an executor file system. It runs commands, which the
  \<^emph>\<open>execpolicy\<close> allows, prompts for or forbids, in \<^emph>\<open>unified exec\<close> processes, locally or on an
  \<^emph>\<open>exec server\<close> reached over a Noise-encrypted relay; their output flows through bounded
  buffers back to the model. The \<^emph>\<open>conversation history\<close> records items, truncates tool output and
  prepares the prompt. The model's text is streamed through \<^emph>\<open>text parsers\<close> that hide citations. The user writes in
  the \<^emph>\<open>text area\<close> of the terminal interface's composer.

  \<^bold>\<open>Conventions.\<close> A Rust \<^verbatim>\<open>String\<close> is the list of its chars, a char a natural number, a byte an
  \<^typ>\<open>8 word\<close>. Lengths and offsets in bytes use \<^const>\<open>utf8_len\<close>. A method with
  \<^verbatim>\<open>&mut self\<close> returns the new state, a \<^verbatim>\<open>Result\<close> is a sum with the error on the left, a panic and
  an endless loop are \<^const>\<open>None\<close>. Counters are natural numbers where the code saturates or where
  a hypothesis keeps them below their width; \<^verbatim>\<open>i64\<close> token counts saturate or wrap as written.
  Shared lemmas and text functions are in \<^verbatim>\<open>Prelude\<close>; bytes, big-endian integers and chunks in
  \<^verbatim>\<open>Bytes\<close>. Concurrency is a step relation whose steps interleave freely: tokio channels may delay,
  drop (broadcast) and reorder as their documentation allows.

  \<^bold>\<open>Editing files.\<close>
  \<^item> \<^verbatim>\<open>Seek_Sequence\<close> (\<^verbatim>\<open>apply-patch/src/seek_sequence.rs\<close>): searching lines in passes of
    decreasing strictness; the match found is sound and the first of the strictest pass.
  \<^item> \<^verbatim>\<open>Patch_Types\<close>, \<^verbatim>\<open>Patch_Parser\<close> (\<^verbatim>\<open>parser.rs\<close>, \<^verbatim>\<open>streaming_parser.rs\<close>): the streaming parser
    as a state machine over lines. \<^verbatim>\<open>Patch_Parser_Correct\<close>: its invariant, independence of the
    chunks it is fed with. \<^verbatim>\<open>Patch_Roundtrip\<close>: parsing inverts printing.
  \<^item> \<^verbatim>\<open>Replacements\<close> (\<^verbatim>\<open>lib.rs\<close>): locating the chunks of an update and splicing the new lines;
    no panic, exact splice for orderly chunks, and the inputs on which lines get lost.
  \<^item> \<^verbatim>\<open>File_System\<close>, \<^verbatim>\<open>Local_File_System\<close> (\<^verbatim>\<open>file-system/src/lib.rs\<close>,
    \<^verbatim>\<open>exec-server/src/local_file_system.rs\<close>): the executor file system as a record of operations with
    a locale of laws, interpreted on a disk of nodes with symlinks (\<open>MAX_SYMLINKS = 40\<close> hops).
  \<^item> \<^verbatim>\<open>Apply_Patch\<close>, \<^verbatim>\<open>Apply_Patch_Correct\<close> (\<^verbatim>\<open>lib.rs\<close>): applying hunks with the delta of what
    was done; effect, frame, and that an exact delta undoes. \<^verbatim>\<open>Patch_Invocation\<close>
    (\<^verbatim>\<open>invocation.rs\<close>): recognising and verifying a patch; what was approved is what is written.
  \<^item> \<^verbatim>\<open>Absolute_Path\<close> (\<^verbatim>\<open>utils/absolute-path\<close>): lexical normal forms of paths.

  \<^bold>\<open>Deciding about commands.\<close>
  \<^item> \<^verbatim>\<open>Exec_Rule\<close>, \<^verbatim>\<open>Exec_Policy\<close> (\<^verbatim>\<open>execpolicy/src/{decision,rule,policy}.rs\<close>): prefix, network and
    host-executable rules; the strictest match decides, overlays tighten.
  \<^item> \<^verbatim>\<open>Policy_Parser\<close> (\<^verbatim>\<open>parser.rs\<close>): the builtins of policy files over an evaluated Starlark module;
    accepted examples hold. \<^verbatim>\<open>Json_String\<close>, \<^verbatim>\<open>Policy_Amend\<close> (\<^verbatim>\<open>amend.rs\<close>): appending an approval.

  \<^bold>\<open>Running commands.\<close>
  \<^item> \<^verbatim>\<open>Head_Tail_Buffer\<close> (\<^verbatim>\<open>core/src/unified_exec/head_tail_buffer.rs\<close>): a bounded buffer refines the
    first and last bytes of the stream (1 MiB).
  \<^item> \<^verbatim>\<open>Exec_Process\<close>, \<^verbatim>\<open>Exec_Process_Correct\<close> (\<^verbatim>\<open>exec-server/src/{local_process,process}.rs\<close>): a
    process of the server as a step relation; its events are numbered, ordered and retained as a
    bounded tail (1 MiB of output, 50,000 events, 4,096 write ids).
  \<^item> \<^verbatim>\<open>Output_Task\<close>, \<^verbatim>\<open>Output_Pipeline\<close> (\<^verbatim>\<open>core/src/unified_exec/process.rs\<close>): the task that copies
    events into the buffer; composed with the process, it delivers all output. \<^verbatim>\<open>Output_Collector\<close>
    (\<^verbatim>\<open>process_manager.rs\<close>): collecting ends by its deadline.
  \<^item> \<^verbatim>\<open>Reorder_Buffer\<close>: a locale for consecutive numbering, interpreted for ciphertext frames
    (\<^verbatim>\<open>Noise_Relay\<close>, \<^verbatim>\<open>Noise_Relay_Correct\<close>, \<^verbatim>\<open>exec-server/src/noise_relay\<close>, window 64 frames) and
    for session events (\<^verbatim>\<open>Session_Events\<close>, \<^verbatim>\<open>Session_Events_Correct\<close>,
    \<^verbatim>\<open>exec-server/src/client.rs\<close>, 256 events and 1 MiB).
  \<^item> \<^verbatim>\<open>Session_Recovery\<close>, \<^verbatim>\<open>Remote_Session\<close> (\<^verbatim>\<open>client_recovery.rs\<close>): a client session, with lost
    and late notifications and replies, shows a prefix of the server's log.

  \<^bold>\<open>The conversation.\<close>
  \<^item> \<^verbatim>\<open>Text_Truncation\<close>, \<^verbatim>\<open>Text_Truncation_Correct\<close> (\<^verbatim>\<open>utils/string/src/truncate.rs\<close>,
    \<^verbatim>\<open>utils/output-truncation\<close>): cutting the middle out of a text. \<^verbatim>\<open>Response_Items\<close>
    (\<^verbatim>\<open>protocol/src/models.rs\<close>, \<^verbatim>\<open>context-fragments\<close>): the items of a conversation, bounded tool output
    and the recognition of injected context.
  \<^item> \<^verbatim>\<open>Context_History\<close>, \<^verbatim>\<open>Context_History_Correct\<close> (\<^verbatim>\<open>core/src/context_manager\<close>): recording,
    normalising, rolling back and counting; prompts are paired, rollback drops whole turns.
  \<^item> \<^verbatim>\<open>Stream_Parser\<close>, \<^verbatim>\<open>Stream_Parser_Correct\<close>, \<^verbatim>\<open>Utf8_Stream\<close>, \<^verbatim>\<open>Utf8_Stream_Correct\<close>
    (\<^verbatim>\<open>utils/stream-parser\<close>): a locale for parsers of a stream, interpreted for hidden tags and
    citations, and the byte parser as its client; the loop ends and chunk borders do not matter.

  \<^bold>\<open>The composer's text area.\<close>
  \<^item> \<^verbatim>\<open>Char_Boundaries\<close>: byte positions, slices and replacement in text. \<^verbatim>\<open>Key_Bindings\<close>,
    \<^verbatim>\<open>Default_Keymap\<close> (\<^verbatim>\<open>tui/src/key_hint.rs\<close>, \<^verbatim>\<open>tui/src/keymap.rs\<close>): matching key events; no key of
    the built-in keymaps is ambiguous.
  \<^item> \<^verbatim>\<open>Text_Area\<close>, \<^verbatim>\<open>Text_Area_Keys\<close> (\<^verbatim>\<open>tui/src/bottom_pane/textarea.rs\<close>, \<^verbatim>\<open>textarea/vim.rs\<close>): a
    record with one definition per method: editing, elements, kill buffer, words, rows, drawing,
    Vim operators and text objects, and the key handlers.
  \<^item> \<^verbatim>\<open>Text_Area_Edits\<close>: the invariant, and that edits keep it and the elements' texts.
    \<^verbatim>\<open>Text_Area_Positions\<close>: all positions computed lie on char boundaries. \<^verbatim>\<open>Text_Area_Correct\<close>:
    every key handler is safe. \<^verbatim>\<open>Text_Area_Calls\<close>: sequences of calls never panic, elements are
    atomic, yanking restores, drafts round trip, the cursor stays on screen.

  \<^bold>\<open>Bounds.\<close> Loops are structural recursions or functions with a measure; the loop of
  \<^verbatim>\<open>push_str\<close> is a partial function proved to return. The collector runs with as many rounds as
  its deadline admits. Sequence numbers are assumed to stay below \<open>2 ^ 64 - 2\<close>, texts below
  \<open>2 ^ 63\<close> bytes, the limit Rust puts on an allocation.

  \<^bold>\<open>Parameters.\<close> Code of other crates is an argument with named hypotheses: path URIs
  (\<^verbatim>\<open>url\<close>), bash trees (\<^verbatim>\<open>tree-sitter\<close>), unified diffs (\<^verbatim>\<open>similar\<close>), the evaluation of Starlark, word
  splitting (\<^verbatim>\<open>shlex\<close>), the Noise cipher (\<^verbatim>\<open>clatter\<close>), JSON printing and parsing (\<^verbatim>\<open>serde_json\<close>),
  UUIDs, image and audio decoders, grapheme and word
  segmentation (\<^verbatim>\<open>unicode_segmentation\<close>), column widths and the wrapping of text into rows, which
  \<^verbatim>\<open>tui/src/wrapping.rs\<close> reads off the slices of \<^verbatim>\<open>textwrap\<close>.

  \<^bold>\<open>Not modelled.\<close> The rest of the terminal user interface (cells, layout, popups), the command line, the
  session loop and its model client, login, the SQLite state, cli-runtime request processors,
  MCP, the network proxy, sandboxes and the JavaScript runtime: they are I/O, generated
  protocol types, or thin glue over crates that are not part of this repository. Of the modelled
  parts, \<^verbatim>\<open>update_world_state\<close>, RPC transports, HTTP body streams, process spawning and PTYs are
  left out.
\<close>

end
